(* ===== verification/Go_Prelude.thy ===== *)
theory Go_Prelude
  imports Main "HOL-Library.Word" "HOL-Library.List_Lexorder" "HOL-Library.Multiset"
begin

text \<open>
  The vocabulary every component theory shares.

  Go values: a byte is an 8-bit word, a byte slice a list of bytes (ordered lexicographically,
  as \<^verbatim>\<open>bytes.Compare\<close> orders them), \<^verbatim>\<open>uint32\<close> and \<^verbatim>\<open>uint64\<close> are words of that
  width, and \<^verbatim>\<open>int\<close> (64 bits on the supported platforms) is an \<open>int\<close> with the
  conversion from \<^verbatim>\<open>uint64\<close> and the wrap-around of \<open>+\<close> written out where they can matter.

  Go control flow: a call returns a value, returns an error, or panics; the type
  \<open>outcome\<close> has one constructor for each, and \<open>obind\<close> is sequencing.

  \<^verbatim>\<open>sort.Slice\<close> is insertion sort with the comparison function of the call, with the
  specification proved once in the locale \<open>slice_less\<close> for every comparison that is a
  strict weak order.
\<close>

unbundle bit_operations_syntax

section \<open>Values\<close>

type_synonym byte = "8 word"
type_synonym bytes = "byte list"
type_synonym u8 = "8 word"
type_synonym u16 = "16 word"
type_synonym u32 = "32 word"
type_synonym u64 = "64 word"

text \<open>
  \<open>wrap_int\<close> is the value a signed 64-bit register holds after an addition whose exact
  result is the argument; \<open>sint\<close> is the conversion \<^verbatim>\<open>int(x)\<close> of a \<^verbatim>\<open>uint64\<close>.
\<close>

definition wrap_int :: "int \<Rightarrow> int" where
  "wrap_int x = signed_take_bit 63 x"

lemma wrap_int_id [simp]: "- (2 ^ 63) \<le> x \<Longrightarrow> x < 2 ^ 63 \<Longrightarrow> wrap_int x = x"
  by (simp add: wrap_int_def signed_take_bit_int_eq_self)

lemma wrap_int_less: "wrap_int x < 2 ^ 63"
  unfolding wrap_int_def by (rule signed_take_bit_int_less_exp)

lemma sint_u64_of_nat: "n < 2 ^ 63 \<Longrightarrow> sint (of_nat n :: u64) = int n"
  by (simp add: sint_uint uint_nat unat_of_nat signed_take_bit_int_eq_self)

section \<open>Outcomes\<close>

datatype ('e, 'a) outcome = Return 'a | Error 'e | Panic

fun obind :: "('e, 'a) outcome \<Rightarrow> ('a \<Rightarrow> ('e, 'b) outcome) \<Rightarrow> ('e, 'b) outcome" where
  "obind (Return x) f = f x"
| "obind (Error e) f = Error e"
| "obind Panic f = Panic"

lemma obind_assoc [simp]: "obind (obind m f) g = obind m (\<lambda>x. obind (f x) g)"
  by (cases m) simp_all

lemma obind_Return_right [simp]: "obind m Return = m"
  by (cases m) simp_all

lemma obind_eq_Return: "obind m f = Return y \<longleftrightarrow> (\<exists>x. m = Return x \<and> f x = Return y)"
  by (cases m) simp_all

lemma obind_eq_Panic: "obind m f = Panic \<longleftrightarrow> m = Panic \<or> (\<exists>x. m = Return x \<and> f x = Panic)"
  by (cases m) simp_all

lemma obind_eq_Error:
  "obind m f = Error e \<longleftrightarrow> m = Error e \<or> (\<exists>x. m = Return x \<and> f x = Error e)"
  by (cases m) simp_all

lemma obind_cong [fundef_cong]:
  "m = m' \<Longrightarrow> (\<And>x. m' = Return x \<Longrightarrow> f x = g x) \<Longrightarrow> obind m f = obind m' g"
  by (cases m') simp_all

text \<open>The result is discarded or mapped: no new panics, no new errors.\<close>

definition omap :: "('a \<Rightarrow> 'b) \<Rightarrow> ('e, 'a) outcome \<Rightarrow> ('e, 'b) outcome" where
  "omap f m = obind m (\<lambda>x. Return (f x))"

lemma omap_simps [simp]:
  "omap f (Return x) = Return (f x)" "omap f (Error e) = Error e" "omap f Panic = Panic"
  by (simp_all add: omap_def)

lemma omap_eq_Panic [simp]: "omap f m = Panic \<longleftrightarrow> m = Panic"
  by (cases m) simp_all

lemma omap_eq_Return: "omap f m = Return y \<longleftrightarrow> (\<exists>x. m = Return x \<and> y = f x)"
  by (cases m) auto

text \<open>An error of a callee, wrapped into the error type of the caller.\<close>

definition wrap_error :: "('e \<Rightarrow> 'f) \<Rightarrow> ('e, 'a) outcome \<Rightarrow> ('f, 'a) outcome" where
  "wrap_error f m = (case m of Return x \<Rightarrow> Return x | Error e \<Rightarrow> Error (f e) | Panic \<Rightarrow> Panic)"

lemma wrap_error_simps [simp]:
  "wrap_error f (Return x) = Return x" "wrap_error f (Error e) = Error (f e)" "wrap_error f Panic = Panic"
  by (simp_all add: wrap_error_def)

text \<open>The length of a slice is a 64-bit integer with sign; the runtime panics rather than make a longer one.\<close>

definition as_slice :: "'a list \<Rightarrow> ('e, 'a list) outcome" where
  "as_slice xs = (if length xs < 2 ^ 63 then Return xs else Panic)"

lemma as_slice_Return [simp]: "as_slice xs = Return ys \<longleftrightarrow> ys = xs \<and> length xs < 2 ^ 63"
  by (auto simp: as_slice_def)

lemma wrap_error_eq [simp]:
  "wrap_error f m = Return x \<longleftrightarrow> m = Return x" "wrap_error f m = Panic \<longleftrightarrow> m = Panic"
  by (cases m; simp)+

text \<open>A loop that fills a slice with the results of a fallible call stops at the first error.\<close>

fun omapM :: "('a \<Rightarrow> ('e, 'b) outcome) \<Rightarrow> 'a list \<Rightarrow> ('e, 'b list) outcome" where
  "omapM f [] = Return []"
| "omapM f (x # xs) = obind (f x) (\<lambda>y. obind (omapM f xs) (\<lambda>ys. Return (y # ys)))"

text \<open>A loop that updates a state for each element and stops at the first error.\<close>

fun ofold :: "('s \<Rightarrow> 'a \<Rightarrow> ('e, 's) outcome) \<Rightarrow> 's \<Rightarrow> 'a list \<Rightarrow> ('e, 's) outcome" where
  "ofold f s [] = Return s"
| "ofold f s (x # xs) = obind (f s x) (\<lambda>s'. ofold f s' xs)"

lemma omapM_eq_Return: "omapM f xs = Return ys \<longleftrightarrow> list_all2 (\<lambda>x y. f x = Return y) xs ys"
  by (induction xs arbitrary: ys) (auto simp: obind_eq_Return list_all2_Cons1)

lemma omapM_map_Return: "(\<And>x. x \<in> set xs \<Longrightarrow> f (g x) = Return (h x)) \<Longrightarrow> omapM f (map g xs) = Return (map h xs)"
  by (induction xs) auto

lemma omapM_no_panic: "(\<And>x. x \<in> set xs \<Longrightarrow> f x \<noteq> Panic) \<Longrightarrow> omapM f xs \<noteq> Panic"
  by (induction xs) (auto simp: obind_eq_Panic)

lemmas outcome_eq = obind_eq_Return obind_eq_Panic obind_eq_Error omap_eq_Return

section \<open>Sorting slices\<close>

text \<open>
  \<^verbatim>\<open>sort.Slice\<close> on short slices is insertion sort from the left (it is not stable on
  longer ones; the places that depend on the order of equal elements say so).
\<close>

fun insert_slice :: "('a \<Rightarrow> 'a \<Rightarrow> bool) \<Rightarrow> 'a \<Rightarrow> 'a list \<Rightarrow> 'a list" where
  "insert_slice lt x [] = [x]"
| "insert_slice lt x (y # ys) =
     (if lt x y then x # y # ys else y # insert_slice lt x ys)"

fun sort_slice_acc :: "('a \<Rightarrow> 'a \<Rightarrow> bool) \<Rightarrow> 'a list \<Rightarrow> 'a list \<Rightarrow> 'a list" where
  "sort_slice_acc lt acc [] = acc"
| "sort_slice_acc lt acc (x # xs) = sort_slice_acc lt (insert_slice lt x acc) xs"

definition sort_slice :: "('a \<Rightarrow> 'a \<Rightarrow> bool) \<Rightarrow> 'a list \<Rightarrow> 'a list" where
  "sort_slice lt xs = sort_slice_acc lt [] xs"

lemma mset_insert_slice [simp]: "mset (insert_slice lt x ys) = add_mset x (mset ys)"
  by (induction ys) auto

lemma set_insert_slice [simp]: "set (insert_slice lt x ys) = insert x (set ys)"
  by (induction ys) auto

lemma mset_sort_slice_acc: "mset (sort_slice_acc lt acc xs) = mset acc + mset xs"
  by (induction xs arbitrary: acc) auto

lemma mset_sort_slice [simp]: "mset (sort_slice lt xs) = mset xs"
  by (simp add: sort_slice_def mset_sort_slice_acc)

lemma set_sort_slice [simp]: "set (sort_slice lt xs) = set xs"
  by (rule mset_eq_setD) simp

lemma length_sort_slice [simp]: "length (sort_slice lt xs) = length xs"
  by (rule mset_eq_length) simp

lemma distinct_sort_slice [simp]: "distinct (sort_slice lt xs) = distinct xs"
  by (rule mset_eq_imp_distinct_iff) simp

lemma sort_slice_eq_Nil [simp]: "sort_slice lt xs = [] \<longleftrightarrow> xs = []"
  by (metis length_0_conv length_sort_slice)

text \<open>
  A comparison function a sort may be called with: a strict weak order. Its sorted lists
  have no later element that is less than an earlier one.
\<close>

locale slice_less =
  fixes lt :: "'a \<Rightarrow> 'a \<Rightarrow> bool"
  assumes asym: "lt x y \<Longrightarrow> \<not> lt y x"
    and cotrans: "lt x z \<Longrightarrow> lt x y \<or> lt y z"
begin

abbreviation in_order :: "'a list \<Rightarrow> bool" where
  "in_order \<equiv> sorted_wrt (\<lambda>x y. \<not> lt y x)"

lemma not_less_trans: "\<not> lt y x \<Longrightarrow> \<not> lt z y \<Longrightarrow> \<not> lt z x"
  using cotrans by blast

lemma in_order_insert: "in_order ys \<Longrightarrow> in_order (insert_slice lt x ys)"
proof (induction ys)
  case (Cons y ys)
  show ?case
  proof (cases "lt x y")
    case True
    have "\<not> lt z x" if "z \<in> set (y # ys)" for z
      using that True Cons.prems by (auto dest: asym cotrans [of z x y])
    with True Cons.prems show ?thesis by auto
  next
    case False
    with Cons show ?thesis by auto
  qed
qed simp

lemma in_order_sort_acc: "in_order acc \<Longrightarrow> in_order (sort_slice_acc lt acc xs)"
  by (induction xs arbitrary: acc) (simp_all add: in_order_insert)

lemma in_order_sort: "in_order (sort_slice lt xs)"
  by (simp add: sort_slice_def in_order_sort_acc)

lemma head_least:
  assumes "sort_slice lt xs = y # ys" and "x \<in> set xs"
  shows "\<not> lt x y"
proof -
  have "x \<in> set (y # ys)" using assms by (metis set_sort_slice)
  moreover have "in_order (y # ys)" using in_order_sort [of xs] assms(1) by simp
  ultimately show ?thesis using asym [of x x] by auto
qed

end

text \<open>Comparison by a linearly ordered key, ascending and descending.\<close>

interpretation asc: slice_less "\<lambda>x y. key x < key y" for key :: "'a \<Rightarrow> 'k :: linorder"
  by unfold_locales auto

interpretation desc: slice_less "\<lambda>x y. key x > key y" for key :: "'a \<Rightarrow> 'k :: linorder"
  by unfold_locales auto

lemma sorted_sort_slice_asc: "sorted (map key (sort_slice (\<lambda>x y. key x < key y) xs))"
  using asc.in_order_sort [of key xs] by (simp add: sorted_wrt_map not_less)

lemma sort_slice_asc_linorder: "sort_slice (\<lambda>x y. x < y) xs = sort xs"
proof (rule sym, rule properties_for_sort)
  show "mset (sort_slice (<) xs) = mset xs" by simp
  show "sorted (sort_slice (<) xs)" using sorted_sort_slice_asc [of "\<lambda>x. x" xs] by simp
qed

lemma sorted_sort_slice_desc: "sorted (rev (map key (sort_slice (\<lambda>x y. key x > key y) xs)))"
  using desc.in_order_sort [of key xs] by (simp add: sorted_wrt_map sorted_wrt_rev not_less)

section \<open>Lists\<close>

lemma take_drop_append_middle:
  "take (length ys) (drop (length xs) (xs @ ys @ zs)) = ys"
  by simp

lemma nth_append_middle: "i < length ys \<Longrightarrow> (xs @ ys @ zs) ! (length xs + i) = ys ! i"
  by (simp add: nth_append)

lemma drop_eq_append_take:
  assumes "n \<le> length (drop k xs)"
  shows "drop k xs = take n (drop k xs) @ drop (k + n) xs"
  by (metis append_take_drop_id add.commute drop_drop)

end
