(* ===== verification/Collections.thy ===== *)
theory Collections
  imports Go_Prelude
begin

text \<open>
  The utility packages \<^verbatim>\<open>pkg/collection\<close>, \<^verbatim>\<open>pkg/collection/bytes\<close>,
  \<^verbatim>\<open>pkg/collection/ints\<close> and \<^verbatim>\<open>pkg/math\<close>: slice operations, binary search, the
  conversions between booleans, fixed-width integers and byte slices, and checked arithmetic.
  Each loop is written as the source's loop, and its lemma gives the library notion it computes.
  An index that the source reads out of range is the outcome \<^term>\<open>Panic\<close>.
\<close>

unbundle bit_operations_syntax

named_theorems collection_simps

section \<open>Package collection\<close>

fun Equal :: "'a list \<Rightarrow> 'a list \<Rightarrow> bool" where
  "Equal [] [] = True"
| "Equal (x # xs) (y # ys) = (x = y \<and> Equal xs ys)"
| "Equal _ _ = False"

lemma Equal_iff [simp]: "Equal a b \<longleftrightarrow> a = b"
  by (induction a b rule: Equal.induct) auto

fun FindIndex_from :: "int \<Rightarrow> 'a list \<Rightarrow> ('a \<Rightarrow> bool) \<Rightarrow> int" where
  "FindIndex_from i [] predicate = -1"
| "FindIndex_from i (val # list) predicate =
     (if predicate val then i else FindIndex_from (i + 1) list predicate)"

definition FindIndex :: "'a list \<Rightarrow> ('a \<Rightarrow> bool) \<Rightarrow> int" where
  "FindIndex list predicate = FindIndex_from 0 list predicate"

lemma FindIndex_from_neg: "0 \<le> i \<Longrightarrow> FindIndex_from i list P = -1 \<longleftrightarrow> (\<forall>x \<in> set list. \<not> P x)"
  by (induction list arbitrary: i) auto

lemma FindIndex_neg [collection_simps]: "FindIndex list P = -1 \<longleftrightarrow> (\<forall>x \<in> set list. \<not> P x)"
  by (simp add: FindIndex_def FindIndex_from_neg)

definition Insert :: "'a list \<Rightarrow> nat \<Rightarrow> 'a \<Rightarrow> ('e, 'a list) outcome" where
  "Insert list index val =
     (if index \<le> length list then
        Return (map (\<lambda>i. if i < index then list ! i else if i = index then val else list ! (i - 1))
                  [0 ..< length list + 1])
      else Panic)"

lemma Insert_eq [collection_simps]:
  "index \<le> length list \<Longrightarrow> Insert list index val = Return (take index list @ val # drop index list)"
  by (simp add: Insert_def del: upt_Suc, intro nth_equalityI)
     (auto simp: nth_append nth_Cons' min_def simp del: upt_Suc)

fun CommonPrefix_loop :: "'a list \<Rightarrow> 'a list \<Rightarrow> 'a list" where
  "CommonPrefix_loop (x # shorter) (y # longer) =
     (if x \<noteq> y then [] else x # CommonPrefix_loop shorter longer)"
| "CommonPrefix_loop _ _ = []"

definition CommonPrefix :: "'a list \<Rightarrow> 'a list \<Rightarrow> 'a list" where
  "CommonPrefix a b =
     (if length a < length b then CommonPrefix_loop a b else CommonPrefix_loop b a)"

lemma CommonPrefix_loop_take:
  "CommonPrefix_loop a b = take (length (CommonPrefix_loop a b)) a
   \<and> CommonPrefix_loop a b = take (length (CommonPrefix_loop a b)) b"
  by (induction a b rule: CommonPrefix_loop.induct) auto

lemma CommonPrefix_loop_maximal:
  "n \<le> length a \<Longrightarrow> n \<le> length b \<Longrightarrow> take n a = take n b \<Longrightarrow> n \<le> length (CommonPrefix_loop a b)"
proof (induction a b arbitrary: n rule: CommonPrefix_loop.induct)
  case (1 x shorter y longer)
  then show ?case by (cases n) auto
qed auto

fun Reverse_loop :: "nat \<Rightarrow> 'a list \<Rightarrow> 'a list" where
  "Reverse_loop 0 copied = copied"
| "Reverse_loop (Suc i) copied =
     (let opp = length copied - 1 - i in
      Reverse_loop i (copied[i := copied ! opp, opp := copied ! i]))"

definition Reverse :: "'a list \<Rightarrow> 'a list" where
  "Reverse value = Reverse_loop (length value div 2) value"

lemma length_Reverse_loop [simp]: "length (Reverse_loop n xs) = length xs"
  by (induction n arbitrary: xs) (simp_all add: Let_def)

lemma nth_Reverse_loop:
  assumes "2 * n \<le> length xs" and "k < length xs"
  shows "Reverse_loop n xs ! k =
           (if k < n \<or> length xs - n \<le> k then xs ! (length xs - 1 - k) else xs ! k)"
  using assms
proof (induction n arbitrary: xs)
  case (Suc n)
  let ?opp = "length xs - 1 - n"
  let ?ys = "xs[n := xs ! ?opp, ?opp := xs ! n]"
  have "Reverse_loop n ?ys ! k =
          (if k < n \<or> length xs - n \<le> k then ?ys ! (length xs - 1 - k) else ?ys ! k)"
    using Suc by simp
  moreover have "?ys ! (length xs - 1 - k) = xs ! (length xs - 1 - k)"
    if "k < n \<or> length xs - n \<le> k" using that Suc.prems by auto
  moreover have "?ys ! k = (if k = n \<or> k = ?opp then xs ! (length xs - 1 - k) else xs ! k)"
    using Suc.prems by auto
  ultimately show ?case using Suc.prems by (auto simp: Let_def)
qed auto

lemma Reverse_eq_rev [collection_simps]: "Reverse xs = rev xs"
  unfolding Reverse_def
proof (rule nth_equalityI)
  fix i assume "i < length (Reverse_loop (length xs div 2) xs)"
  then have i: "i < length xs" by simp
  have "xs ! i = xs ! (length xs - Suc i)"
    if "\<not> i < length xs div 2" "\<not> length xs - length xs div 2 \<le> i"
  proof -
    have "length xs - Suc i = i" using that i by arith
    then show ?thesis by simp
  qed
  then show "Reverse_loop (length xs div 2) xs ! i = rev xs ! i"
    using i by (auto simp: nth_Reverse_loop rev_nth)
qed simp

text \<open>
  The indices of the search are \<^verbatim>\<open>int\<close> and start at \<open>-1\<close>; every read is in range, since
  \<open>low < mid < high\<close>.
\<close>

function BinarySearch_loop :: "'a list \<Rightarrow> ('a \<Rightarrow> bool) \<Rightarrow> int \<Rightarrow> int \<Rightarrow> int" where
  "BinarySearch_loop list lt low high =
     (if 1 + low < high then
        let mid = low + (high - low) div 2 in
        if lt (list ! nat mid) then BinarySearch_loop list lt low mid
        else BinarySearch_loop list lt mid high
      else high)"
  by pat_completeness auto
termination
  by (relation "measure (\<lambda>(list, lt, low, high). nat (high - low))") auto

declare BinarySearch_loop.simps [simp del]

definition BinarySearch :: "'a list \<Rightarrow> ('a \<Rightarrow> bool) \<Rightarrow> int" where
  "BinarySearch list lt = BinarySearch_loop list lt (-1) (int (length list))"

lemma BinarySearch_loop_spec:
  assumes "-1 \<le> low" "low < high" "high \<le> int (length list)"
    and "\<And>i j. i \<le> j \<Longrightarrow> j < length list \<Longrightarrow> lt (list ! i) \<Longrightarrow> lt (list ! j)"
    and "0 \<le> low \<Longrightarrow> \<not> lt (list ! nat low)"
    and "high < int (length list) \<Longrightarrow> lt (list ! nat high)"
  defines "k \<equiv> BinarySearch_loop list lt low high"
  shows "low < k \<and> k \<le> high \<and> (\<forall>i < length list. lt (list ! i) \<longleftrightarrow> k \<le> int i)"
  using assms(1-6) unfolding k_def
proof (induction list lt low high rule: BinarySearch_loop.induct)
  case (1 list lt low high)
  let ?mid = "low + (high - low) div 2"
  note unfold = BinarySearch_loop.simps [of list lt low high]
  show ?case
  proof (cases "1 + low < high")
    case True
    then have mid: "low < ?mid" "?mid < high" by auto
    show ?thesis
    proof (cases "lt (list ! nat ?mid)")
      case lt: True
      show ?thesis
        using "1.IH"(1) [OF True refl lt "1.prems"(1) mid(1) _ "1.prems"(4,5)] mid True lt "1.prems"(3)
        by (force simp: unfold Let_def)
    next
      case ge: False
      show ?thesis
        using "1.IH"(2) [OF True refl ge] "1.prems" mid True ge by (auto simp: unfold Let_def)
    qed
  next
    case False
    then have hl: "high = low + 1" using "1.prems"(2) by simp
    have "lt (list ! i) \<longleftrightarrow> high \<le> int i" if i: "i < length list" for i
    proof
      assume lt: "lt (list ! i)"
      show "high \<le> int i"
      proof (rule ccontr)
        assume "\<not> high \<le> int i"
        then have "i \<le> nat low" "0 \<le> low" "nat low < length list"
          using hl "1.prems"(3) by auto
        then show False using "1.prems"(4) [OF _ _ lt] "1.prems"(5) by blast
      qed
    next
      assume "high \<le> int i"
      then show "lt (list ! i)" using i "1.prems"(1,4,6) hl
        by (metis le_nat_iff nat_le_iff of_nat_less_iff order_le_less_trans nat_int nat_mono)
    qed
    with False "1.prems"(2) show ?thesis by (simp add: unfold)
  qed
qed

section \<open>Package collection/ints\<close>

fun Include :: "'a list \<Rightarrow> 'a \<Rightarrow> bool" where
  "Include [] target = False"
| "Include (val # list) target = (val = target \<or> Include list target)"

lemma Include_iff [simp]: "Include list x \<longleftrightarrow> x \<in> set list"
  by (induction list) auto

definition ints_Max :: "'a :: linorder list \<Rightarrow> ('e, 'a) outcome" where
  "ints_Max nums = (case sort_slice (\<lambda>x y. x > y) nums of [] \<Rightarrow> Panic | m # _ \<Rightarrow> Return m)"

definition ints_Min :: "'a :: linorder list \<Rightarrow> ('e, 'a) outcome" where
  "ints_Min nums = (case sort_slice (\<lambda>x y. x < y) nums of [] \<Rightarrow> Panic | m # _ \<Rightarrow> Return m)"

lemma ints_Max_eq [collection_simps]:
  assumes "nums \<noteq> []"
  shows "ints_Max nums = Return (Max (set nums))"
proof -
  obtain m ms where s: "sort_slice (\<lambda>x y. x > y) nums = m # ms"
    using assms by (metis list.exhaust sort_slice_eq_Nil)
  then have "m \<in> set nums" by (metis list.set_intros(1) set_sort_slice)
  moreover have "\<forall>x \<in> set nums. x \<le> m"
    using desc.head_least [of "\<lambda>x. x" nums m ms] s by (auto simp: not_less)
  ultimately show ?thesis by (simp add: ints_Max_def s Max_eqI [symmetric])
qed

lemma ints_Min_eq [collection_simps]:
  assumes "nums \<noteq> []"
  shows "ints_Min nums = Return (Min (set nums))"
proof -
  obtain m ms where s: "sort_slice (\<lambda>x y. x < y) nums = m # ms"
    using assms by (metis list.exhaust sort_slice_eq_Nil)
  then have "m \<in> set nums" by (metis list.set_intros(1) set_sort_slice)
  moreover have "\<forall>x \<in> set nums. m \<le> x"
    using asc.head_least [of "\<lambda>x. x" nums m ms] s by (auto simp: not_less)
  ultimately show ?thesis by (simp add: ints_Min_def s Min_eqI [symmetric])
qed

text \<open>The keys of a map in the order it is ranged over: the order of \<open>remdups\<close> stands for any.\<close>

definition Unique :: "'a list \<Rightarrow> 'a list" where
  "Unique values = remdups values"

definition IsUnique :: "'a list \<Rightarrow> bool" where
  "IsUnique values \<longleftrightarrow> length (Unique values) = length values"

lemma IsUnique_iff [simp]: "IsUnique xs \<longleftrightarrow> distinct xs"
  by (simp add: IsUnique_def Unique_def distinct_card card_distinct length_remdups_card_conv)
     (metis card_distinct distinct_card)

section \<open>Package collection/bytes\<close>

text \<open>
  \<^verbatim>\<open>FromBools\<close> pads the booleans in front to a multiple of eight and sets one bit per element,
  most significant first; \<^verbatim>\<open>ToBools\<close> reads them back.
\<close>

definition IsBitSet :: "bytes \<Rightarrow> nat \<Rightarrow> ('e, bool) outcome" where
  "IsBitSet bits index =
     (if index div 8 < length bits
      then Return (push_bit (index mod 8) (bits ! (index div 8)) AND 0x80 = 0x80)
      else Panic)"

definition FromBools_step :: "bool list \<Rightarrow> nat \<Rightarrow> bytes \<Rightarrow> bytes" where
  "FromBools_step target i res =
     (if target ! i then res[i div 8 := res ! (i div 8) OR drop_bit (i mod 8) 0x80] else res)"

definition FromBools :: "bool list \<Rightarrow> bytes" where
  "FromBools input =
     (let res = replicate ((length input + 7) div 8) 0;
          targetSize = (if length input mod 8 \<noteq> 0 then length input + (8 - length input mod 8)
                        else length input);
          diff = targetSize - length input;
          target = replicate diff False @ input
      in fold (FromBools_step target) [0 ..< length target] res)"

definition ToBools :: "bytes \<Rightarrow> bool list" where
  "ToBools val = concat (map (\<lambda>x. map (\<lambda>j. push_bit j x AND 0x80 = 0x80) [0 ..< 8]) val)"

lemma bit_128_int [simp]: "bit (128 :: int) n \<longleftrightarrow> n = 7"
  using bit_exp_iff [where 'a = int, of 7 n] by simp

lemma and_0x80: "j < 8 \<Longrightarrow> push_bit j x AND 0x80 = 0x80 \<longleftrightarrow> bit x (7 - j)" for x :: byte
  by (auto simp: bit_eq_iff [where 'a = "8 word"] bit_and_iff bit_push_bit_iff dest: spec [of _ 7])

lemma length_concat_8: "length (concat (map (\<lambda>x. map (f x) [0 ..< 8]) xs)) = 8 * length xs"
  by (induction xs) auto

lemma nth_concat_8:
  "k < length xs \<Longrightarrow> j < 8 \<Longrightarrow> concat (map (\<lambda>x. map (f x) [0 ..< 8]) xs) ! (8 * k + j) = f (xs ! k) j"
proof (induction xs arbitrary: k)
  case (Cons x xs)
  then show ?case
    by (cases k) (auto simp: nth_append simp del: upt_rec_numeral)
qed simp

lemma length_ToBools [simp]: "length (ToBools val) = 8 * length val"
  by (simp only: ToBools_def length_concat_8)

lemma nth_ToBools: "k < length val \<Longrightarrow> j < 8 \<Longrightarrow> ToBools val ! (8 * k + j) \<longleftrightarrow> bit (val ! k) (7 - j)"
  by (simp add: ToBools_def nth_concat_8 and_0x80 del: upt_rec_numeral)

lemma length_FromBools_step [simp]: "length (FromBools_step t i res) = length res"
  by (simp add: FromBools_step_def)

lemma length_FromBools_fold [simp]: "length (fold (FromBools_step t) is res) = length res"
  by (induction "is" arbitrary: res) auto

lemma bit_FromBools_step:
  assumes "k < length res" "j < 8"
  shows "bit (FromBools_step t n res ! k) (7 - j) \<longleftrightarrow> bit (res ! k) (7 - j) \<or> t ! n \<and> 8 * k + j = n"
proof -
  have eq: "8 * k + j = n \<longleftrightarrow> k = n div 8 \<and> j = n mod 8" using \<open>j < 8\<close> by auto
  have d: "bit (drop_bit (n mod 8) 0x80 :: byte) (7 - j) \<longleftrightarrow> n mod 8 = j"
    using \<open>j < 8\<close> mod_less_divisor [of 8 n] by (auto simp: bit_drop_bit_eq simp del: mod_less_divisor)
  show ?thesis
  proof (cases "k = n div 8")
    case True
    then have "8 * k + j = n \<longleftrightarrow> n mod 8 = j" using eq by auto
    then show ?thesis using assms(1) d True by (simp add: FromBools_step_def bit_or_iff)
  qed (simp add: FromBools_step_def eq)
qed

lemma bit_FromBools_fold:
  assumes "n \<le> length t" "k < m" "j < 8"
  shows "bit (fold (FromBools_step t) [0 ..< n] (replicate m 0) ! k) (7 - j) \<longleftrightarrow> 8 * k + j < n \<and> t ! (8 * k + j)"
  using assms by (induction n) (auto simp: bit_FromBools_step less_Suc_eq)

lemma padded_length: "(8 - l mod 8) mod 8 + l = 8 * ((l + 7) div 8)" for l :: nat
proof -
  obtain q r where r: "l = 8 * q + r" "r < 8"
    by (metis div_mod_decomp mod_less_divisor mult.commute zero_less_numeral)
  have "(8 * q + r + 7) div 8 = q + (r + 7) div 8" by simp
  moreover have "(r + 7) div 8 = (if r = 0 then 0 else 1)" using r(2) by (auto intro: div_nat_eqI)
  ultimately show ?thesis using r by (cases "r = 0") auto
qed

lemma ToBools_FromBools:
  "ToBools (FromBools xs) = replicate ((8 - length xs mod 8) mod 8) False @ xs"
proof -
  let ?t = "replicate ((8 - length xs mod 8) mod 8) False @ xs"
  let ?m = "(length xs + 7) div 8"
  have t: "length ?t = 8 * ?m" by (simp add: padded_length)
  have F: "FromBools xs = fold (FromBools_step ?t) [0 ..< length ?t] (replicate ?m 0)"
    by (simp add: FromBools_def Let_def)
  show ?thesis
  proof (rule nth_equalityI)
    show "length (ToBools (FromBools xs)) = length ?t" using t by (simp add: F)
    fix i assume "i < length (ToBools (FromBools xs))"
    then have i: "i < 8 * ?m" by (simp add: F)
    have "ToBools (FromBools xs) ! (8 * (i div 8) + i mod 8) \<longleftrightarrow> ?t ! (8 * (i div 8) + i mod 8)"
      using i t by (subst nth_ToBools) (simp_all add: F bit_FromBools_fold less_mult_imp_div_less mult.commute)
    then show "ToBools (FromBools xs) ! i \<longleftrightarrow> ?t ! i" by simp
  qed
qed

lemma ToBools_inject: "ToBools a = ToBools b \<longleftrightarrow> a = b"
proof
  assume eq: "ToBools a = ToBools b"
  then have l: "length a = length b" by (metis length_ToBools mult_cancel1 zero_neq_numeral)
  show "a = b"
  proof (rule nth_equalityI [OF l], rule bit_eqI)
    fix k n assume "k < length a" and "possible_bit TYPE(byte) n"
    then show "bit (a ! k) n \<longleftrightarrow> bit (b ! k) n"
      using nth_ToBools [of k a "7 - n"] nth_ToBools [of k b "7 - n"] eq l by simp
  qed
qed simp

lemma FromBools_ToBools [simp]: "FromBools (ToBools b) = b"
  by (simp add: ToBools_inject [symmetric] ToBools_FromBools)

lemma IsBitSet_eq_ToBools: "i < 8 * length b \<Longrightarrow> IsBitSet b i = Return (ToBools b ! i)"
  using nth_ToBools [of "i div 8" b "i mod 8"]
  by (simp add: IsBitSet_def and_0x80 less_mult_imp_div_less mult.commute)

definition go_copy :: "'a list \<Rightarrow> 'a list \<Rightarrow> 'a list" where
  "go_copy dst src = take (length dst) src @ drop (length src) dst"

fun Join_loop :: "bytes \<Rightarrow> nat \<Rightarrow> bytes list \<Rightarrow> bytes" where
  "Join_loop b i [] = b"
| "Join_loop b i (v # s) =
     Join_loop (take i b @ go_copy (drop i b) v) (i + min (length b - i) (length v)) s"

definition Join :: "bytes list \<Rightarrow> bytes" where
  "Join s = Join_loop (replicate (sum_list (map length s)) 0) 0 s"

definition JoinSize :: "nat \<Rightarrow> bytes list \<Rightarrow> bytes" where
  "JoinSize n s = Join_loop (replicate n 0) 0 s"

definition JoinSlice :: "'a list \<Rightarrow> 'a list \<Rightarrow> 'a list" where
  "JoinSlice a b = a @ b"

lemma Join_loop_eq:
  "i \<le> length b \<Longrightarrow> Join_loop b i s = take i b @ go_copy (drop i b) (concat s)"
proof (induction s arbitrary: b i)
  case Nil
  then show ?case by (simp add: go_copy_def)
next
  case (Cons v s)
  then show ?case by (auto simp: go_copy_def min_def algebra_simps)
qed

lemma JoinSize_eq: "JoinSize n s = take n (concat s) @ replicate (n - length (concat s)) 0"
  by (simp add: JoinSize_def Join_loop_eq go_copy_def)

lemma Join_eq_concat [simp]: "Join s = concat s"
  by (simp add: Join_def Join_loop_eq go_copy_def length_concat)


text \<open>\<^verbatim>\<open>encoding/binary.BigEndian\<close>; reading from a slice that is too short panics.\<close>

lemma unat_bound: "unat (w :: 'a :: len word) < 2 ^ LENGTH('a)"
  by (rule unsigned_less)

lemma unat_drop_bit_div: "unat (drop_bit n w) = unat w div 2 ^ n"
  by (metis drop_bit_eq_div unat_drop_bit_eq)

lemma unat_ucast_u32_u64 [simp]: "unat (ucast w :: u64) = unat (w :: u32)"
  using unat_bound [of w] by (simp add: unsigned_ucast_eq take_bit_nat_eq_self)

definition FromUint16 :: "u16 \<Rightarrow> bytes" where
  "FromUint16 val = [ucast (drop_bit 8 val), ucast val]"

definition FromUint32 :: "u32 \<Rightarrow> bytes" where
  "FromUint32 val = [ucast (drop_bit 24 val), ucast (drop_bit 16 val), ucast (drop_bit 8 val), ucast val]"

definition FromUint64 :: "u64 \<Rightarrow> bytes" where
  "FromUint64 val =
     [ucast (drop_bit 56 val), ucast (drop_bit 48 val), ucast (drop_bit 40 val), ucast (drop_bit 32 val),
      ucast (drop_bit 24 val), ucast (drop_bit 16 val), ucast (drop_bit 8 val), ucast val]"

fun ToUint32 :: "bytes \<Rightarrow> ('e, u32) outcome" where
  "ToUint32 (b0 # b1 # b2 # b3 # _) =
     Return (ucast b3 OR push_bit 8 (ucast b2) OR push_bit 16 (ucast b1) OR push_bit 24 (ucast b0))"
| "ToUint32 _ = Panic"

fun ToUint64 :: "bytes \<Rightarrow> ('e, u64) outcome" where
  "ToUint64 (b0 # b1 # b2 # b3 # b4 # b5 # b6 # b7 # _) =
     Return (ucast b7 OR push_bit 8 (ucast b6) OR push_bit 16 (ucast b5) OR push_bit 24 (ucast b4)
             OR push_bit 32 (ucast b3) OR push_bit 40 (ucast b2) OR push_bit 48 (ucast b1)
             OR push_bit 56 (ucast b0))"
| "ToUint64 _ = Panic"

lemma ToUint32_FromUint32 [simp]: "ToUint32 (FromUint32 v @ rest) = Return v"
proof -
  have "bit (ucast (ucast v :: byte) OR push_bit 8 (ucast (ucast (drop_bit 8 v) :: byte))
             OR push_bit 16 (ucast (ucast (drop_bit 16 v) :: byte))
             OR push_bit 24 (ucast (ucast (drop_bit 24 v) :: byte)) :: u32) n \<longleftrightarrow> bit v n"
    if "n < 32" for n
  proof -
    consider "n < 8" | "8 \<le> n" "n < 16" | "16 \<le> n" "n < 24" | "24 \<le> n" by linarith
    then show ?thesis using that by cases (simp_all add: bit_simps less_diff_conv2)
  qed
  then show ?thesis by (simp add: FromUint32_def bit_eq_iff [where 'a = "32 word"])
qed

lemma ToUint64_FromUint64 [simp]: "ToUint64 (FromUint64 v @ rest) = Return v"
proof -
  have "bit (ucast (ucast v :: byte) OR push_bit 8 (ucast (ucast (drop_bit 8 v) :: byte))
             OR push_bit 16 (ucast (ucast (drop_bit 16 v) :: byte))
             OR push_bit 24 (ucast (ucast (drop_bit 24 v) :: byte))
             OR push_bit 32 (ucast (ucast (drop_bit 32 v) :: byte))
             OR push_bit 40 (ucast (ucast (drop_bit 40 v) :: byte))
             OR push_bit 48 (ucast (ucast (drop_bit 48 v) :: byte))
             OR push_bit 56 (ucast (ucast (drop_bit 56 v) :: byte)) :: u64) n \<longleftrightarrow> bit v n"
    if "n < 64" for n
  proof -
    consider "n < 8" | "8 \<le> n" "n < 16" | "16 \<le> n" "n < 24" | "24 \<le> n" "n < 32"
      | "32 \<le> n" "n < 40" | "40 \<le> n" "n < 48" | "48 \<le> n" "n < 56" | "56 \<le> n" by linarith
    then show ?thesis using that by cases (simp_all add: bit_simps less_diff_conv2)
  qed
  then show ?thesis by (simp add: FromUint64_def bit_eq_iff [where 'a = "64 word"])
qed

lemma length_FromUint [simp]:
  "length (FromUint16 a) = 2" "length (FromUint32 b) = 4" "length (FromUint64 c) = 8"
  by (simp_all add: FromUint16_def FromUint32_def FromUint64_def)

text \<open>The big-endian digits of a number to base 256.\<close>

fun be_bytes :: "nat \<Rightarrow> nat \<Rightarrow> bytes" where
  "be_bytes 0 v = []"
| "be_bytes (Suc n) v = of_nat (v div 256 ^ n) # be_bytes n v"

lemma of_nat_byte_eq: "(of_nat a :: byte) = of_nat b \<longleftrightarrow> a mod 256 = b mod 256"
  by (simp add: word_unat_eq_iff unat_of_nat take_bit_eq_mod)

lemma be_bytes_mod: "n \<le> m \<Longrightarrow> be_bytes n (v mod 256 ^ m) = be_bytes n v"
proof (induction n)
  case (Suc n)
  then obtain k where m: "m = n + 1 + k" by (metis Suc_eq_plus1 le_Suc_ex)
  have "v mod 256 ^ m div 256 ^ n mod 256 = v div 256 ^ n mod 256"
    using mod_mult2_eq [of v "256 ^ n" "256 * 256 ^ k"] mod_mult2_eq [of "v div 256 ^ n" 256 "256 ^ k"]
    by (simp add: m power_add ac_simps)
  then have "(of_nat (v mod 256 ^ m div 256 ^ n) :: byte) = of_nat (v div 256 ^ n)"
    by (simp only: of_nat_byte_eq)
  then show ?case using Suc by simp
qed simp

lemma be_bytes_less:
  "v < 256 ^ n \<Longrightarrow> w < 256 ^ n \<Longrightarrow> be_bytes n v < be_bytes n w \<longleftrightarrow> v < w"
proof (induction n arbitrary: v w)
  case (Suc n)
  let ?B = "256 ^ n :: nat"
  have hi: "unat (of_nat (v div ?B) :: byte) = v div ?B" "unat (of_nat (w div ?B) :: byte) = w div ?B"
    using Suc.prems by (simp_all add: unat_of_nat take_bit_nat_eq_self less_mult_imp_div_less)
  have "v < w \<longleftrightarrow> v div ?B < w div ?B \<or> v div ?B = w div ?B \<and> v mod ?B < w mod ?B"
  proof (cases "v div ?B" "w div ?B" rule: linorder_cases)
    case equal
    then show ?thesis by (metis div_mult_mod_eq nat_add_left_cancel_less less_irrefl)
  qed (use div_le_mono [of v w ?B] div_le_mono [of w v ?B] in force)+
  moreover have "be_bytes n v < be_bytes n w \<longleftrightarrow> v mod ?B < w mod ?B"
    using Suc.IH [of "v mod ?B" "w mod ?B"] by (simp add: be_bytes_mod)
  ultimately show ?case using hi by (auto simp: word_less_nat_alt word_unat_eq_iff)
qed simp

lemma byte_digit: "(of_nat (unat v div 2 ^ k) :: byte) = ucast (drop_bit k v)"
  by (metis drop_bit_eq_div of_nat_unat unat_drop_bit_eq)

lemmas byte_digits =
  byte_digit [of _ 8, simplified] byte_digit [of _ 16, simplified] byte_digit [of _ 24, simplified]
  byte_digit [of _ 32, simplified] byte_digit [of _ 40, simplified] byte_digit [of _ 48, simplified]
  byte_digit [of _ 56, simplified]

lemma be_bytes_numeral:
  "be_bytes 4 v = be_bytes (Suc (Suc (Suc (Suc 0)))) v"
  "be_bytes 8 v = be_bytes (Suc (Suc (Suc (Suc (Suc (Suc (Suc (Suc 0)))))))) v"
  by (rule arg_cong2 [where f = be_bytes]; simp)+

lemma FromUint32_be: "FromUint32 v = be_bytes 4 (unat v)"
  by (simp add: FromUint32_def be_bytes_numeral byte_digits)

lemma FromUint64_be: "FromUint64 v = be_bytes 8 (unat v)"
  by (simp add: FromUint64_def be_bytes_numeral byte_digits)

lemma FromUint32_less [simp]: "FromUint32 v < FromUint32 w \<longleftrightarrow> v < w"
  using unat_bound [of v] unat_bound [of w]
  by (simp add: FromUint32_be be_bytes_less word_less_nat_alt)

lemma FromUint64_less [simp]: "FromUint64 v < FromUint64 w \<longleftrightarrow> v < w"
  using unat_bound [of v] unat_bound [of w]
  by (simp add: FromUint64_be be_bytes_less word_less_nat_alt)

lemma FromUint32_eq [simp]: "FromUint32 v = FromUint32 w \<longleftrightarrow> v = w"
  by (metis FromUint32_less neq_iff)

lemma FromUint64_eq [simp]: "FromUint64 v = FromUint64 w \<longleftrightarrow> v = w"
  by (metis FromUint64_less neq_iff)

section \<open>Package math\<close>

text \<open>The carry and borrow words are those of \<^verbatim>\<open>math/bits\<close>.\<close>

definition SafeSub :: "u64 \<Rightarrow> u64 \<Rightarrow> u64 \<times> bool" where
  "SafeSub x y = (let diff = x - y; borrowOut = drop_bit 63 ((NOT x AND y) OR (NOT (x XOR y) AND diff))
                  in (diff, borrowOut = 0))"

definition SafeAdd :: "u64 \<Rightarrow> u64 \<Rightarrow> u64 \<times> bool" where
  "SafeAdd x y = (let sum = x + y; carryOut = drop_bit 63 ((x AND y) OR ((x OR y) AND NOT sum))
                  in (sum, carryOut = 0))"

definition SafeSubWithMin :: "'a :: len word \<Rightarrow> 'a word \<Rightarrow> 'a word \<Rightarrow> 'a word" where
  "SafeSubWithMin x y minimum = (if x < y then minimum else x - y)"

lemma drop_bit_63: "drop_bit 63 w = 0 \<longleftrightarrow> \<not> bit w 63" for w :: u64
proof -
  have "bit (drop_bit 63 w) n \<longleftrightarrow> n = 0 \<and> bit w 63" for n
    using bit_imp_le_length [of w "63 + n"] by (cases n) (auto simp: bit_drop_bit_eq)
  then show ?thesis by (auto simp: bit_eq_iff [where 'a = "64 word"] dest: spec [of _ 0])
qed

lemma bit_63: "bit w 63 \<longleftrightarrow> 2 ^ 63 \<le> unat w" for w :: u64
proof -
  have "unat w < 2 ^ 63 * 2" using unat_bound [of w] by simp
  then have "unat w div 2 ^ 63 < 2" using less_mult_imp_div_less [of "unat w" 2 "2 ^ 63"] by simp
  then have "odd (unat w div 2 ^ 63) \<longleftrightarrow> unat w div 2 ^ 63 \<noteq> 0" by (auto simp: less_2_cases_iff)
  moreover have "bit w 63 \<longleftrightarrow> odd (unat w div 2 ^ 63)"
    using bit_iff_odd [of "unat w" 63] by (simp add: bit_unsigned_iff)
  ultimately show ?thesis by (simp add: div_eq_0_iff not_less)
qed

lemma SafeAdd_eq: "SafeAdd x y = (x + y, unat x + unat y < 2 ^ 64)"
  using unat_bound [of x] unat_bound [of y]
  unfolding SafeAdd_def Let_def drop_bit_63 bit_or_iff bit_and_iff bit_not_iff
  unfolding bit_63 by (auto simp: unat_plus_if')

lemma SafeSub_eq: "SafeSub x y = (x - y, y \<le> x)"
  using unat_bound [of x] unat_bound [of y]
  unfolding SafeSub_def Let_def drop_bit_63 bit_or_iff bit_and_iff bit_not_iff bit_xor_iff
  unfolding bit_63 by (auto simp: unat_sub_if' word_le_nat_alt)

end
