(* ===== verification/Codec_Varint.thy ===== *)
theory Codec_Varint
  imports Collections
begin

text \<open>
  The variable-length integers of the codec: the encoders of \<^verbatim>\<open>encoding/binary\<close> that
  \<^verbatim>\<open>pkg/codec/writer.go\<close> calls, and \<^verbatim>\<open>readUint\<close> and \<^verbatim>\<open>varintShortestSize\<close> of
  \<^verbatim>\<open>pkg/codec/reader.go\<close>.  \<open>readUint_PutUvarint\<close> and \<open>readUint_sound\<close> say that the
  reader accepts exactly the encodings the writer produces.
\<close>

section \<open>Variable-length integers (encoding/binary)\<close>

function PutUvarint :: "u64 \<Rightarrow> bytes" where
  "PutUvarint x = (if 0x80 \<le> x then (ucast x OR 0x80) # PutUvarint (drop_bit 7 x) else [ucast x])"
  by pat_completeness auto
termination
proof (relation "measure unat")
  fix x :: u64
  assume "0x80 \<le> x"
  then show "(drop_bit 7 x, x) \<in> measure unat"
    by (auto simp: unat_drop_bit_div word_le_nat_alt)
qed simp

declare PutUvarint.simps [simp del]

definition PutVarint :: "u64 \<Rightarrow> bytes" where
  "PutVarint x = (let ux = push_bit 1 x in PutUvarint (if sint x < 0 then NOT ux else ux))"

lemma PutUvarint_not_Nil [simp]: "PutUvarint x \<noteq> []"
  by (subst PutUvarint.simps) simp

lemma PutUvarint_length_le:
  "unat x < 2 ^ (7 * Suc n) \<Longrightarrow> length (PutUvarint x) \<le> Suc n"
proof (induction n arbitrary: x)
  case 0
  then show ?case by (subst PutUvarint.simps) (auto simp: word_le_nat_alt)
next
  case (Suc n)
  have "unat (drop_bit 7 x) < 2 ^ (7 * Suc n)"
    using Suc.prems by (simp add: unat_drop_bit_div less_mult_imp_div_less power_add)
  from Suc.IH [OF this] show ?case by (subst PutUvarint.simps) simp
qed

lemma PutUvarint_max: "length (PutUvarint x) \<le> 10"
  using PutUvarint_length_le [of x 9] unat_bound [of x] by simp

section \<open>Words, digit by digit\<close>

lemma unat_or_push:
  fixes x y :: "'a :: len word"
  assumes "unat x < 2 ^ s" and "2 ^ s * unat y < 2 ^ LENGTH('a)"
  shows "unat (x OR push_bit s y) = unat x + 2 ^ s * unat y"
proof -
  have p: "unat (push_bit s y) = 2 ^ s * unat y"
    by (metis assms(2) mult.commute push_bit_eq_mult take_bit_nat_eq_self unsigned_push_bit_eq)
  have "take_bit s (unat x) = unat x" using assms(1) by (rule take_bit_nat_eq_self)
  then have "\<not> bit x k" if "s \<le> k" for k
    using that bit_take_bit_iff [of s "unat x" k] by (simp add: bit_unsigned_iff)
  then have "x AND push_bit s y = 0" by (intro bit_word_eqI) (auto simp: bit_simps)
  then have "x OR push_bit s y = x + push_bit s y"
    using word_plus_and_or [of x "push_bit s y"] by simp
  moreover have "unat x + 2 ^ s * unat y < 2 ^ LENGTH('a)"
  proof (cases "y = 0")
    case False
    then have s: "2 ^ s * 1 < (2 ^ LENGTH('a) :: nat)"
      using assms(2) by (metis Suc_leI le_less_trans mult_le_mono2 unat_gt_0 One_nat_def)
    then have "s < LENGTH('a)" by simp
    then obtain m where m: "2 ^ LENGTH('a) = 2 ^ s * (m :: nat)" by (metis less_imp_le le_Suc_ex power_add)
    then have "unat y + 1 \<le> m" using assms(2) by simp
    then have "2 ^ s * (unat y + 1) \<le> 2 ^ LENGTH('a)" using m by (metis mult_le_mono2)
    then show ?thesis using assms(1) by simp
  qed (use unat_bound [of x] in simp)
  ultimately show ?thesis using p by (simp add: unat_plus_if')
qed

lemma unat_and_7f: "unat (ucast b AND 0x7f :: u64) = unat b mod 128" for b :: byte
proof -
  have "ucast b AND 0x7f = (take_bit 7 (ucast b) :: u64)"
    by (simp add: take_bit_eq_mask mask_eq_exp_minus_1)
  then show ?thesis
    using unat_bound [of b]
    by (simp add: take_bit_eq_mod unat_mod_distrib unsigned_ucast_eq)
qed

lemma and_80: "ucast b AND 0x80 = (0 :: u64) \<longleftrightarrow> unat b < 128" for b :: byte
proof -
  have "(0x80 :: u64) = push_bit 7 1" by (simp add: push_bit_eq_mult)
  then have "ucast b AND 0x80 = (0 :: u64) \<longleftrightarrow> \<not> bit b 7"
    by (auto simp: bit_eq_iff [where 'a = "64 word"] bit_simps dest: spec [of _ 7])
  also have "bit b 7 \<longleftrightarrow> odd (unat b div 2 ^ 7)"
    using bit_iff_odd [of "unat b" 7] by (simp add: bit_unsigned_iff)
  also have "unat b div 2 ^ 7 < 2" using unat_bound [of b] by (simp add: less_mult_imp_div_less)
  then have "odd (unat b div 2 ^ 7) \<longleftrightarrow> \<not> unat b < 128" by (auto simp: less_2_cases_iff)
  finally show ?thesis by simp
qed

text \<open>The varint of a natural number, digit by digit to base 128.\<close>

fun uv :: "nat \<Rightarrow> bytes" where
  "uv n = (if n < 128 then [of_nat n] else of_nat (n mod 128 + 128) # uv (n div 128))"

declare uv.simps [simp del]

lemma uv_lt [simp]: "n < 128 \<Longrightarrow> uv n = [of_nat n]"
  by (simp add: uv.simps)

lemma uv_not_Nil [simp]: "uv n \<noteq> []"
  by (subst uv.simps) simp

lemma unat_byte_of_nat: "n < 256 \<Longrightarrow> unat (of_nat n :: byte) = n"
  by (simp add: unat_of_nat take_bit_nat_eq_self)

lemma length_uv_le: "length (uv n) \<le> Suc k \<longleftrightarrow> n < 128 ^ Suc k"
proof (induction k arbitrary: n)
  case 0
  show ?case by (subst uv.simps) simp
next
  case (Suc k)
  have "n div 128 < 128 ^ Suc k \<longleftrightarrow> n < 128 ^ Suc (Suc k)"
    by (simp add: div_less_iff_less_mult mult.commute)
  moreover have "n < 128 \<Longrightarrow> n < 128 ^ Suc (Suc k)"
    by (rule less_le_trans [of _ "128 ^ 1"]) (simp, rule power_increasing, simp_all)
  ultimately show ?case using Suc [of "n div 128"] by (subst uv.simps) simp
qed

lemma length_uv: "128 ^ k \<le> n \<Longrightarrow> n < 128 ^ Suc k \<Longrightarrow> length (uv n) = Suc k"
  using length_uv_le [of n k] length_uv_le [of n "k - 1"]
  by (cases k) (auto simp: Suc_le_eq not_less [symmetric] simp del: power_Suc)

lemma unat_or_80: "unat (b OR 0x80) = unat b mod 128 + 128" for b :: byte
proof -
  have "(0x80 :: byte) = push_bit 7 1" by (simp add: push_bit_eq_mult)
  moreover have "bit (b OR push_bit 7 1) k \<longleftrightarrow> bit (take_bit 7 b OR push_bit 7 1) k" if "k < 8" for k
    using that by (cases "k = 7") (auto simp: bit_simps)
  then have "b OR push_bit 7 1 = take_bit 7 b OR push_bit 7 1"
    by (intro bit_word_eqI) simp
  ultimately have "b OR 0x80 = take_bit 7 b OR push_bit 7 1" by simp
  moreover have "unat (take_bit 7 b) = unat b mod 128"
    by (simp add: take_bit_eq_mod unat_mod_distrib)
  ultimately show ?thesis using unat_or_push [of "take_bit 7 b" 7 1] by simp
qed

lemma PutUvarint_uv: "PutUvarint x = uv (unat x)"
proof (induction x rule: PutUvarint.induct)
  case (1 x)
  have "unat (ucast x :: byte) = unat x mod 256" by (simp add: unsigned_ucast_eq take_bit_eq_mod)
  then have "unat (ucast x OR 0x80 :: byte) = unat x mod 128 + 128"
    using unat_or_80 [of "ucast x"] mod_mod_cancel [of 128 256 "unat x"] by simp
  then have "(ucast x OR 0x80 :: byte) = of_nat (unat x mod 128 + 128)"
    by (metis of_nat_unat ucast_id)
  with 1 show ?case
    unfolding PutUvarint.simps [of x] uv.simps [of "unat x"] by (simp add: word_le_nat_alt unat_drop_bit_div)
qed

section \<open>Reading\<close>

text \<open>
  The errors of \<^verbatim>\<open>pkg/codec/errors.go\<close>, and the three that \<^verbatim>\<open>readBytes\<close> and
  \<^verbatim>\<open>readString\<close> build in place.
\<close>

datatype codec_error =
    ErrInvalidData | ErrOutOfRange | ErrNoTerminate | ErrUnexpectedFieldNumber
  | ErrFieldNumberNotFound | ErrUnreadBytes | ErrUnnecessaryLeadingBytes
  | ErrInvalidByteSize | ErrInvalidUTF8 | ErrNotNormalized

definition varintShortestSize :: "u64 \<Rightarrow> nat" where
  "varintShortestSize x =
     (if x < 2 ^ 7 then 1 else if x < 2 ^ (7 * 2) then 2 else if x < 2 ^ (7 * 3) then 3
      else if x < 2 ^ (7 * 4) then 4 else if x < 2 ^ (7 * 5) then 5 else if x < 2 ^ (7 * 6) then 6
      else if x < 2 ^ (7 * 7) then 7 else if x < 2 ^ (7 * 8) then 8 else if x < 2 ^ (7 * 9) then 9
      else 10)"

function readUint_loop ::
    "bytes \<Rightarrow> nat \<Rightarrow> nat \<Rightarrow> nat \<Rightarrow> u64 \<Rightarrow> (codec_error, u64 \<times> nat) outcome" where
  "readUint_loop buf offset i shift result =
     (if shift < 64 then
        if length buf \<le> i then Error ErrInvalidData
        else
          let b = ucast (buf ! i) :: u64; i = i + 1 in
          if i = offset + 10 \<and> 0x01 < b then Error ErrOutOfRange
          else
            let result = result OR push_bit shift (b AND 0x7f) in
            if b AND 0x80 = 0 then
              if varintShortestSize result \<noteq> i - offset then Error ErrUnnecessaryLeadingBytes
              else Return (result, i - offset)
            else readUint_loop buf offset i (shift + 7) result
      else Error ErrNoTerminate)"
  by pat_completeness auto
termination
  by (relation "measure (\<lambda>(buf, offset, i, shift, result). 64 - shift)") auto

declare readUint_loop.simps [simp del]

definition readUint :: "bytes \<Rightarrow> nat \<Rightarrow> (codec_error, u64 \<times> nat) outcome" where
  "readUint buf offset = readUint_loop buf offset offset 0 0"

lemma varintShortestSize_eq: "varintShortestSize x = length (PutUvarint x)"
proof -
  have "unat x < 128 ^ 10" using unat_bound [of x] by simp
  then show ?thesis
    using length_uv [of 0 "unat x"] length_uv [of 1 "unat x"] length_uv [of 2 "unat x"]
      length_uv [of 3 "unat x"] length_uv [of 4 "unat x"] length_uv [of 5 "unat x"]
      length_uv [of 6 "unat x"] length_uv [of 7 "unat x"] length_uv [of 8 "unat x"]
      length_uv [of 9 "unat x"]
    by (simp add: varintShortestSize_def PutUvarint_uv word_less_nat_alt)
qed

definition add_digit :: "u64 \<Rightarrow> nat \<Rightarrow> byte \<Rightarrow> u64" where
  "add_digit r k c = r OR push_bit (7 * k) (ucast c AND 0x7f)"

lemma readUint_digit:
  fixes r :: u64 and c :: byte
  assumes "k < 10" and "unat r < 128 ^ k" and "\<not> (k = 9 \<and> 1 < unat c)"
  defines "r' \<equiv> add_digit r k c"
  shows "unat r' = unat r + 128 ^ k * (unat c mod 128)" and "unat r' < 128 ^ Suc k"
proof -
  have p: "(2 :: nat) ^ (7 * k) = 128 ^ k" by (simp add: power_mult)
  have "128 ^ k * (unat c mod 128) < (2 ^ 64 :: nat)"
  proof (cases "k = 9")
    case True
    then show ?thesis using assms(3) by (simp add: less_Suc_eq)
  next
    case False
    then have "(128 :: nat) ^ k \<le> 128 ^ 8" using assms(1) by (intro power_increasing) auto
    moreover have "unat c mod 128 < 128" by simp
    ultimately have "128 ^ k * (unat c mod 128) < 128 ^ 8 * (128 :: nat)"
      by (intro mult_le_less_imp_less) auto
    then show ?thesis by simp
  qed
  then show eq: "unat r' = unat r + 128 ^ k * (unat c mod 128)"
    unfolding r'_def add_digit_def using assms(2) by (subst unat_or_push) (simp_all add: p unat_and_7f)
  obtain d where d: "unat c mod 128 + d = 127"
    using mod_less_divisor [of 128 "unat c"] by (auto intro: that [of "127 - unat c mod 128"])
  have "128 ^ k * (unat c mod 128) + 128 ^ k * d + 128 ^ k = 128 ^ Suc k"
    using arg_cong [OF d, of "\<lambda>x. 128 ^ k * x"] by (simp add: algebra_simps)
  then show "unat r' < 128 ^ Suc k" using assms(2) eq by linarith
qed

lemma ucast_byte_u64 [simp]: "unat (ucast c :: u64) = unat (c :: byte)"
  using unat_bound [of c] by (simp add: unsigned_ucast_eq take_bit_nat_eq_self)

lemma readUint_step:
  fixes r :: u64 and buf :: bytes and offset :: nat
  assumes "k < 10" and "unat r < 128 ^ k"
  defines "c \<equiv> buf ! (offset + k)" and "r' \<equiv> add_digit r k (buf ! (offset + k))"
  shows "readUint_loop buf offset (offset + k) (7 * k) r =
    (if length buf \<le> offset + k then Error ErrInvalidData
     else if k = 9 \<and> 1 < unat c then Error ErrOutOfRange
     else if unat c < 128 then
       if length (PutUvarint r') \<noteq> Suc k then Error ErrUnnecessaryLeadingBytes else Return (r', Suc k)
     else readUint_loop buf offset (offset + Suc k) (7 * Suc k) r')"
  using assms(1) unfolding readUint_loop.simps [of buf offset "offset + k"]
  by (simp add: Let_def and_80 varintShortestSize_eq c_def r'_def add_digit_def word_less_nat_alt [of 1]
      add.commute del: push_bit_and)


lemma uv_cons: "128 \<le> n \<Longrightarrow> uv n = of_nat (n mod 128 + 128) # uv (n div 128)"
  by (simp add: uv.simps)

lemma readUint_loop_uv:
  assumes "drop (offset + k) buf = uv n @ rest"
    and "unat r < 128 ^ k" and "unat r + 128 ^ k * n < 2 ^ 64" and "k = 0 \<or> 0 < n"
  shows "readUint_loop buf offset (offset + k) (7 * k) r =
           Return (of_nat (unat r + 128 ^ k * n), k + length (uv n))"
  using assms
proof (induction n arbitrary: k r rule: uv.induct)
  case (1 n)
  have "k < 10"
  proof (rule ccontr)
    assume "\<not> k < 10"
    then have "(128 :: nat) ^ 10 \<le> 128 ^ k" "0 < n" using "1.prems"(4) power_increasing [of 10 k "128 :: nat"] by auto
    then have "(128 :: nat) ^ 10 * 1 \<le> 128 ^ k * n" by (intro mult_le_mono) auto
    then show False using "1.prems"(3) by simp
  qed
  let ?c = "buf ! (offset + k)"
  let ?r' = "add_digit r k ?c"
  have i: "offset + k < length buf" using "1.prems"(1) by (metis append_is_Nil_conv drop_all not_less uv_not_Nil)
  have c: "?c = hd (uv n)" using "1.prems"(1) i
    by (metis hd_append2 hd_drop_conv_nth uv_not_Nil)
  have uc: "unat ?c = (if n < 128 then n else n mod 128 + 128)"
    unfolding c uv.simps [of n]
    using unat_byte_of_nat [of "n mod 128 + 128"] unat_byte_of_nat [of n] by simp
  have nine: "\<not> (k = 9 \<and> 1 < unat ?c)"
  proof
    assume "k = 9 \<and> 1 < unat ?c"
    then show False using "1.prems"(3) uc by (auto split: if_splits)
  qed
  note digit = readUint_digit [OF \<open>k < 10\<close> "1.prems"(2) nine]
  note step = readUint_step [OF \<open>k < 10\<close> "1.prems"(2), of buf offset]
  show ?case
  proof (cases "n < 128")
    case True
    then have r': "unat ?r' = unat r + 128 ^ k * n" using digit(1) uc by simp
    have "128 ^ k \<le> unat ?r' \<or> k = 0" using r' "1.prems"(4)
      by (metis One_nat_def Suc_leI le_add2 le_trans mult.right_neutral mult_le_mono2)
    then have "length (PutUvarint ?r') = Suc k"
      using digit(2) length_uv [of k "unat ?r'"] True r' by (auto simp: PutUvarint_uv)
    then show ?thesis using step i nine uc True r' by (simp flip: r')
  next
    case False
    have r': "unat ?r' = unat r + 128 ^ k * (n mod 128)" using digit(1) uc False by simp
    have "unat ?r' + 128 ^ Suc k * (n div 128) = unat r + 128 ^ k * (n mod 128 + 128 * (n div 128))"
      unfolding r' by (simp only: distrib_left power_Suc ac_simps)
    then have v: "unat ?r' + 128 ^ Suc k * (n div 128) = unat r + 128 ^ k * n" by simp
    have tl: "drop (offset + Suc k) buf = uv (n div 128) @ rest"
      using "1.prems"(1) False by (simp add: uv_cons) (metis drop_Suc drop_drop add.commute list.sel(3) tl_drop)
    have "0 < n div 128" using False by (simp add: div_greater_zero_iff)
    then have "readUint_loop buf offset (offset + Suc k) (7 * Suc k) ?r' =
        Return (of_nat (unat r + 128 ^ k * n), Suc k + length (uv (n div 128)))"
      by (intro "1.IH" [OF False tl digit(2), unfolded v] "1.prems"(3) disjI2)
    then show ?thesis using step i nine uc False by (simp add: uv_cons)
  qed
qed

lemma readUint_loop_sound:
  assumes "readUint_loop buf offset (offset + k) (7 * k) r = Return (v, m)"
    and "k \<le> 10" and "unat r < 128 ^ k"
  shows "\<exists>n. take (m - k) (drop (offset + k) buf) = uv n \<and> m = k + length (uv n)
           \<and> offset + m \<le> length buf \<and> unat v = unat r + 128 ^ k * n \<and> length (PutUvarint v) = m"
  using assms
proof (induction "10 - k" arbitrary: k r)
  case 0
  then show ?case by (subst (asm) readUint_loop.simps) simp
next
  case (Suc d)
  then have k: "k < 10" by simp
  let ?c = "buf ! (offset + k)"
  let ?r' = "add_digit r k ?c"
  note ret = Suc.prems(1) [unfolded readUint_step [OF k Suc.prems(3)]]
  have i: "offset + k < length buf" and nine: "\<not> (k = 9 \<and> 1 < unat ?c)"
    using ret by (auto split: if_splits)
  note digit = readUint_digit [OF k Suc.prems(3) nine]
  have hd: "drop (offset + k) buf = ?c # drop (offset + Suc k) buf"
    using i by (simp add: Cons_nth_drop_Suc)
  show ?case
  proof (cases "unat ?c < 128")
    case True
    then have "v = ?r'" "m = Suc k" "length (PutUvarint ?r') = Suc k"
      using ret i nine by (auto split: if_splits)
    then show ?thesis using True i digit(1) hd
      by (intro exI [of _ "unat ?c"]) (simp add: uv.simps)
  next
    case False
    then have "readUint_loop buf offset (offset + Suc k) (7 * Suc k) ?r' = Return (v, m)"
      using ret i nine by (auto split: if_splits)
    moreover have "d = 10 - Suc k" "Suc k \<le> 10" using Suc.hyps(2) by auto
    ultimately obtain n where n: "take (m - Suc k) (drop (offset + Suc k) buf) = uv n"
      "m = Suc k + length (uv n)" "offset + m \<le> length buf"
      "unat v = unat ?r' + 128 ^ Suc k * n" "length (PutUvarint v) = m"
      using Suc.hyps(1) [of "Suc k" ?r'] digit(2) by blast
    have "n \<noteq> 0"
    proof
      assume "n = 0"
      then have "unat v < 128 ^ Suc k" using n(4) digit(2) by simp
      then have "length (PutUvarint v) \<le> Suc k" unfolding PutUvarint_uv length_uv_le .
      then show False using n(2,5) by (simp add: \<open>n = 0\<close>)
    qed
    let ?n = "unat ?c mod 128 + 128 * n"
    have "unat ?c mod 128 + 128 = unat ?c" using False unat_bound [of ?c] mod_if [of "unat ?c" 128] by simp
    then have "uv ?n = ?c # uv n"
      using \<open>n \<noteq> 0\<close> by (simp add: uv_cons)
    then show ?thesis using n digit(1) hd by (intro exI [of _ ?n]) (simp add: algebra_simps)
  qed
qed

theorem readUint_PutUvarint:
  "readUint (pre @ PutUvarint v @ rest) (length pre) = Return (v, length (PutUvarint v))"
  using readUint_loop_uv [of "length pre" 0 "pre @ uv (unat v) @ rest" "unat v" rest 0] unat_bound [of v]
  by (simp add: readUint_def PutUvarint_uv)

theorem readUint_sound:
  assumes "readUint buf offset = Return (v, n)"
  shows "n = length (PutUvarint v)" and "take n (drop offset buf) = PutUvarint v"
    and "offset + n \<le> length buf"
proof -
  obtain n' where "take n (drop offset buf) = uv n'" "n = length (uv n')" "offset + n \<le> length buf"
    "unat v = n'"
    using readUint_loop_sound [of buf offset 0 0 v n] assms by (auto simp: readUint_def)
  then show "n = length (PutUvarint v)" "take n (drop offset buf) = PutUvarint v"
    "offset + n \<le> length buf"
    by (simp_all only: PutUvarint_uv)
qed

lemma readUint_loop_no_panic: "readUint_loop buf offset i shift r \<noteq> Panic"
proof (induction buf offset i shift r rule: readUint_loop.induct)
  case (1 buf offset i shift r)
  then show ?case unfolding readUint_loop.simps [of buf offset i shift r] by (simp add: Let_def)
qed

lemma readUint_no_panic [simp]: "readUint buf offset \<noteq> Panic"
  by (simp add: readUint_def readUint_loop_no_panic)

end
