(* ===== verification/Codec_Writer.thy ===== *)
theory Codec_Writer
  imports Codec_Varint
begin

text \<open>
  \<^verbatim>\<open>pkg/codec/writer.go\<close> and the writing half of \<^verbatim>\<open>pkg/codec/key.go\<close>: the protobuf writer
  that every generated \<^verbatim>\<open>Encode\<close> method uses.  A \<^verbatim>\<open>Writer\<close> is a record that each operation returns
  updated.  Field numbers are of type \<^typ>\<open>u32\<close>: the generated code passes small literals, and in
  this range the five-byte buffer of \<^verbatim>\<open>getKey\<close> is never exceeded (lemma \<open>getKey_size\<close>).
  Signed integers are words read in two's complement.  Unicode normalisation
  (\<^verbatim>\<open>golang.org/x/text/unicode/norm\<close>) is the parameter \<open>nfc\<close> of the string operations.
\<close>

section \<open>Keys\<close>

definition wireType0 :: u64 where "wireType0 = 0"

definition wireType2 :: u64 where "wireType2 = 2"

definition getKey :: "u64 \<Rightarrow> u32 \<Rightarrow> bytes \<times> nat" where
  "getKey wireType fieldNumber =
     (let key = push_bit 3 (ucast fieldNumber) OR wireType;
          vint = PutUvarint key
      in (vint, length vint))"

text \<open>The bytes of the key of a field.\<close>

abbreviation key_bytes :: "u64 \<Rightarrow> u32 \<Rightarrow> bytes" where
  "key_bytes wireType fieldNumber \<equiv> PutUvarint (push_bit 3 (ucast fieldNumber) OR wireType)"

section \<open>The writer\<close>

record Writer =
  w_result :: bytes
  w_size :: nat

definition NewWriter :: Writer where
  "NewWriter = \<lparr>w_result = [], w_size = 0\<rparr>"

definition writeKey :: "u64 \<Rightarrow> u32 \<Rightarrow> Writer \<Rightarrow> Writer" where
  "writeKey wireType fieldNumber w =
     (let (vint, n) = getKey wireType fieldNumber
      in w\<lparr>w_size := w_size w + n, w_result := w_result w @ take n vint\<rparr>)"

definition writeUInt :: "u64 \<Rightarrow> Writer \<Rightarrow> Writer" where
  "writeUInt x w =
     (let vint = PutUvarint x in w\<lparr>w_size := length vint, w_result := w_result w @ vint\<rparr>)"

definition writeInt :: "u64 \<Rightarrow> Writer \<Rightarrow> Writer" where
  "writeInt x w =
     (let vint = PutVarint x in w\<lparr>w_size := length vint, w_result := w_result w @ vint\<rparr>)"

definition writeBool :: "bool \<Rightarrow> Writer \<Rightarrow> Writer" where
  "writeBool x w =
     w\<lparr>w_size := w_size w + 1, w_result := w_result w @ [if x then 0x01 else 0x00]\<rparr>"

definition writeBytes :: "bytes \<Rightarrow> Writer \<Rightarrow> Writer" where
  "writeBytes x w =
     (let w = writeUInt (of_nat (length x)) w
      in w\<lparr>w_size := w_size w + length x, w_result := w_result w @ x\<rparr>)"

definition WriteBytes :: "u32 \<Rightarrow> bytes \<Rightarrow> Writer \<Rightarrow> Writer" where
  "WriteBytes fieldNumber x w = writeBytes x (writeKey wireType2 fieldNumber w)"

definition WriteBytesArray :: "u32 \<Rightarrow> bytes list \<Rightarrow> Writer \<Rightarrow> Writer" where
  "WriteBytesArray fieldNumber xs w = (if xs = [] then w else fold (WriteBytes fieldNumber) xs w)"

definition WriteString :: "(bytes \<Rightarrow> bytes) \<Rightarrow> u32 \<Rightarrow> bytes \<Rightarrow> Writer \<Rightarrow> Writer" where
  "WriteString nfc fieldNumber x w = WriteBytes fieldNumber (nfc x) w"

definition WriteStrings :: "(bytes \<Rightarrow> bytes) \<Rightarrow> u32 \<Rightarrow> bytes list \<Rightarrow> Writer \<Rightarrow> Writer" where
  "WriteStrings nfc fieldNumber xs w =
     (if xs = [] then w else fold (WriteString nfc fieldNumber) xs w)"

definition WriteBool :: "u32 \<Rightarrow> bool \<Rightarrow> Writer \<Rightarrow> Writer" where
  "WriteBool fieldNumber x w = writeBool x (writeKey wireType0 fieldNumber w)"

definition WriteBools :: "u32 \<Rightarrow> bool list \<Rightarrow> Writer \<Rightarrow> Writer" where
  "WriteBools fieldNumber xs w =
     (if xs = [] then w
      else writeBytes (w_result (fold writeBool xs NewWriter)) (writeKey wireType2 fieldNumber w))"

definition WriteUInt :: "u32 \<Rightarrow> u64 \<Rightarrow> Writer \<Rightarrow> Writer" where
  "WriteUInt fieldNumber x w = writeUInt x (writeKey wireType0 fieldNumber w)"

definition WriteUInt32 :: "u32 \<Rightarrow> u32 \<Rightarrow> Writer \<Rightarrow> Writer" where
  "WriteUInt32 fieldNumber x w = WriteUInt fieldNumber (ucast x) w"

definition WriteUInts :: "u32 \<Rightarrow> u64 list \<Rightarrow> Writer \<Rightarrow> Writer" where
  "WriteUInts fieldNumber xs w =
     (if xs = [] then w
      else writeBytes (w_result (fold writeUInt xs NewWriter)) (writeKey wireType2 fieldNumber w))"

definition WriteUInt32s :: "u32 \<Rightarrow> u32 list \<Rightarrow> Writer \<Rightarrow> Writer" where
  "WriteUInt32s fieldNumber xs w =
     (if xs = [] then w
      else writeBytes (w_result (fold (\<lambda>x. writeUInt (ucast x)) xs NewWriter))
             (writeKey wireType2 fieldNumber w))"

definition WriteInt :: "u32 \<Rightarrow> u64 \<Rightarrow> Writer \<Rightarrow> Writer" where
  "WriteInt fieldNumber x w = writeInt x (writeKey wireType0 fieldNumber w)"

definition WriteInt32 :: "u32 \<Rightarrow> u32 \<Rightarrow> Writer \<Rightarrow> Writer" where
  "WriteInt32 fieldNumber x w = WriteInt fieldNumber (scast x) w"

definition WriteInts :: "u32 \<Rightarrow> u64 list \<Rightarrow> Writer \<Rightarrow> Writer" where
  "WriteInts fieldNumber xs w =
     (if xs = [] then w
      else writeBytes (w_result (fold writeInt xs NewWriter)) (writeKey wireType2 fieldNumber w))"

definition WriteInt32s :: "u32 \<Rightarrow> u32 list \<Rightarrow> Writer \<Rightarrow> Writer" where
  "WriteInt32s fieldNumber xs w =
     (if xs = [] then w
      else writeBytes (w_result (fold (\<lambda>x. writeInt (scast x)) xs NewWriter))
             (writeKey wireType2 fieldNumber w))"

text \<open>An \<^verbatim>\<open>Encodable\<close> is its \<^verbatim>\<open>Encode\<close> result, or \<open>None\<close> for a nil interface.\<close>

definition WriteEncodable :: "u32 \<Rightarrow> bytes option \<Rightarrow> Writer \<Rightarrow> Writer" where
  "WriteEncodable fieldNumber x w =
     (case x of None \<Rightarrow> w | Some result \<Rightarrow> writeBytes result (writeKey wireType2 fieldNumber w))"

text \<open>The loop of the generated code over a slice of non-nil pointers.\<close>

definition WriteEncodables :: "u32 \<Rightarrow> ('a \<Rightarrow> bytes) \<Rightarrow> 'a list \<Rightarrow> Writer \<Rightarrow> Writer" where
  "WriteEncodables fieldNumber encode xs w =
     fold (\<lambda>val. WriteEncodable fieldNumber (Some (encode val))) xs w"

definition Result :: "Writer \<Rightarrow> bytes" where
  "Result w = w_result w"

definition Writer_Size :: "Writer \<Rightarrow> nat" where
  "Writer_Size w = w_size w"

text \<open>A generated \<^verbatim>\<open>Encode\<close>: the writes of its fields in order, on a new writer.\<close>

definition write_all :: "(Writer \<Rightarrow> Writer) list \<Rightarrow> bytes" where
  "write_all writes = Result (fold (\<lambda>write. write) writes NewWriter)"

section \<open>What a writer appends\<close>

text \<open>The bytes of one field, by the kind of the field.\<close>

definition f_bytes :: "u32 \<Rightarrow> bytes \<Rightarrow> bytes" where
  "f_bytes n x = key_bytes wireType2 n @ PutUvarint (of_nat (length x)) @ x"

definition f_uint :: "u32 \<Rightarrow> u64 \<Rightarrow> bytes" where
  "f_uint n x = key_bytes wireType0 n @ PutUvarint x"

definition f_int :: "u32 \<Rightarrow> u64 \<Rightarrow> bytes" where
  "f_int n x = key_bytes wireType0 n @ PutVarint x"

definition f_bool :: "u32 \<Rightarrow> bool \<Rightarrow> bytes" where
  "f_bool n x = key_bytes wireType0 n @ [if x then 1 else 0]"

definition f_packed :: "u32 \<Rightarrow> ('a \<Rightarrow> bytes) \<Rightarrow> 'a list \<Rightarrow> bytes" where
  "f_packed n enc xs = (if xs = [] then [] else f_bytes n (concat (map enc xs)))"

definition f_array :: "u32 \<Rightarrow> bytes list \<Rightarrow> bytes" where
  "f_array n xs = concat (map (f_bytes n) xs)"

definition f_option :: "u32 \<Rightarrow> bytes option \<Rightarrow> bytes" where
  "f_option n x = (case x of None \<Rightarrow> [] | Some b \<Rightarrow> f_bytes n b)"

lemma fold_append_result:
  assumes "\<And>x w. w_result (f x w) = w_result w @ g x"
  shows "w_result (fold f xs w) = w_result w @ concat (map g xs)"
  by (induction xs arbitrary: w) (simp_all add: assms)

named_theorems writer_simps

lemma w_result_basic [writer_simps]:
  "w_result NewWriter = []"
  "w_result (writeKey t n w) = w_result w @ key_bytes t n"
  "w_result (writeUInt u w) = w_result w @ PutUvarint u"
  "w_result (writeInt u w) = w_result w @ PutVarint u"
  "w_result (writeBool b w) = w_result w @ [if b then 1 else 0]"
  "w_result (writeBytes x w) = w_result w @ PutUvarint (of_nat (length x)) @ x"
  by (simp_all add: NewWriter_def writeKey_def getKey_def writeUInt_def writeInt_def writeBool_def
      writeBytes_def Let_def)

lemma w_result_Write [writer_simps]:
  "w_result (WriteBytes n x w) = w_result w @ f_bytes n x"
  "w_result (WriteString nfc n x w) = w_result w @ f_bytes n (nfc x)"
  "w_result (WriteBool n b w) = w_result w @ f_bool n b"
  "w_result (WriteUInt n u w) = w_result w @ f_uint n u"
  "w_result (WriteUInt32 n v w) = w_result w @ f_uint n (ucast v)"
  "w_result (WriteInt n u w) = w_result w @ f_int n u"
  "w_result (WriteInt32 n v w) = w_result w @ f_int n (scast v)"
  "w_result (WriteEncodable n o' w) = w_result w @ f_option n o'"
  by (simp_all add: WriteBytes_def WriteString_def WriteBool_def WriteUInt_def WriteUInt32_def
      WriteInt_def WriteInt32_def WriteEncodable_def f_bytes_def f_bool_def f_uint_def f_int_def
      f_option_def writer_simps split: option.split)

lemma w_result_Write_list [writer_simps]:
  "w_result (WriteBytesArray n xs w) = w_result w @ f_array n xs"
  "w_result (WriteStrings nfc n xs w) = w_result w @ f_array n (map nfc xs)"
  "w_result (WriteBools n bs w) = w_result w @ f_packed n (\<lambda>b. [if b then 1 else 0]) bs"
  "w_result (WriteUInts n us w) = w_result w @ f_packed n PutUvarint us"
  "w_result (WriteUInt32s n vs w) = w_result w @ f_packed n (\<lambda>v. PutUvarint (ucast v)) vs"
  "w_result (WriteInts n us w) = w_result w @ f_packed n PutVarint us"
  "w_result (WriteInt32s n vs w) = w_result w @ f_packed n (\<lambda>v. PutVarint (scast v)) vs"
  by (simp_all add: WriteBytesArray_def WriteStrings_def WriteBools_def WriteUInts_def
      WriteUInt32s_def WriteInts_def WriteInt32s_def f_packed_def f_array_def comp_def
      writer_simps fold_append_result) (simp_all add: f_bytes_def)

lemma w_result_WriteEncodables [writer_simps]:
  "w_result (WriteEncodables n encode xs w) = w_result w @ f_array n (map encode xs)"
  by (simp add: WriteEncodables_def f_array_def comp_def f_option_def
      fold_append_result [where g = "\<lambda>x. f_bytes n (encode x)"] writer_simps)

lemmas write_all_eq = write_all_def Result_def fold_simps writer_simps append_Nil append_assoc

lemma unat_key:
  assumes "wireType < 8"
  shows "unat (push_bit 3 (ucast n) OR wireType :: u64) = 8 * unat (n :: u32) + unat wireType"
proof -
  let ?x = "push_bit 3 (ucast n) :: u64"
  have x: "unat ?x = 8 * unat n"
    using unat_bound [of n] by (simp add: unat_word_ariths push_bit_eq_mult)
  have "unat wireType < 2 ^ 3" using assms by (simp add: word_less_nat_alt)
  then have "take_bit 3 (unat wireType) = unat wireType" by (rule take_bit_nat_eq_self)
  then have "\<not> bit wireType k" if "3 \<le> k" for k
    using that bit_take_bit_iff [of 3 "unat wireType" k] by (simp add: bit_unsigned_iff)
  then have "?x AND wireType = 0"
    by (intro bit_word_eqI) (auto simp: bit_simps)
  then have "?x OR wireType = ?x + wireType"
    using word_plus_and_or [of ?x wireType] by simp
  then show ?thesis using x assms unat_bound [of n] by (simp add: unat_word_ariths word_less_nat_alt)
qed

lemma getKey_size: "wireType < 8 \<Longrightarrow> snd (getKey wireType fieldNumber) \<le> 5"
proof -
  assume "wireType < 8"
  then have "unat (push_bit 3 (ucast fieldNumber) OR wireType) < 2 ^ (7 * Suc 4)"
    using unat_bound [of fieldNumber] by (simp add: unat_key word_less_nat_alt)
  then show ?thesis using PutUvarint_length_le [of _ 4] by (fastforce simp: getKey_def Let_def)
qed

end
