(* ===== verification/Codec_Reader.thy ===== *)
theory Codec_Reader
  imports Codec_Writer
begin

text \<open>
  \<^verbatim>\<open>pkg/codec/reader.go\<close> and the reading half of \<^verbatim>\<open>pkg/codec/key.go\<close>.  A read returns its value
  and the advanced reader, an error, or panics; where the source returns an error the reader is
  never used again, except after \<^verbatim>\<open>check\<close>, which leaves the reader as it was.
  The read index is a natural number, the end an \<open>int\<close>, because a nested reader gets
  \<^verbatim>\<open>r.index + int(size)\<close> for a size taken from the data, which may wrap around.
  The loops of the array reads share \<open>read_loop\<close>; its fuel is one more than the number of bytes
  left, and the locale \<open>item_reader\<close> shows that this is enough for every item reader of the
  package.  \<^verbatim>\<open>norm.NFC.IsNormal\<close> is the parameter \<open>is_normal\<close>.
\<close>

record Reader =
  r_index :: nat
  r_end :: int
  r_data :: bytes

type_synonym 'a rd = "Reader \<Rightarrow> (codec_error, 'a \<times> Reader) outcome"

definition NewReader :: "bytes \<Rightarrow> Reader" where
  "NewReader buf = \<lparr>r_index = 0, r_end = int (length buf), r_data = buf\<rparr>"

definition HasUnreadBytes :: "Reader \<Rightarrow> bool" where
  "HasUnreadBytes r \<longleftrightarrow> int (r_index r) \<noteq> r_end r"

section \<open>Values without a key\<close>

definition readUInt :: "u64 rd" where
  "readUInt r =
     obind (readUint (r_data r) (r_index r)) (\<lambda>(result, n). Return (result, r\<lparr>r_index := r_index r + n\<rparr>))"

definition readInt :: "u64 rd" where
  "readInt r =
     obind (readUInt r) (\<lambda>(res, r).
       if res mod 2 = 0 then Return (res div 2, r) else Return (- 1 * ((res + 1) div 2), r))"

definition readBytes :: "bytes rd" where
  "readBytes r =
     obind (readUInt r) (\<lambda>(n, r).
       let remaining = length (r_data r) - r_index r in
       if of_nat remaining < n then Error ErrInvalidByteSize
       else Return (take (unat n) (drop (r_index r) (r_data r)), r\<lparr>r_index := r_index r + unat n\<rparr>))"

text \<open>\<^verbatim>\<open>utf8.Valid\<close>: the length and the range of the second byte of a sequence, by its first byte.\<close>

definition utf8_first :: "byte \<Rightarrow> (nat \<times> byte \<times> byte) option" where
  "utf8_first b =
     (if b < 0xC2 then None
      else if b \<le> 0xDF then Some (2, 0x80, 0xBF)
      else if b = 0xE0 then Some (3, 0xA0, 0xBF)
      else if b = 0xED then Some (3, 0x80, 0x9F)
      else if b \<le> 0xEF then Some (3, 0x80, 0xBF)
      else if b = 0xF0 then Some (4, 0x90, 0xBF)
      else if b \<le> 0xF3 then Some (4, 0x80, 0xBF)
      else if b = 0xF4 then Some (4, 0x80, 0x8F)
      else None)"

function utf8_Valid :: "bytes \<Rightarrow> bool" where
  "utf8_Valid [] = True"
| "utf8_Valid (b # bs) =
     (if b < 0x80 then utf8_Valid bs
      else case utf8_first b of
             None \<Rightarrow> False
           | Some (n, lo, hi) \<Rightarrow>
               n \<le> Suc (length bs) \<and> lo \<le> bs ! 0 \<and> bs ! 0 \<le> hi
               \<and> list_all (\<lambda>c. 0x80 \<le> c \<and> c \<le> 0xBF) (take (n - 2) (tl bs))
               \<and> utf8_Valid (drop (n - 1) bs))"
  by pat_completeness auto
termination
  by (relation "measure length") auto

definition readString :: "(bytes \<Rightarrow> bool) \<Rightarrow> bytes rd" where
  "readString is_normal r =
     obind (readBytes r) (\<lambda>(result, r).
       if \<not> utf8_Valid result then Error ErrInvalidUTF8
       else if \<not> is_normal result then Error ErrNotNormalized
       else Return (result, r))"

definition readBool :: "bool rd" where
  "readBool r =
     (if r_index r < length (r_data r) then
        let target = r_data r ! r_index r in
        if target \<noteq> 0x00 \<and> target \<noteq> 0x01 then Error ErrInvalidData
        else Return (target \<noteq> 0x00, r\<lparr>r_index := r_index r + 1\<rparr>)
      else Panic)"

section \<open>Keys\<close>

definition readKey :: "int \<Rightarrow> (codec_error, int \<times> int) outcome" where
  "readKey val =
     (let wireType = val AND 7 in
      if wireType \<noteq> uint wireType0 \<and> wireType \<noteq> uint wireType2 then Error ErrInvalidData
      else Return (drop_bit 3 val, wireType))"

definition peekKey :: "Reader \<Rightarrow> (codec_error, int \<times> nat) outcome" where
  "peekKey r = obind (readUint (r_data r) (r_index r)) (\<lambda>(result, n). Return (sint result, n))"

definition check :: "u32 \<Rightarrow> u64 \<Rightarrow> Reader \<Rightarrow> (codec_error, Reader) outcome" where
  "check fieldNumber wireType r =
     (if r_end r \<le> int (r_index r) then Error ErrFieldNumberNotFound
      else
        obind (peekKey r) (\<lambda>(key, n).
        obind (readKey key) (\<lambda>(nextFieldNumber, nextWireType).
          if nextFieldNumber \<noteq> uint fieldNumber then Error ErrUnexpectedFieldNumber
          else if nextWireType \<noteq> uint wireType then Error ErrInvalidData
          else Return (r\<lparr>r_index := r_index r + n\<rparr>))))"

fun strictError :: "codec_error \<Rightarrow> bool" where
  "strictError ErrFieldNumberNotFound = True"
| "strictError ErrUnexpectedFieldNumber = True"
| "strictError _ = False"

text \<open>
  The prologue the reads of single values share: with the key found the value is read, with
  another key or no key an absent value is its default unless the read is strict.
\<close>

definition read_field :: "u32 \<Rightarrow> u64 \<Rightarrow> bool \<Rightarrow> 'a \<Rightarrow> 'a rd \<Rightarrow> 'a rd" where
  "read_field fieldNumber wireType strict absent read r =
     (case check fieldNumber wireType r of
        Return r' \<Rightarrow> read r'
      | Error e \<Rightarrow> if \<not> strictError e then Error e else if strict then Error e else Return (absent, r)
      | Panic \<Rightarrow> Panic)"

definition ReadUInt :: "u32 \<Rightarrow> bool \<Rightarrow> u64 rd" where
  "ReadUInt fieldNumber strict = read_field fieldNumber wireType0 strict 0 readUInt"

definition ReadUInt32 :: "u32 \<Rightarrow> bool \<Rightarrow> u32 rd" where
  "ReadUInt32 fieldNumber strict r =
     obind (ReadUInt fieldNumber strict r) (\<lambda>(val, r). Return (ucast val, r))"

definition ReadInt :: "u32 \<Rightarrow> bool \<Rightarrow> u64 rd" where
  "ReadInt fieldNumber strict = read_field fieldNumber wireType0 strict 0 readInt"

definition ReadInt32 :: "u32 \<Rightarrow> bool \<Rightarrow> u32 rd" where
  "ReadInt32 fieldNumber strict =
     read_field fieldNumber wireType0 strict 0
       (\<lambda>r. obind (readInt r) (\<lambda>(res, r). Return (ucast res, r)))"

definition ReadBool :: "u32 \<Rightarrow> bool \<Rightarrow> bool rd" where
  "ReadBool fieldNumber strict = read_field fieldNumber wireType0 strict False readBool"

definition ReadBytes :: "u32 \<Rightarrow> bool \<Rightarrow> bytes rd" where
  "ReadBytes fieldNumber strict = read_field fieldNumber wireType2 strict [] readBytes"

definition ReadString :: "(bytes \<Rightarrow> bool) \<Rightarrow> u32 \<Rightarrow> bool \<Rightarrow> bytes rd" where
  "ReadString is_normal fieldNumber strict =
     read_field fieldNumber wireType2 strict [] (readString is_normal)"

text \<open>A nested value: its decoder runs on a reader of the same data that ends where its size says.\<close>

definition sub_decode :: "'a rd \<Rightarrow> 'a rd" where
  "sub_decode DecodeFromReader r =
     obind (readUInt r) (\<lambda>(decodableSize, r).
     obind (DecodeFromReader (r\<lparr>r_end := wrap_int (int (r_index r) + sint decodableSize)\<rparr>))
       (\<lambda>(val, decodableReader). Return (val, r\<lparr>r_index := r_index decodableReader\<rparr>)))"

definition ReadDecodable :: "u32 \<Rightarrow> 'a \<Rightarrow> 'a rd \<Rightarrow> bool \<Rightarrow> 'a rd" where
  "ReadDecodable fieldNumber creator DecodeFromReader strict =
     read_field fieldNumber wireType2 strict creator (sub_decode DecodeFromReader)"

section \<open>Array reads\<close>

text \<open>An item read gives \<open>None\<close> where the source returns what it has so far.\<close>

fun read_loop :: "nat \<Rightarrow> (Reader \<Rightarrow> bool) \<Rightarrow> 'a option rd \<Rightarrow> 'a list rd" where
  "read_loop 0 cont item r = Panic"
| "read_loop (Suc fuel) cont item r =
     (if cont r then
        obind (item r) (\<lambda>(x, r).
          case x of None \<Rightarrow> Return ([], r)
          | Some val \<Rightarrow> obind (read_loop fuel cont item r) (\<lambda>(result, r). Return (val # result, r)))
      else Return ([], r))"

definition loop_fuel :: "Reader \<Rightarrow> nat" where
  "loop_fuel r = Suc (length (r_data r) - r_index r)"

definition some_item :: "'a rd \<Rightarrow> 'a option rd" where
  "some_item read r = obind (read r) (\<lambda>(val, r). Return (Some val, r))"

definition read_packed :: "u32 \<Rightarrow> 'a rd \<Rightarrow> 'a list rd" where
  "read_packed fieldNumber read =
     read_field fieldNumber wireType2 False [] (\<lambda>r.
       obind (readUInt r) (\<lambda>(arrayLength, r).
         let end' = wrap_int (int (r_index r) + sint arrayLength) in
         read_loop (loop_fuel r) (\<lambda>r. int (r_index r) < end') (some_item read) r))"

definition ReadUInts :: "u32 \<Rightarrow> u64 list rd" where
  "ReadUInts fieldNumber = read_packed fieldNumber readUInt"

definition ReadUInt32s :: "u32 \<Rightarrow> u32 list rd" where
  "ReadUInt32s fieldNumber =
     read_packed fieldNumber (\<lambda>r. obind (readUInt r) (\<lambda>(val, r). Return (ucast val, r)))"

definition ReadInts :: "u32 \<Rightarrow> u64 list rd" where
  "ReadInts fieldNumber = read_packed fieldNumber readInt"

definition ReadBools :: "u32 \<Rightarrow> bool list rd" where
  "ReadBools fieldNumber = read_packed fieldNumber readBool"

definition field_item :: "u32 \<Rightarrow> 'a rd \<Rightarrow> 'a option rd" where
  "field_item fieldNumber read r =
     (case check fieldNumber wireType2 r of
        Return r' \<Rightarrow> some_item read r'
      | Error e \<Rightarrow> if strictError e then Return (None, r) else Error e
      | Panic \<Rightarrow> Panic)"

definition read_repeated :: "u32 \<Rightarrow> 'a rd \<Rightarrow> 'a list rd" where
  "read_repeated fieldNumber read r =
     read_loop (loop_fuel r) (\<lambda>r. int (r_index r) < r_end r) (field_item fieldNumber read) r"

definition ReadBytesArray :: "u32 \<Rightarrow> bytes list rd" where
  "ReadBytesArray fieldNumber = read_repeated fieldNumber readBytes"

definition ReadStrings :: "(bytes \<Rightarrow> bool) \<Rightarrow> u32 \<Rightarrow> bytes list rd" where
  "ReadStrings is_normal fieldNumber = read_repeated fieldNumber (readString is_normal)"

definition ReadDecodables :: "u32 \<Rightarrow> 'a rd \<Rightarrow> 'a list rd" where
  "ReadDecodables fieldNumber DecodeFromReader =
     read_repeated fieldNumber (sub_decode DecodeFromReader)"

end
