(* ===== verification/Codec_Laws.thy ===== *)
theory Codec_Laws
  imports Codec_Reader
begin

text \<open>
  The laws of the codec.  Every read moves forward inside the data (\<open>forward\<close>), which bounds the
  loops (locale \<open>item_reader\<close>) and is what a nested decoder must satisfy (locale \<open>decoder\<close>); the
  reads that cannot panic (\<open>no_panic\<close>); reading what was written returns it (\<open>parses\<close>); and a
  strict read accepts nothing but what the writer writes (\<open>reads\<close>).  Each of the four has a rule per
  reader operation and a rule for sequencing, so that a generated decoder is handled by applying
  the rules field by field; the locale \<open>message\<close> collects what follows for every message type.
\<close>

section \<open>What the reads do to the reader\<close>

text \<open>
  A reader is well placed when its index is within the data; every read leaves it so, never moves
  it backwards, and changes neither the data nor the end.
\<close>

definition placed :: "Reader \<Rightarrow> bool" where
  "placed r \<longleftrightarrow> r_index r \<le> length (r_data r)"

definition advances :: "nat \<Rightarrow> Reader \<Rightarrow> Reader \<Rightarrow> bool" where
  "advances n r r' \<longleftrightarrow> r_data r' = r_data r \<and> r_end r' = r_end r
     \<and> r_index r + n \<le> r_index r' \<and> placed r'"

definition forward :: "nat \<Rightarrow> 'a rd \<Rightarrow> bool" where
  "forward n read \<longleftrightarrow> (\<forall>r x r'. placed r \<longrightarrow> read r = Return (x, r') \<longrightarrow> advances n r r')"

lemma forwardI:
  "(\<And>r x r'. placed r \<Longrightarrow> read r = Return (x, r') \<Longrightarrow> advances n r r') \<Longrightarrow> forward n read"
  by (simp add: forward_def)

lemma forwardD: "forward n read \<Longrightarrow> placed r \<Longrightarrow> read r = Return (x, r') \<Longrightarrow> advances n r r'"
  by (simp add: forward_def)

lemma advances_data: "advances n r r' \<Longrightarrow> r_data r' = r_data r"
  and advances_end: "advances n r r' \<Longrightarrow> r_end r' = r_end r"
  and advances_placed: "advances n r r' \<Longrightarrow> placed r'"
  and advances_index: "advances n r r' \<Longrightarrow> r_index r + n \<le> r_index r'"
  by (simp_all add: advances_def)

lemma advances_trans: "advances n r r' \<Longrightarrow> advances m r' r'' \<Longrightarrow> k \<le> n + m \<Longrightarrow> advances k r r''"
  by (simp add: advances_def)

lemma advances_refl: "placed r \<Longrightarrow> advances 0 r r"
  by (simp add: advances_def)

lemma advances_decreases:
  "advances (Suc 0) r r' \<Longrightarrow> length (r_data r') - r_index r' < length (r_data r) - r_index r"
  by (auto simp: advances_def placed_def)

lemma advances_mono: "advances n r r' \<Longrightarrow> m \<le> n \<Longrightarrow> advances m r r'"
  by (auto simp: advances_def)

lemma forward_bind:
  assumes "forward n read" and "\<And>x. forward m (k x)" and "l \<le> n + m"
  shows "forward l (\<lambda>r. obind (read r) (\<lambda>(x, r). k x r))"
  using assms unfolding forward_def
  by (auto simp: outcome_eq split: prod.splits) (meson advances_placed advances_trans)

lemma forward_weaken: "forward n read \<Longrightarrow> m \<le> n \<Longrightarrow> forward m read"
  by (auto simp: forward_def intro: advances_mono)

lemma forward_bind0:
  assumes "forward n read" and "\<And>x. forward 0 (k x)"
  shows "forward 0 (\<lambda>r. obind (read r) (\<lambda>(x, r). k x r))"
  by (rule forward_bind [OF assms]) simp

lemma forward_return: "forward 0 (\<lambda>r. Return (x, r))"
  by (auto intro!: forwardI simp: advances_refl)

lemma forward_readUInt: "forward (Suc 0) readUInt"
proof (rule forwardI)
  fix r v r' assume "readUInt r = Return (v, r')"
  then obtain n where n: "readUint (r_data r) (r_index r) = Return (v, n)" "r' = r\<lparr>r_index := r_index r + n\<rparr>"
    by (auto simp: readUInt_def outcome_eq)
  have "0 < n" using readUint_sound(1) [OF n(1)] by simp
  then show "advances (Suc 0) r r'" using readUint_sound(3) [OF n(1)] n(2) by (simp add: advances_def placed_def)
qed

lemma readInt_eq:
  "readInt r = obind (readUInt r) (\<lambda>(res, r).
     Return (if res mod 2 = 0 then res div 2 else - ((res + 1) div 2), r))"
  by (auto simp: readInt_def intro!: obind_cong)

lemma forward_readInt: "forward (Suc 0) readInt"
proof (rule forwardI)
  fix r x r' assume "placed r" "readInt r = Return (x, r')"
  then obtain res where "readUInt r = Return (res, r')"
    by (auto simp: readInt_eq outcome_eq)
  then show "advances (Suc 0) r r'" using forwardD [OF forward_readUInt \<open>placed r\<close>] by blast
qed

lemma forward_readBytes: "forward (Suc 0) readBytes"
proof (rule forwardI)
  fix r v r' assume "placed r" "readBytes r = Return (v, r')"
  then obtain n r1 where n: "readUInt r = Return (n, r1)" "\<not> of_nat (length (r_data r1) - r_index r1) < n"
    "r' = r1\<lparr>r_index := r_index r1 + unat n\<rparr>"
    by (auto simp: readBytes_def outcome_eq Let_def split: if_splits)
  have a: "advances (Suc 0) r r1" using forwardD [OF forward_readUInt \<open>placed r\<close> n(1)] .
  have "unat n \<le> length (r_data r1) - r_index r1"
    using n(2) by (simp add: word_less_nat_alt not_less unat_of_nat)
  then have "advances 0 r1 r'" using n(3) advances_placed [OF a] by (simp add: advances_def placed_def)
  with a show "advances (Suc 0) r r'" by (rule advances_trans) simp
qed

lemma forward_readString: "forward (Suc 0) (readString is_normal)"
  unfolding forward_def readString_def
  by (auto simp: outcome_eq split: if_splits intro: forwardD [OF forward_readBytes])

lemma forward_readBool: "forward (Suc 0) readBool"
  by (auto intro!: forwardI simp: readBool_def advances_def placed_def Let_def split: if_splits)

lemma check_Return:
  assumes "placed r" "check n t r = Return r'"
  shows "advances (Suc 0) r r'"
proof -
  obtain v k where v: "readUint (r_data r) (r_index r) = Return (v, k)" "r' = r\<lparr>r_index := r_index r + k\<rparr>"
    using assms(2) by (auto simp: check_def peekKey_def readKey_def Let_def outcome_eq split: if_splits)
  have "readUInt r = Return (v, r')" using v by (simp add: readUInt_def)
  then show ?thesis using forwardD [OF forward_readUInt assms(1)] by blast
qed

lemma forward_read_field:
  assumes "forward 0 read"
  shows "forward (if strict then Suc 0 else 0) (read_field n t strict d read)"
proof (rule forwardI)
  fix r x r' assume p: "placed r" and ret: "read_field n t strict d read r = Return (x, r')"
  show "advances (if strict then Suc 0 else 0) r r'"
  proof (cases "check n t r")
    case (Return r1)
    then have a: "advances (Suc 0) r r1" using check_Return p by blast
    then have "advances 0 r1 r'" using ret Return forwardD [OF assms] advances_placed
      by (auto simp: read_field_def)
    with a show ?thesis by (auto intro: advances_trans)
  qed (use ret p in \<open>auto simp: read_field_def advances_refl split: if_splits\<close>)
qed

lemma forward_read_field0: "forward n read \<Longrightarrow> forward 0 (read_field k t strict d read)"
  by (rule forward_weaken [OF forward_read_field [OF forward_weaken]]) simp_all

lemma forward_sub_decode:
  assumes "forward 0 dec"
  shows "forward (Suc 0) (sub_decode dec)"
proof (rule forwardI)
  fix r x r' assume p: "placed r" and ret: "sub_decode dec r = Return (x, r')"
  then obtain n r1 r2 where n: "readUInt r = Return (n, r1)"
    and d: "dec (r1\<lparr>r_end := wrap_int (int (r_index r1) + sint n)\<rparr>) = Return (x, r2)"
    and r': "r' = r1\<lparr>r_index := r_index r2\<rparr>"
    by (auto simp: sub_decode_def outcome_eq)
  have a: "advances (Suc 0) r r1" using forwardD [OF forward_readUInt p n] .
  then have "advances 0 (r1\<lparr>r_end := wrap_int (int (r_index r1) + sint n)\<rparr>) r2"
    using forwardD [OF assms _ d] advances_placed [OF a] by (simp add: placed_def)
  then have "advances 0 r1 r'"
    using r' by (cases r1, cases r2) (simp add: advances_def placed_def)
  with a show "advances (Suc 0) r r'" by (rule advances_trans) simp
qed

lemma some_item_Return: "some_item read r = Return (x, r') \<longleftrightarrow> (\<exists>v. x = Some v \<and> read r = Return (v, r'))"
  by (auto simp: some_item_def outcome_eq)

lemma field_item_Return:
  "field_item n read r = Return (x, r') \<longleftrightarrow>
     (case check n wireType2 r of Return r1 \<Rightarrow> \<exists>v. x = Some v \<and> read r1 = Return (v, r')
      | Error e \<Rightarrow> strictError e \<and> x = None \<and> r' = r | Panic \<Rightarrow> False)"
  by (auto simp: field_item_def some_item_Return split: outcome.splits)

locale item_reader =
  fixes item :: "'a option rd"
  assumes item_forward:
    "placed r \<Longrightarrow> item r = Return (x, r') \<Longrightarrow> advances (if x = None then 0 else Suc 0) r r'"
begin

lemma read_loop_fuel:
  "placed r \<Longrightarrow> loop_fuel r \<le> fuel \<Longrightarrow> read_loop fuel cont item r = read_loop (loop_fuel r) cont item r"
proof (induction "length (r_data r) - r_index r" arbitrary: r fuel rule: less_induct)
  case less
  obtain f where f: "fuel = Suc f" using less.prems(2) by (cases fuel) (auto simp: loop_fuel_def)
  have "read_loop f cont item r' = read_loop (length (r_data r) - r_index r) cont item r'"
    if "item r = Return (Some v, r')" for v r'
  proof -
    have a: "advances (Suc 0) r r'" using item_forward [OF less.prems(1) that] by simp
    then have lt: "length (r_data r') - r_index r' < length (r_data r) - r_index r"
      by (rule advances_decreases)
    then have "loop_fuel r' \<le> f" "loop_fuel r' \<le> length (r_data r) - r_index r"
      using less.prems(2) f by (auto simp: loop_fuel_def)
    then show ?thesis using less.hyps [OF lt advances_placed [OF a]] by metis
  qed
  then show ?case
    by (auto simp: f loop_fuel_def intro!: obind_cong split: option.split)
qed

lemma read_loop_unfold:
  assumes "placed r"
  shows "read_loop (loop_fuel r) cont item r =
     (if cont r then
        obind (item r) (\<lambda>(x, r).
          case x of None \<Rightarrow> Return ([], r)
          | Some v \<Rightarrow> obind (read_loop (loop_fuel r) cont item r) (\<lambda>(vs, r). Return (v # vs, r)))
      else Return ([], r))"
proof -
  have "read_loop (loop_fuel r) cont item r = read_loop (Suc (loop_fuel r)) cont item r"
    using read_loop_fuel [OF assms, of "Suc (loop_fuel r)"] by simp
  moreover have "read_loop (loop_fuel r) cont item r' = read_loop (loop_fuel r') cont item r'"
    if "item r = Return (Some v, r')" for v r'
  proof -
    have a: "advances (Suc 0) r r'" using item_forward [OF assms that] by simp
    then have "loop_fuel r' \<le> loop_fuel r"
      using advances_index [OF a] advances_data [OF a] by (simp add: loop_fuel_def)
    then show ?thesis using read_loop_fuel advances_placed [OF a] by blast
  qed
  ultimately show ?thesis
    by (auto intro!: obind_cong split: option.split)
qed

lemma read_loop_advances:
  "placed r \<Longrightarrow> read_loop fuel cont item r = Return (x, r') \<Longrightarrow> advances 0 r r'"
proof (induction fuel arbitrary: r x)
  case (Suc fuel)
  show ?case
  proof (cases "cont r")
    case True
    then obtain y r1 where y: "item r = Return (y, r1)" using Suc.prems(2) by (auto simp: outcome_eq)
    then have a: "advances (if y = None then 0 else Suc 0) r r1" using item_forward Suc.prems(1) by blast
    show ?thesis
    proof (cases y)
      case (Some v)
      then obtain vs where "read_loop fuel cont item r1 = Return (vs, r')"
        using Suc.prems(2) True y by (auto simp: outcome_eq)
      then have "advances 0 r1 r'" using Suc.IH advances_placed [OF a] by blast
      with a show ?thesis by (rule advances_trans) simp
    qed (use Suc.prems True y a in simp)
  qed (use Suc.prems advances_refl in auto)
qed simp

lemma read_loop_no_panic:
  assumes "\<And>r. placed r \<Longrightarrow> item r \<noteq> Panic" and "placed r"
  shows "read_loop (loop_fuel r) cont item r \<noteq> Panic"
  using assms(2)
proof (induction "length (r_data r) - r_index r" arbitrary: r rule: less_induct)
  case less
  have "read_loop (loop_fuel r') cont item r' \<noteq> Panic" if "item r = Return (Some v, r')" for v r'
  proof -
    have a: "advances (Suc 0) r r'" using item_forward [OF less.prems that] by simp
    then have "length (r_data r') - r_index r' < length (r_data r) - r_index r"
      by (rule advances_decreases)
    then show ?thesis using less.hyps advances_placed [OF a] by blast
  qed
  then show ?case
    using assms(1) [OF less.prems] by (subst read_loop_unfold [OF less.prems]) (auto simp: outcome_eq split: option.splits)
qed

end

section \<open>Freedom from panics\<close>

definition no_panic :: "'a rd \<Rightarrow> bool" where
  "no_panic read \<longleftrightarrow> (\<forall>r. placed r \<longrightarrow> read r \<noteq> Panic)"

lemma no_panic_readUInt: "no_panic readUInt"
  by (auto simp: no_panic_def readUInt_def outcome_eq)

lemma no_panic_bind:
  assumes "forward n read" and "no_panic read" and "\<And>x. no_panic (k x)"
  shows "no_panic (\<lambda>r. obind (read r) (\<lambda>(x, r). k x r))"
  using assms(2,3) unfolding no_panic_def
  by (auto simp: outcome_eq dest: forwardD [OF assms(1), THEN advances_placed])

lemma no_panic_return: "no_panic (\<lambda>r. Return (x, r))"
  by (simp add: no_panic_def)

lemma no_panic_readInt: "no_panic readInt"
  using no_panic_readUInt by (auto simp: no_panic_def readInt_eq outcome_eq)

lemma no_panic_readBytes: "no_panic readBytes"
  using no_panic_readUInt by (auto simp: no_panic_def readBytes_def outcome_eq Let_def)

lemma no_panic_readString: "no_panic (readString is_normal)"
  using no_panic_readBytes by (auto simp: no_panic_def readString_def outcome_eq)

lemma check_no_panic: "check n t r \<noteq> Panic"
  by (auto simp: check_def peekKey_def readKey_def Let_def outcome_eq split: if_splits)

lemma no_panic_read_field:
  assumes "no_panic read"
  shows "no_panic (read_field n t strict d read)"
  using assms check_no_panic [of n t] unfolding no_panic_def read_field_def
  by (auto split: outcome.split dest: check_Return [THEN advances_placed])

lemma no_panic_sub_decode:
  assumes "no_panic dec"
  shows "no_panic (sub_decode dec)"
proof (unfold no_panic_def, intro allI impI notI)
  fix r assume p: "placed r" and "sub_decode dec r = Panic"
  then obtain n r1 where n: "readUInt r = Return (n, r1)"
    and d: "dec (r1\<lparr>r_end := wrap_int (int (r_index r1) + sint n)\<rparr>) = Panic"
    using no_panic_readUInt by (auto simp: sub_decode_def outcome_eq no_panic_def)
  have "placed r1" using forwardD [OF forward_readUInt p n] by (rule advances_placed)
  then show False using assms d by (simp add: no_panic_def placed_def)
qed

lemma item_reader_some: "forward (Suc 0) read \<Longrightarrow> item_reader (some_item read)"
  by unfold_locales (auto simp: some_item_Return dest: forwardD)

lemma item_reader_field:
  assumes "forward 0 read"
  shows "item_reader (field_item n read)"
proof
  fix r x r' assume p: "placed r" and ret: "field_item n read r = Return (x, r')"
  show "advances (if x = None then 0 else Suc 0) r r'"
  proof (cases "check n wireType2 r")
    case (Return r1)
    then have a: "advances (Suc 0) r r1" using check_Return p by blast
    moreover obtain v where "x = Some v" "read r1 = Return (v, r')"
      using ret Return by (auto simp: field_item_Return)
    ultimately show ?thesis using forwardD [OF assms advances_placed [OF a]] advances_trans [OF a] by auto
  qed (use p ret in \<open>auto simp: field_item_Return advances_refl\<close>)
qed

lemma forward_read_repeated: "forward 0 read \<Longrightarrow> forward 0 (read_repeated n read)"
  by (rule forwardI) (auto simp: read_repeated_def dest: item_reader.read_loop_advances [OF item_reader_field])

lemma no_panic_read_repeated:
  assumes "forward 0 read" and "no_panic read"
  shows "no_panic (read_repeated n read)"
proof -
  have "field_item n read r \<noteq> Panic" if "placed r" for r
    using that assms(2) check_no_panic [of n wireType2]
    by (auto simp: field_item_def some_item_def no_panic_def outcome_eq split: outcome.split
        dest: check_Return [THEN advances_placed])
  then show ?thesis
    using item_reader.read_loop_no_panic [OF item_reader_field [OF assms(1)]]
    by (auto simp: no_panic_def read_repeated_def)
qed

lemma forward_read_packed:
  assumes "forward (Suc 0) read"
  shows "forward 0 (read_packed n read)"
proof -
  have "forward 0 (\<lambda>r. read_loop (f r) (c r) (some_item read) r)" for f c
    by (rule forwardI) (rule item_reader.read_loop_advances [OF item_reader_some [OF assms]])
  from forward_bind0 [OF forward_readUInt this]
  show ?thesis unfolding read_packed_def Let_def by (rule forward_read_field0)
qed

section \<open>Decoders of generated code\<close>

text \<open>
  What the reader relies on when it runs a nested decoder: the decoder only moves forward.  Every
  generated \<^verbatim>\<open>DecodeFromReader\<close> is an instance, since it is a sequence of reads.
\<close>

locale decoder =
  fixes dec :: "'a rd"
  assumes dec_forward: "forward 0 dec"
begin

lemma forward_ReadDecodable: "forward 0 (ReadDecodable n c dec strict)"
  unfolding ReadDecodable_def by (rule forward_read_field0) (rule forward_sub_decode [OF dec_forward])

lemma forward_nested: "forward 0 (sub_decode dec)"
  by (rule forward_weaken [OF forward_sub_decode [OF dec_forward]]) simp

lemma forward_ReadDecodables: "forward 0 (ReadDecodables n dec)"
  unfolding ReadDecodables_def by (rule forward_read_repeated) (rule forward_nested)

lemma no_panic_ReadDecodable: "no_panic dec \<Longrightarrow> no_panic (ReadDecodable n c dec strict)"
  unfolding ReadDecodable_def by (intro no_panic_read_field no_panic_sub_decode)

lemma no_panic_ReadDecodables: "no_panic dec \<Longrightarrow> no_panic (ReadDecodables n dec)"
  unfolding ReadDecodables_def by (intro no_panic_read_repeated forward_nested no_panic_sub_decode)

end

sublocale decoder < nested: item_reader "field_item n (sub_decode dec)" for n
  by (rule item_reader_field) (rule forward_nested)

named_theorems reader_forward
named_theorems reader_no_panic

lemma forward_Read [reader_forward]:
  "forward 0 (ReadUInt n strict)" "forward 0 (ReadUInt32 n strict)" "forward 0 (ReadInt n strict)"
  "forward 0 (ReadInt32 n strict)" "forward 0 (ReadBool n strict)" "forward 0 (ReadBytes n strict)"
  "forward 0 (ReadString is_normal n strict)"
  unfolding ReadUInt_def ReadUInt32_def ReadInt_def ReadInt32_def ReadBool_def ReadBytes_def ReadString_def
  by (rule forward_read_field0 [OF forward_readUInt],
      rule forward_bind0 [OF forward_read_field0 [OF forward_readUInt] forward_return],
      rule forward_read_field0 [OF forward_readInt],
      rule forward_read_field0 [OF forward_bind0 [OF forward_readInt forward_return]],
      rule forward_read_field0 [OF forward_readBool],
      rule forward_read_field0 [OF forward_readBytes],
      rule forward_read_field0 [OF forward_readString])

lemma forward_Read_list [reader_forward]:
  "forward 0 (ReadUInts n)" "forward 0 (ReadUInt32s n)"
  "forward 0 (ReadInts n)" "forward 0 (ReadBools n)" "forward 0 (ReadBytesArray n)"
  "forward 0 (ReadStrings is_normal n)"
  unfolding ReadUInts_def ReadUInt32s_def ReadInts_def ReadBools_def ReadBytesArray_def ReadStrings_def
  by (rule forward_read_packed [OF forward_readUInt],
      rule forward_read_packed [OF forward_bind [OF forward_readUInt forward_return]], simp,
      rule forward_read_packed [OF forward_readInt], rule forward_read_packed [OF forward_readBool],
      rule forward_read_repeated [OF forward_weaken [OF forward_readBytes]], simp,
      rule forward_read_repeated [OF forward_weaken [OF forward_readString]], simp)

lemma no_panic_Read [reader_no_panic]:
  "no_panic (ReadUInt n strict)" "no_panic (ReadUInt32 n strict)" "no_panic (ReadInt n strict)"
  "no_panic (ReadInt32 n strict)" "no_panic (ReadBytes n strict)"
  "no_panic (ReadString is_normal n strict)" "no_panic (ReadBytesArray n)"
  "no_panic (ReadStrings is_normal n)"
  unfolding ReadUInt_def ReadUInt32_def ReadInt_def ReadInt32_def ReadBytes_def ReadString_def
    ReadBytesArray_def ReadStrings_def
  by (rule no_panic_read_field [OF no_panic_readUInt],
      rule no_panic_bind [OF forward_read_field0 [OF forward_readUInt]
        no_panic_read_field [OF no_panic_readUInt] no_panic_return],
      rule no_panic_read_field [OF no_panic_readInt],
      rule no_panic_read_field [OF no_panic_bind [OF forward_readInt no_panic_readInt no_panic_return]],
      rule no_panic_read_field [OF no_panic_readBytes],
      rule no_panic_read_field [OF no_panic_readString],
      rule no_panic_read_repeated [OF forward_weaken [OF forward_readBytes] no_panic_readBytes], simp,
      rule no_panic_read_repeated [OF forward_weaken [OF forward_readString] no_panic_readString], simp)

section \<open>Reading what was written\<close>

text \<open>
  \<open>mk_reader pre rest e\<close> stands before \<open>rest\<close>, having read \<open>pre\<close>.  \<open>parses F read bs v\<close>: on a reader
  that stands before the bytes \<open>bs\<close>, \<open>read\<close> returns \<open>v\<close> and consumes exactly \<open>bs\<close>, whatever
  follows, provided that no key of a field number in \<open>F\<close> follows (an array read goes on as long as
  it finds its own key).
\<close>

definition mk_reader :: "bytes \<Rightarrow> bytes \<Rightarrow> int \<Rightarrow> Reader" where
  "mk_reader pre rest e = \<lparr>r_index = length pre, r_end = e, r_data = pre @ rest\<rparr>"

definition wire_types :: "u64 set" where
  "wire_types = {wireType0, wireType2}"

definition next_ok :: "u32 set \<Rightarrow> nat \<Rightarrow> int \<Rightarrow> bytes \<Rightarrow> bool" where
  "next_ok F i e rest \<longleftrightarrow>
     F = {} \<or> e \<le> int i \<or> (\<exists>n t rest'. t \<in> wire_types \<and> n \<notin> F \<and> rest = key_bytes t n @ rest')"

definition starts :: "u32 set \<Rightarrow> bytes \<Rightarrow> bool" where
  "starts F bs \<longleftrightarrow> bs = [] \<or> (\<exists>n t rest'. t \<in> wire_types \<and> n \<notin> F \<and> bs = key_bytes t n @ rest')"

definition parses :: "u32 set \<Rightarrow> 'a rd \<Rightarrow> bytes \<Rightarrow> 'a \<Rightarrow> bool" where
  "parses F read bs v \<longleftrightarrow>
     (\<forall>pre rest e. length (pre @ bs @ rest) < 2 ^ 63 \<longrightarrow> int (length pre + length bs) \<le> e \<longrightarrow>
        next_ok F (length pre + length bs) e rest \<longrightarrow>
        read (mk_reader pre (bs @ rest) e) = Return (v, mk_reader (pre @ bs) rest e))"

lemma parsesI:
  assumes "\<And>pre rest e. length pre + length bs + length rest < 2 ^ 63 \<Longrightarrow> int (length pre + length bs) \<le> e \<Longrightarrow>
     next_ok F (length pre + length bs) e rest \<Longrightarrow>
     read (mk_reader pre (bs @ rest) e) = Return (v, mk_reader (pre @ bs) rest e)"
  shows "parses F read bs v"
  using assms by (simp add: parses_def)

lemma parsesD:
  assumes "parses F read bs v" "length pre + length bs + length rest < 2 ^ 63" "int (length pre + length bs) \<le> e"
    "next_ok F (length pre + length bs) e rest"
  shows "read (mk_reader pre (bs @ rest) e) = Return (v, mk_reader (pre @ bs) rest e)"
  using assms by (simp add: parses_def)

lemma mk_reader_sel [simp]:
  "r_index (mk_reader pre rest e) = length pre" "r_end (mk_reader pre rest e) = e"
  "r_data (mk_reader pre rest e) = pre @ rest"
  by (simp_all add: mk_reader_def)

lemma placed_mk_reader [simp]: "placed (mk_reader pre rest e)"
  by (simp add: placed_def)

lemma mk_reader_advance: "(mk_reader pre (bs @ rest) e)\<lparr>r_index := length pre + length bs\<rparr> = mk_reader (pre @ bs) rest e"
  by (simp add: mk_reader_def)

lemma next_ok_starts: "next_ok F' i e rest \<Longrightarrow> F \<subseteq> F' \<Longrightarrow> starts F bs \<Longrightarrow> j + length bs = i \<Longrightarrow> next_ok F j e (bs @ rest)"
  unfolding next_ok_def starts_def by fastforce

lemma next_ok_mono: "next_ok F' i e rest \<Longrightarrow> F \<subseteq> F' \<Longrightarrow> next_ok F i e rest"
  unfolding next_ok_def by blast

lemma parses_bind:
  assumes "parses F read bs v" and "starts F bs'" and "parses F' (k v) bs' w"
  shows "parses (F \<union> F') (\<lambda>r. obind (read r) (\<lambda>(x, r). k x r)) (bs @ bs') w"
proof (rule parsesI)
  fix pre rest :: bytes and e
  assume l: "length pre + length (bs @ bs') + length rest < 2 ^ 63"
    and e: "int (length pre + length (bs @ bs')) \<le> e"
    and n: "next_ok (F \<union> F') (length pre + length (bs @ bs')) e rest"
  have "next_ok F (length pre + length bs) e (bs' @ rest)"
    by (rule next_ok_starts [OF n _ assms(2)]) auto
  then have 1: "read (mk_reader pre (bs @ bs' @ rest) e) = Return (v, mk_reader (pre @ bs) (bs' @ rest) e)"
    using parsesD [OF assms(1), of pre "bs' @ rest" e] l e by simp
  have "next_ok F' (length (pre @ bs) + length bs') e rest"
    using next_ok_mono [OF n] by (simp add: add.assoc)
  then have "k v (mk_reader (pre @ bs) (bs' @ rest) e) = Return (w, mk_reader ((pre @ bs) @ bs') rest e)"
    using l e by (intro parsesD [OF assms(3)]) auto
  with 1 show "obind (read (mk_reader pre ((bs @ bs') @ rest) e)) (\<lambda>(x, r). k x r)
      = Return (w, mk_reader (pre @ bs @ bs') rest e)"
    by simp
qed

lemma parses_return: "parses {} (\<lambda>r. Return (v, r)) [] v"
  by (simp add: parses_def)

lemma parses_mono: "parses F read bs v \<Longrightarrow> F \<subseteq> F' \<Longrightarrow> parses F' read bs v"
  unfolding parses_def using next_ok_mono by blast

lemma parses_readUInt: "parses F readUInt (PutUvarint v) v"
  by (rule parsesI) (simp add: readUInt_def readUint_PutUvarint mk_reader_advance)

lemma parses_readBytes:
  "parses F readBytes (PutUvarint (of_nat (length x)) @ x) x"
proof (rule parsesI)
  fix pre rest :: bytes and e
  let ?n = "of_nat (length x) :: u64"
  assume l: "length pre + length (PutUvarint ?n @ x) + length rest < 2 ^ 63"
  then have "unat ?n = length x" by (simp add: unat_of_nat take_bit_nat_eq_self)
  moreover have "\<not> (of_nat (length x + length rest) < ?n)"
    using l by (simp add: word_less_nat_alt unat_of_nat take_bit_nat_eq_self del: of_nat_add)
  moreover have "readUInt (mk_reader pre ((PutUvarint ?n @ x) @ rest) e)
      = Return (?n, mk_reader (pre @ PutUvarint ?n) (x @ rest) e)"
    by (simp add: readUInt_def readUint_PutUvarint mk_reader_def)
  ultimately show "readBytes (mk_reader pre ((PutUvarint ?n @ x) @ rest) e)
      = Return (x, mk_reader (pre @ PutUvarint ?n @ x) rest e)"
    by (simp add: readBytes_def Let_def mk_reader_def del: of_nat_add)
qed

lemma parses_readString:
  "utf8_Valid x \<Longrightarrow> is_normal x \<Longrightarrow>
   parses F (readString is_normal) (PutUvarint (of_nat (length x)) @ x) x"
  using parses_readBytes [of F x] by (simp add: parses_def readString_def)

lemma parses_readBool: "parses F readBool [if b then 1 else 0] b"
  by (rule parsesI) (simp add: readBool_def mk_reader_def)

lemma sint_neg_iff: "sint x < 0 \<longleftrightarrow> 2 ^ 63 \<le> unat x" for x :: u64
  using bit_63 [of x] bit_last_iff [of x] by simp

lemma readInt_PutVarint:
  fixes x :: u64
  defines "res \<equiv> if sint x < 0 then NOT (push_bit 1 x) else push_bit 1 x"
  assumes "x \<noteq> 2 ^ 63"
  shows "(if res mod 2 = 0 then res div 2 else - ((res + 1) div 2)) = x"
proof (cases "sint x < 0")
  case False
  then have "2 * unat x < 2 ^ 64" by (simp add: sint_neg_iff)
  then have "unat (2 * x) = 2 * unat x" by (simp add: unat_word_ariths)
  then have "unat (2 * x mod 2) = 0" "unat (2 * x div 2) = unat x"
    by (simp_all add: unat_mod_distrib unat_div_distrib)
  then show ?thesis using False by (simp add: res_def push_bit_eq_mult mult.commute word_unat_eq_iff)
next
  case True
  define y where "y = - x"
  have "unat x \<noteq> 2 ^ 63" using assms(2) by (simp add: word_unat_eq_iff)
  then have y: "0 < unat y" "2 * unat y < 2 ^ 64"
    using True unat_bound [of x] unat_sub_if' [of 0 x] by (auto simp: y_def sint_neg_iff split: if_splits)
  have "res = 2 * y - 1" using True by (simp add: res_def y_def push_bit_eq_mult not_eq_complement)
  moreover have two: "unat (2 * y) = 2 * unat y" using y by (simp add: unat_word_ariths)
  moreover have "unat (2 * y - 1) = 2 * unat y - 1" using y two by (simp add: unat_sub_if')
  ultimately have "unat (res mod 2) = (2 * unat y - 1) mod 2" and r1: "res + 1 = 2 * y"
    by (simp_all add: unat_mod_distrib)
  moreover have "(2 * unat y - 1) mod 2 = 1" using y(1) by presburger
  ultimately have odd: "res mod 2 \<noteq> 0" by (metis unat_0 zero_neq_one)
  have "unat (2 * y div 2) = unat y" using two by (simp add: unat_div_distrib)
  then have "(res + 1) div 2 = y" unfolding r1 by (simp add: word_unat_eq_iff)
  then show ?thesis using odd by (simp add: y_def)
qed

lemma parses_readInt:
  assumes "x \<noteq> 2 ^ 63"
  shows "parses F readInt (PutVarint x) x"
  using readInt_PutVarint [OF assms] parses_readUInt [of F]
  unfolding parses_def readInt_eq PutVarint_def Let_def by auto

lemma int_and_7: "x AND 7 = x mod 8" for x :: int
  using take_bit_eq_mask [of 3 x] by (simp add: take_bit_eq_mod mask_eq_exp_minus_1)

lemma sint_key:
  assumes "t \<in> wire_types"
  shows "sint (push_bit 3 (ucast n) OR t :: u64) = 8 * uint (n :: u32) + uint t"
proof -
  let ?k = "push_bit 3 (ucast n) OR t :: u64"
  have t: "t < 8" using assms by (auto simp: wire_types_def wireType0_def wireType2_def)
  have k: "unat ?k = 8 * unat n + unat t" using unat_key [OF t] .
  then have "unat ?k < 2 ^ 63"
    using unat_bound [of n] t by (simp add: word_less_nat_alt)
  from sint_u64_of_nat [OF this] have "sint ?k = int (unat ?k)" by simp
  also have "\<dots> = 8 * uint n + uint t" unfolding k by simp
  finally show ?thesis .
qed

lemma key_read:
  assumes "t \<in> wire_types"
  shows "peekKey (mk_reader pre (key_bytes t n @ rest) e)
           = Return (8 * uint n + uint t, length (key_bytes t n))"
    and "readKey (8 * uint n + uint t) = Return (uint n, uint t)"
  using assms sint_key [OF assms, of n]
  by (auto simp: peekKey_def readUint_PutUvarint readKey_def int_and_7 wire_types_def wireType0_def
      wireType2_def drop_bit_eq_div)

lemma key_unique:
  assumes "t \<in> wire_types" "readKey (sint v) = Return (uint (n :: u32), uint t)"
  shows "v = push_bit 3 (ucast n) OR t"
proof -
  have "sint v div 8 = uint n" "sint v mod 8 = uint t"
    using assms(2) by (auto simp: readKey_def Let_def int_and_7 drop_bit_eq_div split: if_splits)
  then have "sint v = 8 * uint n + uint t" by (metis mult_div_mod_eq)
  then show ?thesis using sint_key [OF assms(1), of n] by (metis signed_word_eqI)
qed

lemma check_found:
  "t \<in> wire_types \<Longrightarrow> int (length pre) < e \<Longrightarrow>
   check n t (mk_reader pre (key_bytes t n @ rest) e) = Return (mk_reader (pre @ key_bytes t n) rest e)"
  by (simp add: check_def key_read mk_reader_advance)

lemma check_next_ok:
  assumes "next_ok F (length pre) e rest" and "n \<in> F"
  shows "\<exists>err. check n t (mk_reader pre rest e) = Error err \<and> strictError err"
proof (cases "e \<le> int (length pre)")
  case False
  then obtain m t' rest' where "t' \<in> wire_types" "m \<notin> F" "rest = key_bytes t' m @ rest'"
    using assms by (auto simp: next_ok_def)
  moreover from this have "uint m \<noteq> uint n" using assms(2) by (auto simp flip: word_uint_eq_iff)
  ultimately show ?thesis using False by (auto simp: check_def key_read)
qed (simp add: check_def)

lemma wire_types [simp]: "wireType0 \<in> wire_types" "wireType2 \<in> wire_types"
  by (simp_all add: wire_types_def)

lemma parses_read_field:
  assumes "parses F read bs v" and "t \<in> wire_types"
  shows "parses F (read_field n t strict d read) (key_bytes t n @ bs) v"
proof (rule parsesI)
  fix pre rest :: bytes and e
  assume l: "length pre + length (key_bytes t n @ bs) + length rest < 2 ^ 63"
    and e: "int (length pre + length (key_bytes t n @ bs)) \<le> e"
    and n: "next_ok F (length pre + length (key_bytes t n @ bs)) e rest"
  have "0 < length (key_bytes t n)" by simp
  then have "int (length pre) < e" using e by (simp del: length_greater_0_conv)
  then have "check n t (mk_reader pre (key_bytes t n @ bs @ rest) e)
      = Return (mk_reader (pre @ key_bytes t n) (bs @ rest) e)"
    using check_found assms(2) by blast
  moreover have "read (mk_reader (pre @ key_bytes t n) (bs @ rest) e)
      = Return (v, mk_reader ((pre @ key_bytes t n) @ bs) rest e)"
    using l e n by (intro parsesD [OF assms(1)]) (simp_all add: add.assoc)
  ultimately show "read_field n t strict d read (mk_reader pre ((key_bytes t n @ bs) @ rest) e)
      = Return (v, mk_reader (pre @ key_bytes t n @ bs) rest e)"
    by (simp add: read_field_def)
qed

lemma parses_sub_decode:
  assumes "parses F dec bs v"
  shows "parses G (sub_decode dec) (PutUvarint (of_nat (length bs)) @ bs) v"
proof (rule parsesI)
  fix pre rest :: bytes and e
  let ?n = "of_nat (length bs) :: u64"
  let ?pre = "pre @ PutUvarint ?n"
  assume l: "length pre + length (PutUvarint ?n @ bs) + length rest < 2 ^ 63"
  have "readUInt (mk_reader pre ((PutUvarint ?n @ bs) @ rest) e) = Return (?n, mk_reader ?pre (bs @ rest) e)"
    by (simp add: readUInt_def readUint_PutUvarint mk_reader_def)
  moreover have "wrap_int (int (length ?pre) + sint ?n) = int (length ?pre + length bs)"
  proof -
    have "length bs < 2 ^ 63" "int (length ?pre + length bs) < 2 ^ 63" using l by auto
    then show ?thesis by (simp only: sint_u64_of_nat of_nat_add wrap_int_id)
  qed
  moreover have "dec (mk_reader ?pre (bs @ rest) (int (length ?pre + length bs)))
      = Return (v, mk_reader (?pre @ bs) rest (int (length ?pre + length bs)))"
    using l by (intro parsesD [OF assms]) (simp_all add: next_ok_def)
  ultimately show "sub_decode dec (mk_reader pre ((PutUvarint ?n @ bs) @ rest) e)
      = Return (v, mk_reader (pre @ PutUvarint ?n @ bs) rest e)"
    by (simp add: sub_decode_def mk_reader_def)
qed

lemma starts_append: "starts F bs \<Longrightarrow> starts F bs' \<Longrightarrow> starts F (bs @ bs')"
  unfolding starts_def by (metis append_Nil append_assoc)

lemma starts_key: "t \<in> wire_types \<Longrightarrow> n \<notin> F \<Longrightarrow> starts F (key_bytes t n @ bs)"
  by (auto simp: starts_def)

lemma starts_concat:
  "t \<in> wire_types \<Longrightarrow> n \<notin> F \<Longrightarrow> starts F (concat (map (\<lambda>x. key_bytes t n @ enc x) xs))"
  by (cases xs) (auto simp: starts_def)

lemma parses_read_repeated:
  assumes "forward 0 read" and "\<And>x. x \<in> set xs \<Longrightarrow> parses {} read (enc x) x"
  shows "parses {n} (read_repeated n read) (concat (map (\<lambda>x. key_bytes wireType2 n @ enc x) xs)) xs"
  using assms(2)
proof (induction xs)
  case Nil
  show ?case
  proof (rule parsesI)
    fix pre rest :: bytes and e
    assume n: "next_ok {n} (length pre + length (concat (map (\<lambda>x. key_bytes wireType2 n @ enc x) []))) e rest"
    then obtain err where "check n wireType2 (mk_reader pre rest e) = Error err" "strictError err"
      using check_next_ok [of "{n}" pre e rest n] by auto
    then show "read_repeated n read (mk_reader pre (concat (map (\<lambda>x. key_bytes wireType2 n @ enc x) []) @ rest) e)
        = Return ([], mk_reader (pre @ concat (map (\<lambda>x. key_bytes wireType2 n @ enc x) [])) rest e)"
      using item_reader.read_loop_unfold [OF item_reader_field [OF assms(1)], of "mk_reader pre rest e"]
      by (simp add: read_repeated_def field_item_def)
  qed
next
  case (Cons x xs)
  let ?enc = "\<lambda>x. key_bytes wireType2 n @ enc x"
  show ?case
  proof (rule parsesI)
    fix pre rest :: bytes and e
    assume l: "length pre + length (concat (map ?enc (x # xs))) + length rest < 2 ^ 63"
      and e: "int (length pre + length (concat (map ?enc (x # xs)))) \<le> e"
      and n: "next_ok {n} (length pre + length (concat (map ?enc (x # xs)))) e rest"
    let ?rest = "concat (map ?enc xs) @ rest"
    have "0 < length (key_bytes wireType2 n)" by simp
    then have lt: "int (length pre) < e" using e by (simp del: length_greater_0_conv)
    then have c: "check n wireType2 (mk_reader pre (key_bytes wireType2 n @ enc x @ ?rest) e)
        = Return (mk_reader (pre @ key_bytes wireType2 n) (enc x @ ?rest) e)"
      by (simp add: check_found)
    have "next_ok {} (length (pre @ key_bytes wireType2 n) + length (enc x)) e ?rest"
      by (rule next_ok_starts [OF n _ starts_concat]) auto
    then have i: "read (mk_reader (pre @ key_bytes wireType2 n) (enc x @ ?rest) e)
        = Return (x, mk_reader (pre @ ?enc x) ?rest e)"
      using parsesD [OF Cons.prems(1), of x "pre @ key_bytes wireType2 n" ?rest e] l e
      by simp
    have "read_repeated n read (mk_reader (pre @ ?enc x) ?rest e)
        = Return (xs, mk_reader (pre @ ?enc x @ concat (map ?enc xs)) rest e)"
      using parsesD [OF Cons.IH, of "pre @ ?enc x" rest e] Cons.prems l e n by (simp add: add.assoc)
    then show "read_repeated n read (mk_reader pre (concat (map ?enc (x # xs)) @ rest) e)
        = Return (x # xs, mk_reader (pre @ concat (map ?enc (x # xs))) rest e)"
      using c i lt
        item_reader.read_loop_unfold [OF item_reader_field [OF assms(1)], of "mk_reader pre (?enc x @ ?rest) e" ]
      by (simp add: read_repeated_def field_item_def some_item_def)
  qed
qed

lemma read_packed_items:
  fixes enc :: "'a \<Rightarrow> bytes" and pre rest :: bytes
  assumes "forward (Suc 0) read" and "\<And>x. x \<in> set xs \<Longrightarrow> parses {} read (enc x) x"
    and "\<And>x. enc x \<noteq> []"
    and "length pre + length (concat (map enc xs)) + length rest < 2 ^ 63"
    and "int (length pre + length (concat (map enc xs))) \<le> e"
  shows "read_loop (loop_fuel (mk_reader pre (concat (map enc xs) @ rest) e))
           (\<lambda>r. int (r_index r) < int (length pre + length (concat (map enc xs)))) (some_item read)
           (mk_reader pre (concat (map enc xs) @ rest) e)
         = Return (xs, mk_reader (pre @ concat (map enc xs)) rest e)"
  using assms(2,4,5)
proof (induction xs arbitrary: pre)
  case Nil
  then show ?case using item_reader.read_loop_unfold [OF item_reader_some [OF assms(1)]] by simp
next
  case (Cons x xs)
  let ?rest = "concat (map enc xs) @ rest"
  let ?stop = "\<lambda>r. int (r_index r) < int (length pre + length (concat (map enc (x # xs))))"
  have "0 < length (enc x)" using assms(3) by simp
  have "read (mk_reader pre (enc x @ ?rest) e) = Return (x, mk_reader (pre @ enc x) ?rest e)"
    using Cons.prems by (intro parsesD [OF Cons.prems(1)]) (simp_all add: next_ok_def)
  then have "some_item read (mk_reader pre (enc x @ ?rest) e) = Return (Some x, mk_reader (pre @ enc x) ?rest e)"
    by (simp add: some_item_def)
  moreover have "read_loop (loop_fuel (mk_reader (pre @ enc x) ?rest e)) ?stop (some_item read)
      (mk_reader (pre @ enc x) ?rest e) = Return (xs, mk_reader (pre @ enc x @ concat (map enc xs)) rest e)"
    using Cons.IH [of "pre @ enc x"] Cons.prems by (simp add: add.assoc)
  ultimately show ?case
    using \<open>0 < length (enc x)\<close> item_reader.read_loop_unfold [OF item_reader_some [OF assms(1)],
        of "mk_reader pre (enc x @ ?rest) e" ?stop]
    by (simp del: length_greater_0_conv)
qed

lemma parses_read_packed:
  assumes "forward (Suc 0) read" and "\<And>x. x \<in> set xs \<Longrightarrow> parses {} read (enc x) x"
    and "\<And>x. enc x \<noteq> []"
  shows "parses {n} (read_packed n read) (f_packed n enc xs) xs"
proof (cases "xs = []")
  case True
  have "read_packed n read (mk_reader pre rest e) = Return ([], mk_reader pre rest e)"
    if "next_ok {n} (length pre) e rest" for pre rest e
    using check_next_ok [OF that, of n wireType2] by (auto simp: read_packed_def read_field_def)
  then show ?thesis by (simp add: parses_def f_packed_def True)
next
  case False
  let ?bs = "concat (map enc xs)"
  let ?n = "of_nat (length ?bs) :: u64"
  have "parses {} (\<lambda>r. obind (readUInt r) (\<lambda>(arrayLength, r).
      let end' = wrap_int (int (r_index r) + sint arrayLength) in
      read_loop (loop_fuel r) (\<lambda>r. int (r_index r) < end') (some_item read) r)) (PutUvarint ?n @ ?bs) xs"
  proof (rule parsesI)
    fix pre rest :: bytes and e
    let ?pre = "pre @ PutUvarint ?n"
    assume l: "length pre + length (PutUvarint ?n @ ?bs) + length rest < 2 ^ 63"
      and e: "int (length pre + length (PutUvarint ?n @ ?bs)) \<le> e"
    have "readUInt (mk_reader pre ((PutUvarint ?n @ ?bs) @ rest) e) = Return (?n, mk_reader ?pre (?bs @ rest) e)"
      by (simp add: readUInt_def readUint_PutUvarint mk_reader_def)
    moreover have "wrap_int (int (length ?pre) + sint ?n) = int (length ?pre + length ?bs)"
    proof -
      have "length ?bs < 2 ^ 63" "int (length ?pre + length ?bs) < 2 ^ 63" using l by auto
      then show ?thesis by (simp only: sint_u64_of_nat of_nat_add wrap_int_id)
    qed
    moreover note read_packed_items [of read xs enc ?pre rest e, OF assms]
    ultimately show "obind (readUInt (mk_reader pre ((PutUvarint ?n @ ?bs) @ rest) e)) (\<lambda>(arrayLength, r).
        let end' = wrap_int (int (r_index r) + sint arrayLength) in
        read_loop (loop_fuel r) (\<lambda>r. int (r_index r) < end') (some_item read) r)
      = Return (xs, mk_reader (pre @ PutUvarint ?n @ ?bs) rest e)"
      using l e by (simp add: add.assoc)
  qed
  from parses_read_field [OF this, of wireType2 n False "[]"] show ?thesis
    using False by (auto simp: read_packed_def f_packed_def f_bytes_def intro: parses_mono)
qed

named_theorems reader_parses

lemma parses_Read [reader_parses]:
  "parses {} (ReadUInt n strict) (f_uint n u) u"
  "parses {} (ReadUInt32 n strict) (f_uint n (ucast v)) v"
  "parses {} (ReadBool n strict) (f_bool n b) b"
  "parses {} (ReadBytes n strict) (f_bytes n x) x"
proof -
  show uint: "parses {} (ReadUInt n strict) (f_uint n u) u" for u
    unfolding ReadUInt_def f_uint_def by (rule parses_read_field [OF parses_readUInt]) simp
  have "(ucast (ucast v :: u64) :: u32) = v" by (rule bit_word_eqI) (simp add: bit_simps)
  then show "parses {} (ReadUInt32 n strict) (f_uint n (ucast v)) v"
    using uint [of "ucast v"] by (simp add: parses_def ReadUInt32_def)
  show "parses {} (ReadBool n strict) (f_bool n b) b"
    unfolding ReadBool_def f_bool_def by (rule parses_read_field [OF parses_readBool]) simp
  show "parses {} (ReadBytes n strict) (f_bytes n x) x"
    unfolding ReadBytes_def f_bytes_def by (rule parses_read_field [OF parses_readBytes]) simp
qed

lemma parses_ReadInt [reader_parses]:
  "x \<noteq> 2 ^ 63 \<Longrightarrow> parses {} (ReadInt n strict) (f_int n x) x"
  unfolding ReadInt_def f_int_def by (rule parses_read_field [OF parses_readInt]) simp_all

lemma scast_u32_u64: "scast v \<noteq> (2 ^ 63 :: u64)" "ucast (scast v :: u64) = v" for v :: u32
proof -
  have "sint (scast v :: u64) = sint v" by (simp add: sint_up_scast is_up)
  moreover have "- (2 ^ 31) \<le> sint v" using sint_greater_eq [of v] by simp
  moreover have "sint (2 ^ 63 :: u64) = - (2 ^ 63)" by simp
  ultimately show "scast v \<noteq> (2 ^ 63 :: u64)" by auto
  show "ucast (scast v :: u64) = v" by (rule bit_word_eqI) (simp add: bit_simps)
qed

lemma parses_ReadInt32 [reader_parses]: "parses {} (ReadInt32 n strict) (f_int n (scast v)) v"
proof -
  have "parses {} (\<lambda>r. obind (readInt r) (\<lambda>(res, r). Return (ucast res, r))) (PutVarint (scast v)) v"
    using parses_readInt [OF scast_u32_u64(1), of "{}" v] by (simp add: parses_def scast_u32_u64(2))
  then show ?thesis unfolding ReadInt32_def f_int_def by (rule parses_read_field) simp
qed

lemma parses_ReadString:
  "utf8_Valid x \<Longrightarrow> is_normal x \<Longrightarrow> parses {} (ReadString is_normal n strict) (f_bytes n x) x"
  unfolding ReadString_def f_bytes_def by (rule parses_read_field [OF parses_readString]) simp_all

lemma parses_ReadUInts [reader_parses]: "parses {n} (ReadUInts n) (f_packed n PutUvarint us) us"
  unfolding ReadUInts_def
  by (rule parses_read_packed [OF forward_readUInt parses_readUInt PutUvarint_not_Nil])

lemma parses_ReadBytesArray [reader_parses]: "parses {n} (ReadBytesArray n) (f_array n xs) xs"
  unfolding ReadBytesArray_def f_array_def f_bytes_def
  by (rule parses_read_repeated [OF forward_weaken [OF forward_readBytes] parses_readBytes]) simp

lemma parses_ReadDecodable:
  "parses F dec bs v \<Longrightarrow> parses {} (ReadDecodable n c dec strict) (f_option n (Some bs)) v"
  unfolding ReadDecodable_def f_option_def
  using parses_read_field [OF parses_sub_decode, of F dec bs v wireType2 "{}" n strict c]
  by (simp add: f_bytes_def)

lemma parses_ReadDecodables:
  assumes "forward 0 dec" and "\<And>x. x \<in> set xs \<Longrightarrow> parses F dec (enc x) x"
  shows "parses {n} (ReadDecodables n dec) (f_array n (map enc xs)) xs"
  using parses_read_repeated [of "sub_decode dec" xs "\<lambda>x. PutUvarint (of_nat (length (enc x))) @ enc x" n]
    forward_weaken [OF forward_sub_decode [OF assms(1)]] parses_sub_decode [OF assms(2)]
  by (simp add: ReadDecodables_def f_array_def f_bytes_def comp_def)

lemma starts_field [reader_parses]:
  "n \<notin> F \<Longrightarrow> starts F (f_uint n u)" "n \<notin> F \<Longrightarrow> starts F (f_int n u)" "n \<notin> F \<Longrightarrow> starts F (f_bool n b)"
  "n \<notin> F \<Longrightarrow> starts F (f_bytes n x)" "n \<notin> F \<Longrightarrow> starts F (f_array n xs)"
  "n \<notin> F \<Longrightarrow> starts F (f_option n y)" "n \<notin> F \<Longrightarrow> starts F (f_packed n enc zs)" "starts F []"
  unfolding f_uint_def f_int_def f_bool_def f_array_def f_option_def f_packed_def f_bytes_def
  by (auto intro: starts_key starts_concat split: option.split simp: starts_def [of F "[]"])

section \<open>Accepting only what was written\<close>

text \<open>\<open>reads read P\<close>: whenever \<open>read\<close> succeeds, \<open>P\<close> holds of the bytes it consumed and its value.\<close>

definition reads :: "'a rd \<Rightarrow> (bytes \<Rightarrow> 'a \<Rightarrow> bool) \<Rightarrow> bool" where
  "reads read P \<longleftrightarrow>
     (\<forall>r v r'. placed r \<longrightarrow> read r = Return (v, r') \<longrightarrow>
        (\<exists>bs. drop (r_index r) (r_data r) = bs @ drop (r_index r') (r_data r')
           \<and> r_index r' = r_index r + length bs \<and> r_data r' = r_data r \<and> r_end r' = r_end r \<and> placed r'
           \<and> P bs v))"

lemma readsD:
  assumes "reads read P" "placed r" "read r = Return (v, r')"
  obtains bs where "drop (r_index r) (r_data r) = bs @ drop (r_index r') (r_data r')"
    "r_index r' = r_index r + length bs" "r_data r' = r_data r" "r_end r' = r_end r" "placed r'" "P bs v"
  using assms unfolding reads_def by blast

lemma reads_bind:
  assumes "reads read P" and "\<And>x. reads (k x) (Q x)"
  shows "reads (\<lambda>r. obind (read r) (\<lambda>(x, r). k x r)) (\<lambda>bs w. \<exists>x b1 b2. bs = b1 @ b2 \<and> P b1 x \<and> Q x b2 w)"
  unfolding reads_def
proof (intro allI impI)
  fix r v r' assume "placed r" and "obind (read r) (\<lambda>(x, r). k x r) = Return (v, r')"
  then obtain x r1 where 1: "read r = Return (x, r1)" and 2: "k x r1 = Return (v, r')"
    by (auto simp: outcome_eq)
  obtain b1 where b1: "drop (r_index r) (r_data r) = b1 @ drop (r_index r1) (r_data r1)"
    "r_index r1 = r_index r + length b1" "r_data r1 = r_data r" "r_end r1 = r_end r" "placed r1" "P b1 x"
    using readsD [OF assms(1) \<open>placed r\<close> 1] .
  obtain b2 where b2: "drop (r_index r1) (r_data r1) = b2 @ drop (r_index r') (r_data r')"
    "r_index r' = r_index r1 + length b2" "r_data r' = r_data r1" "r_end r' = r_end r1" "placed r'" "Q x b2 v"
    using readsD [OF assms(2) b1(5) 2] .
  show "\<exists>bs. drop (r_index r) (r_data r) = bs @ drop (r_index r') (r_data r')
      \<and> r_index r' = r_index r + length bs \<and> r_data r' = r_data r \<and> r_end r' = r_end r \<and> placed r'
      \<and> (\<exists>x b1 b2. bs = b1 @ b2 \<and> P b1 x \<and> Q x b2 v)"
    using b1 b2 by (intro exI [of _ "b1 @ b2"]) auto
qed

lemma reads_return: "reads (\<lambda>r. Return (v, r)) (\<lambda>bs w. bs = [] \<and> w = v)"
  by (auto simp: reads_def)

lemma reads_mono: "reads read P \<Longrightarrow> (\<And>bs v. P bs v \<Longrightarrow> Q bs v) \<Longrightarrow> reads read Q"
  unfolding reads_def by blast

lemma reads_readUInt: "reads readUInt (\<lambda>bs v. bs = PutUvarint v)"
  unfolding reads_def
proof (intro allI impI)
  fix r v r' assume "readUInt r = Return (v, r')"
  then obtain n where n: "readUint (r_data r) (r_index r) = Return (v, n)" "r' = r\<lparr>r_index := r_index r + n\<rparr>"
    by (auto simp: readUInt_def outcome_eq)
  show "\<exists>bs. drop (r_index r) (r_data r) = bs @ drop (r_index r') (r_data r')
      \<and> r_index r' = r_index r + length bs \<and> r_data r' = r_data r \<and> r_end r' = r_end r \<and> placed r'
      \<and> bs = PutUvarint v"
    using readUint_sound [OF n(1)] n(2) append_take_drop_id [of n "drop (r_index r) (r_data r)"]
    by (simp add: placed_def add.commute)
qed

lemma reads_readBytes: "reads readBytes (\<lambda>bs v. bs = PutUvarint (of_nat (length v)) @ v)"
proof -
  have "reads (\<lambda>r. let remaining = length (r_data r) - r_index r in
       if of_nat remaining < n then Error ErrInvalidByteSize
       else Return (take (unat n) (drop (r_index r) (r_data r)), r\<lparr>r_index := r_index r + unat n\<rparr>))
      (\<lambda>bs v. bs = v \<and> of_nat (length v) = n)" for n :: u64
    unfolding reads_def
  proof (intro allI impI)
    fix r v r' assume "placed r" and ret: "(let remaining = length (r_data r) - r_index r in
       if of_nat remaining < n then Error ErrInvalidByteSize
       else Return (take (unat n) (drop (r_index r) (r_data r)), r\<lparr>r_index := r_index r + unat n\<rparr>)) = Return (v, r')"
    then have le: "unat n \<le> length (r_data r) - r_index r"
      by (simp add: Let_def word_less_nat_alt not_less unat_of_nat split: if_splits)
    show "\<exists>bs. drop (r_index r) (r_data r) = bs @ drop (r_index r') (r_data r')
      \<and> r_index r' = r_index r + length bs \<and> r_data r' = r_data r \<and> r_end r' = r_end r \<and> placed r'
      \<and> bs = v \<and> of_nat (length v) = n"
      using ret le \<open>placed r\<close> append_take_drop_id [of "unat n" "drop (r_index r) (r_data r)"]
      by (auto simp: Let_def placed_def min_def add.commute split: if_splits)
  qed
  from reads_bind [OF reads_readUInt this]
  show ?thesis unfolding readBytes_def by (rule reads_mono) auto
qed

lemma reads_readString:
  "reads (readString is_normal)
     (\<lambda>bs v. bs = PutUvarint (of_nat (length v)) @ v \<and> utf8_Valid v \<and> is_normal v)"
  using reads_readBytes unfolding reads_def readString_def
  by (auto simp: outcome_eq split: if_splits)

lemma reads_check:
  assumes "t \<in> wire_types"
  shows "reads (\<lambda>r. obind (check n t r) (\<lambda>r. Return ((), r))) (\<lambda>bs _. bs = key_bytes t n)"
  unfolding reads_def
proof (intro allI impI)
  fix r v r' assume "placed r" "obind (check n t r) (\<lambda>r. Return ((), r)) = Return (v, r')"
  then obtain k m where k: "readUint (r_data r) (r_index r) = Return (k, m)"
    "readKey (sint k) = Return (uint n, uint t)" "r' = r\<lparr>r_index := r_index r + m\<rparr>"
    by (auto simp: check_def peekKey_def outcome_eq split: if_splits)
  then have "readUInt r = Return (k, r')" by (simp add: readUInt_def)
  from readsD [OF reads_readUInt \<open>placed r\<close> this] key_unique [OF assms k(2)]
  show "\<exists>bs. drop (r_index r) (r_data r) = bs @ drop (r_index r') (r_data r')
      \<and> r_index r' = r_index r + length bs \<and> r_data r' = r_data r \<and> r_end r' = r_end r \<and> placed r'
      \<and> bs = key_bytes t n"
    by metis
qed

lemma reads_read_field:
  assumes "reads read P" and "t \<in> wire_types"
  shows "reads (read_field n t True d read) (\<lambda>bs v. \<exists>b. bs = key_bytes t n @ b \<and> P b v)"
proof -
  have "read_field n t True d read = (\<lambda>r. obind (obind (check n t r) (\<lambda>r. Return ((), r))) (\<lambda>(x, r). read r))"
    by (auto simp: read_field_def split: outcome.split)
  with reads_bind [OF reads_check [OF assms(2)] assms(1), of n] show ?thesis by simp
qed

lemma reads_if: "reads f P \<Longrightarrow> reads g P \<Longrightarrow> reads (\<lambda>r. if c r then f r else g r) P"
  unfolding reads_def by auto

lemma reads_field_item:
  assumes "reads read (\<lambda>bs v. bs = enc v \<and> Q v)"
  shows "reads (field_item n read)
           (\<lambda>bs x. case x of None \<Rightarrow> bs = [] | Some v \<Rightarrow> bs = key_bytes wireType2 n @ enc v \<and> Q v)"
  unfolding reads_def
proof (intro allI impI)
  fix r x r' assume p: "placed r" and ret: "field_item n read r = Return (x, r')"
  show "\<exists>bs. drop (r_index r) (r_data r) = bs @ drop (r_index r') (r_data r')
      \<and> r_index r' = r_index r + length bs \<and> r_data r' = r_data r \<and> r_end r' = r_end r \<and> placed r'
      \<and> (case x of None \<Rightarrow> bs = [] | Some v \<Rightarrow> bs = key_bytes wireType2 n @ enc v \<and> Q v)"
  proof (cases x)
    case None
    then have "r' = r" using ret by (auto simp: field_item_Return split: outcome.splits)
    then show ?thesis using p None by auto
  next
    case (Some v)
    then have "read_field n wireType2 True v read r = Return (v, r')"
      using ret by (auto simp: field_item_Return read_field_def split: outcome.splits)
    then obtain bs where "drop (r_index r) (r_data r) = bs @ drop (r_index r') (r_data r')"
      "r_index r' = r_index r + length bs" "r_data r' = r_data r" "r_end r' = r_end r" "placed r'"
      "\<exists>b. bs = key_bytes wireType2 n @ b \<and> b = enc v \<and> Q v"
      by (rule readsD [OF reads_read_field [OF assms wire_types(2)] p])
    then show ?thesis using Some by auto
  qed
qed

lemma reads_read_repeated:
  assumes "reads read (\<lambda>bs v. bs = enc v \<and> Q v)"
  shows "reads (read_repeated n read)
           (\<lambda>bs vs. bs = concat (map (\<lambda>v. key_bytes wireType2 n @ enc v) vs) \<and> list_all Q vs)"
proof -
  let ?P = "\<lambda>bs vs. bs = concat (map (\<lambda>v. key_bytes wireType2 n @ enc v) vs) \<and> list_all Q vs"
  have "reads (\<lambda>r. read_loop fuel cont (field_item n read) r) ?P" for fuel cont
  proof (induction fuel)
    case (Suc fuel)
    have "reads (\<lambda>r. case x of None \<Rightarrow> Return ([], r)
          | Some v \<Rightarrow> obind (read_loop fuel cont (field_item n read) r) (\<lambda>(vs, r). Return (v # vs, r)))
        (\<lambda>bs vs. case x of None \<Rightarrow> bs = [] \<and> vs = []
          | Some v \<Rightarrow> \<exists>vs'. vs = v # vs' \<and> ?P bs vs')" for x
    proof (cases x)
      case (Some v)
      then show ?thesis by simp (rule reads_mono [OF reads_bind [OF Suc reads_return]], auto)
    qed (simp add: reads_return)
    from reads_bind [OF reads_field_item [OF assms] this]
    have "reads (\<lambda>r. obind (field_item n read r) (\<lambda>(x, r). case x of None \<Rightarrow> Return ([], r)
          | Some v \<Rightarrow> obind (read_loop fuel cont (field_item n read) r) (\<lambda>(vs, r). Return (v # vs, r)))) ?P"
      by (rule reads_mono) (auto split: option.splits)
    moreover have "reads (\<lambda>r. Return ([], r)) ?P"
      by (rule reads_mono [OF reads_return]) simp
    ultimately show ?case by (simp add: reads_if)
  qed (simp add: reads_def)
  then show ?thesis unfolding reads_def read_repeated_def by blast
qed

lemma reads_Read:
  "reads (ReadUInt n True) (\<lambda>bs v. bs = f_uint n v)"
  "reads (ReadBytes n True) (\<lambda>bs v. bs = f_bytes n v)"
  "reads (ReadString is_normal n True) (\<lambda>bs v. bs = f_bytes n v \<and> utf8_Valid v \<and> is_normal v)"
  "reads (ReadBytesArray n) (\<lambda>bs vs. bs = f_array n vs)"
proof -
  show "reads (ReadUInt n True) (\<lambda>bs v. bs = f_uint n v)"
    unfolding ReadUInt_def f_uint_def using reads_read_field [OF reads_readUInt wire_types(1)] by simp
  show "reads (ReadBytes n True) (\<lambda>bs v. bs = f_bytes n v)"
    unfolding ReadBytes_def f_bytes_def using reads_read_field [OF reads_readBytes wire_types(2)] by simp
  show "reads (ReadString is_normal n True) (\<lambda>bs v. bs = f_bytes n v \<and> utf8_Valid v \<and> is_normal v)"
    unfolding ReadString_def f_bytes_def
    by (rule reads_mono [OF reads_read_field [OF reads_readString wire_types(2)]]) auto
  show "reads (ReadBytesArray n) (\<lambda>bs vs. bs = f_array n vs)"
    unfolding ReadBytesArray_def f_array_def f_bytes_def
    by (rule reads_mono [OF reads_read_repeated [where Q = "\<lambda>_. True"]]) (simp_all add: reads_readBytes)
qed

section \<open>Messages\<close>

text \<open>
  The generated \<^verbatim>\<open>Decode\<close> and \<^verbatim>\<open>DecodeStrict\<close> methods differ only in the reads they call.
\<close>

definition decode_with :: "'a rd \<Rightarrow> bytes \<Rightarrow> (codec_error, 'a) outcome" where
  "decode_with DecodeFromReader buf =
     obind (DecodeFromReader (NewReader buf)) (\<lambda>(e, reader). Return e)"

definition decode_strict_with :: "'a rd \<Rightarrow> bytes \<Rightarrow> (codec_error, 'a) outcome" where
  "decode_strict_with DecodeStrictFromReader buf =
     obind (DecodeStrictFromReader (NewReader buf)) (\<lambda>(e, reader).
       if HasUnreadBytes reader then Error ErrUnreadBytes else Return e)"

lemma NewReader_mk: "NewReader buf = mk_reader [] buf (int (length buf))"
  by (simp add: NewReader_def mk_reader_def)

lemma decode_strict_reads:
  assumes "reads read P" and "decode_strict_with read buf = Return v"
  shows "P buf v"
proof -
  obtain r where r: "read (NewReader buf) = Return (v, r)" "int (r_index r) = r_end r"
    using assms(2) by (auto simp: decode_strict_with_def HasUnreadBytes_def outcome_eq split: if_splits)
  have "placed (NewReader buf)" by (simp add: NewReader_mk)
  then obtain bs where bs: "drop 0 buf = bs @ drop (r_index r) (r_data r)"
    and "r_end r = int (length buf)" "r_data r = buf" "P bs v"
    using readsD [OF assms(1) _ r(1)] by (metis NewReader_def Reader.select_convs)
  moreover from this have "drop (r_index r) (r_data r) = []" using r(2) by simp
  ultimately show ?thesis by simp
qed

lemma decode_no_panic: "no_panic read \<Longrightarrow> decode_with read buf \<noteq> Panic"
  and decode_strict_no_panic: "no_panic read \<Longrightarrow> decode_strict_with read buf \<noteq> Panic"
  by (auto simp: decode_with_def decode_strict_with_def no_panic_def NewReader_mk outcome_eq)

text \<open>
  A string survives the round trip when it is valid UTF-8 in normal form; \<open>nfc\<close> leaves it as it is.
\<close>

definition text_ok :: "(bytes \<Rightarrow> bytes) \<Rightarrow> (bytes \<Rightarrow> bool) \<Rightarrow> bytes \<Rightarrow> bool" where
  "text_ok nfc is_normal x \<longleftrightarrow> utf8_Valid x \<and> is_normal x \<and> nfc x = x"

lemma parses_text:
  "text_ok nfc is_normal x \<Longrightarrow> parses {} (ReadString is_normal n strict) (f_bytes n (nfc x)) x"
  by (simp add: text_ok_def parses_ReadString)

lemma parses_last:
  "parses F read bs v \<Longrightarrow> g v = w \<Longrightarrow> parses F (\<lambda>r. obind (read r) (\<lambda>(x, r). Return (g x, r))) bs w"
  by (auto simp: parses_def)

lemma parses_UNIV: "parses F read bs v \<Longrightarrow> parses UNIV read bs v"
  by (erule parses_mono) simp

lemma forward_bind_fields:
  assumes "forward 0 read" and "\<And>x. forward 0 (k x)"
  shows "forward 0 (\<lambda>r. obind (read r) (\<lambda>(x, r). k x r))"
  by (rule forward_bind0 [OF assms])

lemma no_panic_bind_fields:
  assumes "forward 0 read" and "no_panic read" and "\<And>x. no_panic (k x)"
  shows "no_panic (\<lambda>r. obind (read r) (\<lambda>(x, r). k x r))"
  by (rule no_panic_bind [OF assms])

lemmas reader_rules = forward_bind_fields forward_return reader_forward

lemmas panic_rules = no_panic_bind_fields no_panic_return reader_no_panic reader_forward

lemmas parse_rules = parses_last parses_bind reader_parses starts_append

locale message =
  fixes encode :: "'a \<Rightarrow> bytes" and read :: "bool \<Rightarrow> 'a rd" and wf :: "'a \<Rightarrow> bool"
  assumes read_forward: "forward 0 (read strict)"
    and read_encode: "wf x \<Longrightarrow> parses UNIV (read strict) (encode x) x"
begin

lemma read_top:
  assumes "wf x" "length (encode x) < 2 ^ 63"
  shows "read strict (NewReader (encode x)) = Return (x, mk_reader (encode x) [] (int (length (encode x))))"
  using parsesD [OF read_encode [OF assms(1)], of "[]" "[]" "int (length (encode x))" strict] assms(2)
  by (simp add: NewReader_mk next_ok_def)

lemma decode_encode: "wf x \<Longrightarrow> length (encode x) < 2 ^ 63 \<Longrightarrow> decode_with (read False) (encode x) = Return x"
  by (simp add: decode_with_def read_top)

lemma decode_strict_encode:
  "wf x \<Longrightarrow> length (encode x) < 2 ^ 63 \<Longrightarrow> decode_strict_with (read True) (encode x) = Return x"
  by (simp add: decode_strict_with_def read_top HasUnreadBytes_def)

lemma encode_inject:
  "wf x \<Longrightarrow> wf y \<Longrightarrow> length (encode x) < 2 ^ 63 \<Longrightarrow> encode x = encode y \<Longrightarrow> x = y"
  using decode_encode by (metis outcome.inject(1))

lemma parses_nested:
  "x \<noteq> None \<Longrightarrow> wf (the x) \<Longrightarrow>
   parses {} (ReadDecodable n c (read False) strict) (f_option n (map_option encode x)) (the x)"
  using parses_ReadDecodable [OF read_encode] by auto

lemma parses_nested_list:
  "list_all wf xs \<Longrightarrow> parses {n} (ReadDecodables n (read False)) (f_array n (map encode xs)) xs"
  by (rule parses_ReadDecodables [OF read_forward read_encode]) (auto simp: list_all_iff)

end

sublocale message < decoder "read strict" for strict
  by unfold_locales (rule read_forward)

end
