(* ===== verification/Blockchain_Codec.thy ===== *)
theory Blockchain_Codec
  imports Codec_Laws
begin

text \<open>
  The messages of \<^verbatim>\<open>pkg/blockchain\<close>: the structs, and the \<^verbatim>\<open>Encode\<close>,
  \<^verbatim>\<open>DecodeFromReader\<close> and \<^verbatim>\<open>DecodeStrictFromReader\<close> methods of \<^verbatim>\<open>block_codec.go\<close>,
  \<^verbatim>\<open>transaction_codec.go\<close>, \<^verbatim>\<open>event_codec.go\<close> and \<^verbatim>\<open>data_access_codec.go\<close>.  For each message
  \<open>T\<close> the record \<open>T\<close> is the struct, \<open>T_Encode\<close> the encoder, \<open>T_read strict\<close> the two decoders (they
  differ in the flag they pass to every read), \<open>T_zero\<close> the value of \<^verbatim>\<open>new(T)\<close>, and \<open>T_wf\<close> says which
  values survive the round trip; each is an instance of the locale \<open>message\<close>.
  A pointer field is an option; the slices of pointers hold no nil.
  Fields without a field number (\<^verbatim>\<open>ID\<close>, \<^verbatim>\<open>size\<close>) are not encoded.
\<close>

section \<open>Messages\<close>

subsection \<open>RawBlock\<close>

record RawBlock =
  rb_Header :: bytes
  rb_Transactions :: "bytes list"
  rb_Assets :: "bytes list"

definition RawBlock_zero :: RawBlock where
  "RawBlock_zero =
     \<lparr>rb_Header = [], rb_Transactions = [], rb_Assets = []\<rparr>"

definition RawBlock_Encode :: "RawBlock \<Rightarrow> bytes" where
  "RawBlock_Encode e =
     write_all
       [WriteBytes 1 (rb_Header e),
        WriteBytesArray 2 (rb_Transactions e),
        WriteBytesArray 3 (rb_Assets e)]"

definition RawBlock_read :: "bool \<Rightarrow> RawBlock rd" where
  "RawBlock_read strict = (\<lambda>r.
     obind (ReadBytes 1 strict r) (\<lambda>(v1, r).
     obind (ReadBytesArray 2 r) (\<lambda>(v2, r).
     obind (ReadBytesArray 3 r) (\<lambda>(v3, r).
       Return
         (\<lparr>rb_Header = v1, rb_Transactions = v2, rb_Assets = v3\<rparr>, r)))))"

interpretation rb_msg: message RawBlock_Encode RawBlock_read "\<lambda>_. True"
proof
  fix strict and e :: RawBlock
  show "forward 0 (RawBlock_read strict)"
    unfolding RawBlock_read_def by (intro reader_rules)
  assume wf: "True"
  show "parses UNIV (RawBlock_read strict) (RawBlock_Encode e) e"
    unfolding RawBlock_Encode_def RawBlock_read_def write_all_eq
    by (rule parses_UNIV) (rule parse_rules | simp)+
qed

definition RawBlock_Decode :: "bytes \<Rightarrow> (codec_error, RawBlock) outcome" where
  "RawBlock_Decode buf = decode_with (RawBlock_read False) buf"

definition RawBlock_DecodeStrict :: "bytes \<Rightarrow> (codec_error, RawBlock) outcome" where
  "RawBlock_DecodeStrict buf = decode_strict_with (RawBlock_read True) buf"

subsection \<open>AggregateCommit\<close>

record AggregateCommit =
  ac_Height :: u32
  ac_AggregationBits :: bytes
  ac_CertificateSignature :: bytes

definition AggregateCommit_zero :: AggregateCommit where
  "AggregateCommit_zero =
     \<lparr>ac_Height = 0, ac_AggregationBits = [], ac_CertificateSignature = []\<rparr>"

definition AggregateCommit_Encode :: "AggregateCommit \<Rightarrow> bytes" where
  "AggregateCommit_Encode e =
     write_all
       [WriteUInt32 1 (ac_Height e),
        WriteBytes 2 (ac_AggregationBits e),
        WriteBytes 3 (ac_CertificateSignature e)]"

definition AggregateCommit_read :: "bool \<Rightarrow> AggregateCommit rd" where
  "AggregateCommit_read strict = (\<lambda>r.
     obind (ReadUInt32 1 strict r) (\<lambda>(v1, r).
     obind (ReadBytes 2 strict r) (\<lambda>(v2, r).
     obind (ReadBytes 3 strict r) (\<lambda>(v3, r).
       Return
         (\<lparr>ac_Height = v1, ac_AggregationBits = v2, ac_CertificateSignature = v3\<rparr>, r)))))"

interpretation ac_msg: message AggregateCommit_Encode AggregateCommit_read "\<lambda>_. True"
proof
  fix strict and e :: AggregateCommit
  show "forward 0 (AggregateCommit_read strict)"
    unfolding AggregateCommit_read_def by (intro reader_rules)
  assume wf: "True"
  show "parses UNIV (AggregateCommit_read strict) (AggregateCommit_Encode e) e"
    unfolding AggregateCommit_Encode_def AggregateCommit_read_def write_all_eq
    by (rule parses_UNIV) (rule parse_rules | simp)+
qed

definition AggregateCommit_Decode :: "bytes \<Rightarrow> (codec_error, AggregateCommit) outcome" where
  "AggregateCommit_Decode buf = decode_with (AggregateCommit_read False) buf"

definition AggregateCommit_DecodeStrict :: "bytes \<Rightarrow> (codec_error, AggregateCommit) outcome" where
  "AggregateCommit_DecodeStrict buf = decode_strict_with (AggregateCommit_read True) buf"

subsection \<open>BlockHeader\<close>

record BlockHeader =
  bh_ID :: bytes
  bh_Version :: u32
  bh_Timestamp :: u32
  bh_Height :: u32
  bh_PreviousBlockID :: bytes
  bh_GeneratorAddress :: bytes
  bh_TransactionRoot :: bytes
  bh_AssetRoot :: bytes
  bh_EventRoot :: bytes
  bh_StateRoot :: bytes
  bh_MaxHeightPrevoted :: u32
  bh_MaxHeightGenerated :: u32
  bh_ImpliesMaxPrevotes :: bool
  bh_ValidatorsHash :: bytes
  bh_AggregateCommit :: "AggregateCommit option"
  bh_Signature :: bytes

definition BlockHeader_zero :: BlockHeader where
  "BlockHeader_zero =
     \<lparr>bh_ID = [], bh_Version = 0, bh_Timestamp = 0, bh_Height = 0, bh_PreviousBlockID = [],
        bh_GeneratorAddress = [], bh_TransactionRoot = [], bh_AssetRoot = [], bh_EventRoot = [],
        bh_StateRoot = [], bh_MaxHeightPrevoted = 0, bh_MaxHeightGenerated = 0,
        bh_ImpliesMaxPrevotes = False, bh_ValidatorsHash = [], bh_AggregateCommit = None,
        bh_Signature = []\<rparr>"

definition BlockHeader_Encode :: "BlockHeader \<Rightarrow> bytes" where
  "BlockHeader_Encode e =
     write_all
       [WriteUInt32 1 (bh_Version e),
        WriteUInt32 2 (bh_Timestamp e),
        WriteUInt32 3 (bh_Height e),
        WriteBytes 4 (bh_PreviousBlockID e),
        WriteBytes 5 (bh_GeneratorAddress e),
        WriteBytes 6 (bh_TransactionRoot e),
        WriteBytes 7 (bh_AssetRoot e),
        WriteBytes 8 (bh_EventRoot e),
        WriteBytes 9 (bh_StateRoot e),
        WriteUInt32 10 (bh_MaxHeightPrevoted e),
        WriteUInt32 11 (bh_MaxHeightGenerated e),
        WriteBool 12 (bh_ImpliesMaxPrevotes e),
        WriteBytes 13 (bh_ValidatorsHash e),
        WriteEncodable 14 (map_option AggregateCommit_Encode (bh_AggregateCommit e)),
        WriteBytes 15 (bh_Signature e)]"

definition BlockHeader_read :: "bool \<Rightarrow> BlockHeader rd" where
  "BlockHeader_read strict = (\<lambda>r.
     obind (ReadUInt32 1 strict r) (\<lambda>(v1, r).
     obind (ReadUInt32 2 strict r) (\<lambda>(v2, r).
     obind (ReadUInt32 3 strict r) (\<lambda>(v3, r).
     obind (ReadBytes 4 strict r) (\<lambda>(v4, r).
     obind (ReadBytes 5 strict r) (\<lambda>(v5, r).
     obind (ReadBytes 6 strict r) (\<lambda>(v6, r).
     obind (ReadBytes 7 strict r) (\<lambda>(v7, r).
     obind (ReadBytes 8 strict r) (\<lambda>(v8, r).
     obind (ReadBytes 9 strict r) (\<lambda>(v9, r).
     obind (ReadUInt32 10 strict r) (\<lambda>(v10, r).
     obind (ReadUInt32 11 strict r) (\<lambda>(v11, r).
     obind (ReadBool 12 strict r) (\<lambda>(v12, r).
     obind (ReadBytes 13 strict r) (\<lambda>(v13, r).
     obind (ReadDecodable 14 AggregateCommit_zero (AggregateCommit_read False) strict r) (\<lambda>(v14, r).
     obind (ReadBytes 15 strict r) (\<lambda>(v15, r).
       Return
         (\<lparr>bh_ID = [], bh_Version = v1, bh_Timestamp = v2, bh_Height = v3, bh_PreviousBlockID = v4,
           bh_GeneratorAddress = v5, bh_TransactionRoot = v6, bh_AssetRoot = v7, bh_EventRoot = v8,
           bh_StateRoot = v9, bh_MaxHeightPrevoted = v10, bh_MaxHeightGenerated = v11,
           bh_ImpliesMaxPrevotes = v12, bh_ValidatorsHash = v13, bh_AggregateCommit = Some v14,
           bh_Signature = v15\<rparr>, r)))))))))))))))))"

definition BlockHeader_wf :: "BlockHeader \<Rightarrow> bool" where
  "BlockHeader_wf e \<longleftrightarrow>
     bh_ID e = []
     \<and> bh_AggregateCommit e \<noteq> None"

interpretation bh_msg: message BlockHeader_Encode BlockHeader_read BlockHeader_wf
proof
  fix strict and e :: BlockHeader
  show "forward 0 (BlockHeader_read strict)"
    unfolding BlockHeader_read_def by (intro reader_rules ac_msg.forward_ReadDecodable)
  assume wf: "BlockHeader_wf e"
  show "parses UNIV (BlockHeader_read strict) (BlockHeader_Encode e) e"
    unfolding BlockHeader_Encode_def BlockHeader_read_def write_all_eq
    by (rule parses_UNIV) (rule parse_rules ac_msg.parses_nested | use wf in \<open>simp add: BlockHeader_wf_def\<close>)+
qed

definition BlockHeader_Decode :: "bytes \<Rightarrow> (codec_error, BlockHeader) outcome" where
  "BlockHeader_Decode buf = decode_with (BlockHeader_read False) buf"

definition BlockHeader_DecodeStrict :: "bytes \<Rightarrow> (codec_error, BlockHeader) outcome" where
  "BlockHeader_DecodeStrict buf = decode_strict_with (BlockHeader_read True) buf"

subsection \<open>signingBlockHeader\<close>

record signingBlockHeader =
  sbh_Version :: u32
  sbh_Timestamp :: u32
  sbh_Height :: u32
  sbh_PreviousBlockID :: bytes
  sbh_GeneratorAddress :: bytes
  sbh_TransactionRoot :: bytes
  sbh_AssetRoot :: bytes
  sbh_EventRoot :: bytes
  sbh_StateRoot :: bytes
  sbh_MaxHeightPrevoted :: u32
  sbh_MaxHeightGenerated :: u32
  sbh_ImpliesMaxPrevotes :: bool
  sbh_ValidatorsHash :: bytes
  sbh_AggregateCommit :: "AggregateCommit option"

definition signingBlockHeader_zero :: signingBlockHeader where
  "signingBlockHeader_zero =
     \<lparr>sbh_Version = 0, sbh_Timestamp = 0, sbh_Height = 0, sbh_PreviousBlockID = [],
        sbh_GeneratorAddress = [], sbh_TransactionRoot = [], sbh_AssetRoot = [],
        sbh_EventRoot = [], sbh_StateRoot = [], sbh_MaxHeightPrevoted = 0,
        sbh_MaxHeightGenerated = 0, sbh_ImpliesMaxPrevotes = False, sbh_ValidatorsHash = [],
        sbh_AggregateCommit = None\<rparr>"

definition signingBlockHeader_Encode :: "signingBlockHeader \<Rightarrow> bytes" where
  "signingBlockHeader_Encode e =
     write_all
       [WriteUInt32 1 (sbh_Version e),
        WriteUInt32 2 (sbh_Timestamp e),
        WriteUInt32 3 (sbh_Height e),
        WriteBytes 4 (sbh_PreviousBlockID e),
        WriteBytes 5 (sbh_GeneratorAddress e),
        WriteBytes 6 (sbh_TransactionRoot e),
        WriteBytes 7 (sbh_AssetRoot e),
        WriteBytes 8 (sbh_EventRoot e),
        WriteBytes 9 (sbh_StateRoot e),
        WriteUInt32 10 (sbh_MaxHeightPrevoted e),
        WriteUInt32 11 (sbh_MaxHeightGenerated e),
        WriteBool 12 (sbh_ImpliesMaxPrevotes e),
        WriteBytes 13 (sbh_ValidatorsHash e),
        WriteEncodable 14 (map_option AggregateCommit_Encode (sbh_AggregateCommit e))]"

definition signingBlockHeader_read :: "bool \<Rightarrow> signingBlockHeader rd" where
  "signingBlockHeader_read strict = (\<lambda>r.
     obind (ReadUInt32 1 strict r) (\<lambda>(v1, r).
     obind (ReadUInt32 2 strict r) (\<lambda>(v2, r).
     obind (ReadUInt32 3 strict r) (\<lambda>(v3, r).
     obind (ReadBytes 4 strict r) (\<lambda>(v4, r).
     obind (ReadBytes 5 strict r) (\<lambda>(v5, r).
     obind (ReadBytes 6 strict r) (\<lambda>(v6, r).
     obind (ReadBytes 7 strict r) (\<lambda>(v7, r).
     obind (ReadBytes 8 strict r) (\<lambda>(v8, r).
     obind (ReadBytes 9 strict r) (\<lambda>(v9, r).
     obind (ReadUInt32 10 strict r) (\<lambda>(v10, r).
     obind (ReadUInt32 11 strict r) (\<lambda>(v11, r).
     obind (ReadBool 12 strict r) (\<lambda>(v12, r).
     obind (ReadBytes 13 strict r) (\<lambda>(v13, r).
     obind (ReadDecodable 14 AggregateCommit_zero (AggregateCommit_read False) strict r) (\<lambda>(v14, r).
       Return
         (\<lparr>sbh_Version = v1, sbh_Timestamp = v2, sbh_Height = v3, sbh_PreviousBlockID = v4,
           sbh_GeneratorAddress = v5, sbh_TransactionRoot = v6, sbh_AssetRoot = v7,
           sbh_EventRoot = v8, sbh_StateRoot = v9, sbh_MaxHeightPrevoted = v10,
           sbh_MaxHeightGenerated = v11, sbh_ImpliesMaxPrevotes = v12, sbh_ValidatorsHash = v13,
           sbh_AggregateCommit = Some v14\<rparr>, r))))))))))))))))"

definition signingBlockHeader_wf :: "signingBlockHeader \<Rightarrow> bool" where
  "signingBlockHeader_wf e \<longleftrightarrow>
     sbh_AggregateCommit e \<noteq> None"

interpretation sbh_msg: message signingBlockHeader_Encode signingBlockHeader_read signingBlockHeader_wf
proof
  fix strict and e :: signingBlockHeader
  show "forward 0 (signingBlockHeader_read strict)"
    unfolding signingBlockHeader_read_def by (intro reader_rules ac_msg.forward_ReadDecodable)
  assume wf: "signingBlockHeader_wf e"
  show "parses UNIV (signingBlockHeader_read strict) (signingBlockHeader_Encode e) e"
    unfolding signingBlockHeader_Encode_def signingBlockHeader_read_def write_all_eq
    by (rule parses_UNIV) (rule parse_rules ac_msg.parses_nested | use wf in \<open>simp add: signingBlockHeader_wf_def\<close>)+
qed

definition signingBlockHeader_Decode :: "bytes \<Rightarrow> (codec_error, signingBlockHeader) outcome" where
  "signingBlockHeader_Decode buf = decode_with (signingBlockHeader_read False) buf"

definition signingBlockHeader_DecodeStrict :: "bytes \<Rightarrow> (codec_error, signingBlockHeader) outcome" where
  "signingBlockHeader_DecodeStrict buf = decode_strict_with (signingBlockHeader_read True) buf"

subsection \<open>BlockAsset\<close>

record BlockAsset =
  ba_Module :: bytes
  ba_Data :: bytes

definition BlockAsset_zero :: BlockAsset where
  "BlockAsset_zero =
     \<lparr>ba_Module = [], ba_Data = []\<rparr>"

definition BlockAsset_Encode :: "(bytes \<Rightarrow> bytes) \<Rightarrow> BlockAsset \<Rightarrow> bytes" where
  "BlockAsset_Encode nfc e =
     write_all
       [WriteString nfc 1 (ba_Module e),
        WriteBytes 2 (ba_Data e)]"

definition BlockAsset_read :: "(bytes \<Rightarrow> bool) \<Rightarrow> bool \<Rightarrow> BlockAsset rd" where
  "BlockAsset_read is_normal strict = (\<lambda>r.
     obind (ReadString is_normal 1 strict r) (\<lambda>(v1, r).
     obind (ReadBytes 2 strict r) (\<lambda>(v2, r).
       Return
         (\<lparr>ba_Module = v1, ba_Data = v2\<rparr>, r))))"

definition BlockAsset_wf :: "(bytes \<Rightarrow> bytes) \<Rightarrow> (bytes \<Rightarrow> bool) \<Rightarrow> BlockAsset \<Rightarrow> bool" where
  "BlockAsset_wf nfc is_normal e \<longleftrightarrow>
     text_ok nfc is_normal (ba_Module e)"

interpretation ba_msg: message "BlockAsset_Encode nfc" "BlockAsset_read is_normal" "BlockAsset_wf nfc is_normal" for nfc is_normal
proof
  fix strict and e :: BlockAsset
  show "forward 0 (BlockAsset_read is_normal strict)"
    unfolding BlockAsset_read_def by (intro reader_rules)
  assume wf: "BlockAsset_wf nfc is_normal e"
  show "parses UNIV (BlockAsset_read is_normal strict) (BlockAsset_Encode nfc e) e"
    unfolding BlockAsset_Encode_def BlockAsset_read_def write_all_eq
    by (rule parses_UNIV) (rule parses_text [where nfc = nfc] parse_rules | use wf in \<open>simp add: BlockAsset_wf_def\<close>)+
qed

definition BlockAsset_Decode :: "(bytes \<Rightarrow> bool) \<Rightarrow> bytes \<Rightarrow> (codec_error, BlockAsset) outcome" where
  "BlockAsset_Decode is_normal buf = decode_with (BlockAsset_read is_normal False) buf"

definition BlockAsset_DecodeStrict :: "(bytes \<Rightarrow> bool) \<Rightarrow> bytes \<Rightarrow> (codec_error, BlockAsset) outcome" where
  "BlockAsset_DecodeStrict is_normal buf = decode_strict_with (BlockAsset_read is_normal True) buf"

subsection \<open>Transaction\<close>

record Transaction =
  tx_ID :: bytes
  tx_size :: nat
  tx_Module :: bytes
  tx_Command :: bytes
  tx_Nonce :: u64
  tx_Fee :: u64
  tx_SenderPublicKey :: bytes
  tx_Params :: bytes
  tx_Signatures :: "bytes list"

definition Transaction_zero :: Transaction where
  "Transaction_zero =
     \<lparr>tx_ID = [], tx_size = 0, tx_Module = [], tx_Command = [], tx_Nonce = 0, tx_Fee = 0,
        tx_SenderPublicKey = [], tx_Params = [], tx_Signatures = []\<rparr>"

definition Transaction_Encode :: "(bytes \<Rightarrow> bytes) \<Rightarrow> Transaction \<Rightarrow> bytes" where
  "Transaction_Encode nfc e =
     write_all
       [WriteString nfc 1 (tx_Module e),
        WriteString nfc 2 (tx_Command e),
        WriteUInt 3 (tx_Nonce e),
        WriteUInt 4 (tx_Fee e),
        WriteBytes 5 (tx_SenderPublicKey e),
        WriteBytes 6 (tx_Params e),
        WriteBytesArray 7 (tx_Signatures e)]"

definition Transaction_read :: "(bytes \<Rightarrow> bool) \<Rightarrow> bool \<Rightarrow> Transaction rd" where
  "Transaction_read is_normal strict = (\<lambda>r.
     obind (ReadString is_normal 1 strict r) (\<lambda>(v1, r).
     obind (ReadString is_normal 2 strict r) (\<lambda>(v2, r).
     obind (ReadUInt 3 strict r) (\<lambda>(v3, r).
     obind (ReadUInt 4 strict r) (\<lambda>(v4, r).
     obind (ReadBytes 5 strict r) (\<lambda>(v5, r).
     obind (ReadBytes 6 strict r) (\<lambda>(v6, r).
     obind (ReadBytesArray 7 r) (\<lambda>(v7, r).
       Return
         (\<lparr>tx_ID = [], tx_size = 0, tx_Module = v1, tx_Command = v2, tx_Nonce = v3, tx_Fee = v4,
           tx_SenderPublicKey = v5, tx_Params = v6, tx_Signatures = v7\<rparr>, r)))))))))"

definition Transaction_wf :: "(bytes \<Rightarrow> bytes) \<Rightarrow> (bytes \<Rightarrow> bool) \<Rightarrow> Transaction \<Rightarrow> bool" where
  "Transaction_wf nfc is_normal e \<longleftrightarrow>
     tx_ID e = []
     \<and> tx_size e = 0
     \<and> text_ok nfc is_normal (tx_Module e)
     \<and> text_ok nfc is_normal (tx_Command e)"

interpretation tx_msg: message "Transaction_Encode nfc" "Transaction_read is_normal" "Transaction_wf nfc is_normal" for nfc is_normal
proof
  fix strict and e :: Transaction
  show "forward 0 (Transaction_read is_normal strict)"
    unfolding Transaction_read_def by (intro reader_rules)
  assume wf: "Transaction_wf nfc is_normal e"
  show "parses UNIV (Transaction_read is_normal strict) (Transaction_Encode nfc e) e"
    unfolding Transaction_Encode_def Transaction_read_def write_all_eq
    by (rule parses_UNIV) (rule parses_text [where nfc = nfc] parse_rules | use wf in \<open>simp add: Transaction_wf_def\<close>)+
qed

definition Transaction_Decode :: "(bytes \<Rightarrow> bool) \<Rightarrow> bytes \<Rightarrow> (codec_error, Transaction) outcome" where
  "Transaction_Decode is_normal buf = decode_with (Transaction_read is_normal False) buf"

definition Transaction_DecodeStrict :: "(bytes \<Rightarrow> bool) \<Rightarrow> bytes \<Rightarrow> (codec_error, Transaction) outcome" where
  "Transaction_DecodeStrict is_normal buf = decode_strict_with (Transaction_read is_normal True) buf"

subsection \<open>SigningTransaction\<close>

record SigningTransaction =
  stx_Module :: bytes
  stx_Command :: bytes
  stx_Nonce :: u64
  stx_Fee :: u64
  stx_SenderPublicKey :: bytes
  stx_Params :: bytes

definition SigningTransaction_zero :: SigningTransaction where
  "SigningTransaction_zero =
     \<lparr>stx_Module = [], stx_Command = [], stx_Nonce = 0, stx_Fee = 0, stx_SenderPublicKey = [],
        stx_Params = []\<rparr>"

definition SigningTransaction_Encode :: "(bytes \<Rightarrow> bytes) \<Rightarrow> SigningTransaction \<Rightarrow> bytes" where
  "SigningTransaction_Encode nfc e =
     write_all
       [WriteString nfc 1 (stx_Module e),
        WriteString nfc 2 (stx_Command e),
        WriteUInt 3 (stx_Nonce e),
        WriteUInt 4 (stx_Fee e),
        WriteBytes 5 (stx_SenderPublicKey e),
        WriteBytes 6 (stx_Params e)]"

definition SigningTransaction_read :: "(bytes \<Rightarrow> bool) \<Rightarrow> bool \<Rightarrow> SigningTransaction rd" where
  "SigningTransaction_read is_normal strict = (\<lambda>r.
     obind (ReadString is_normal 1 strict r) (\<lambda>(v1, r).
     obind (ReadString is_normal 2 strict r) (\<lambda>(v2, r).
     obind (ReadUInt 3 strict r) (\<lambda>(v3, r).
     obind (ReadUInt 4 strict r) (\<lambda>(v4, r).
     obind (ReadBytes 5 strict r) (\<lambda>(v5, r).
     obind (ReadBytes 6 strict r) (\<lambda>(v6, r).
       Return
         (\<lparr>stx_Module = v1, stx_Command = v2, stx_Nonce = v3, stx_Fee = v4,
           stx_SenderPublicKey = v5, stx_Params = v6\<rparr>, r))))))))"

definition SigningTransaction_wf :: "(bytes \<Rightarrow> bytes) \<Rightarrow> (bytes \<Rightarrow> bool) \<Rightarrow> SigningTransaction \<Rightarrow> bool" where
  "SigningTransaction_wf nfc is_normal e \<longleftrightarrow>
     text_ok nfc is_normal (stx_Module e)
     \<and> text_ok nfc is_normal (stx_Command e)"

interpretation stx_msg: message "SigningTransaction_Encode nfc" "SigningTransaction_read is_normal" "SigningTransaction_wf nfc is_normal" for nfc is_normal
proof
  fix strict and e :: SigningTransaction
  show "forward 0 (SigningTransaction_read is_normal strict)"
    unfolding SigningTransaction_read_def by (intro reader_rules)
  assume wf: "SigningTransaction_wf nfc is_normal e"
  show "parses UNIV (SigningTransaction_read is_normal strict) (SigningTransaction_Encode nfc e) e"
    unfolding SigningTransaction_Encode_def SigningTransaction_read_def write_all_eq
    by (rule parses_UNIV) (rule parses_text [where nfc = nfc] parse_rules | use wf in \<open>simp add: SigningTransaction_wf_def\<close>)+
qed

definition SigningTransaction_Decode :: "(bytes \<Rightarrow> bool) \<Rightarrow> bytes \<Rightarrow> (codec_error, SigningTransaction) outcome" where
  "SigningTransaction_Decode is_normal buf = decode_with (SigningTransaction_read is_normal False) buf"

definition SigningTransaction_DecodeStrict :: "(bytes \<Rightarrow> bool) \<Rightarrow> bytes \<Rightarrow> (codec_error, SigningTransaction) outcome" where
  "SigningTransaction_DecodeStrict is_normal buf = decode_strict_with (SigningTransaction_read is_normal True) buf"

subsection \<open>Block\<close>

record Block =
  blk_Header :: "BlockHeader option"
  blk_Transactions :: "Transaction list"
  blk_Assets :: "BlockAsset list"

definition Block_zero :: Block where
  "Block_zero =
     \<lparr>blk_Header = None, blk_Transactions = [], blk_Assets = []\<rparr>"

definition Block_Encode :: "(bytes \<Rightarrow> bytes) \<Rightarrow> Block \<Rightarrow> bytes" where
  "Block_Encode nfc e =
     write_all
       [WriteEncodable 1 (map_option BlockHeader_Encode (blk_Header e)),
        WriteEncodables 2 (Transaction_Encode nfc) (blk_Transactions e),
        WriteEncodables 3 (BlockAsset_Encode nfc) (blk_Assets e)]"

definition Block_read :: "(bytes \<Rightarrow> bool) \<Rightarrow> bool \<Rightarrow> Block rd" where
  "Block_read is_normal strict = (\<lambda>r.
     obind (ReadDecodable 1 BlockHeader_zero (BlockHeader_read False) strict r) (\<lambda>(v1, r).
     obind (ReadDecodables 2 (Transaction_read is_normal False) r) (\<lambda>(v2, r).
     obind (ReadDecodables 3 (BlockAsset_read is_normal False) r) (\<lambda>(v3, r).
       Return
         (\<lparr>blk_Header = Some v1, blk_Transactions = v2, blk_Assets = v3\<rparr>, r)))))"

definition Block_wf :: "(bytes \<Rightarrow> bytes) \<Rightarrow> (bytes \<Rightarrow> bool) \<Rightarrow> Block \<Rightarrow> bool" where
  "Block_wf nfc is_normal e \<longleftrightarrow>
     blk_Header e \<noteq> None \<and> BlockHeader_wf (the (blk_Header e))
     \<and> list_all (Transaction_wf nfc is_normal) (blk_Transactions e)
     \<and> list_all (BlockAsset_wf nfc is_normal) (blk_Assets e)"

interpretation blk_msg: message "Block_Encode nfc" "Block_read is_normal" "Block_wf nfc is_normal" for nfc is_normal
proof
  fix strict and e :: Block
  show "forward 0 (Block_read is_normal strict)"
    unfolding Block_read_def by (intro reader_rules bh_msg.forward_ReadDecodable tx_msg.forward_ReadDecodables ba_msg.forward_ReadDecodables)
  assume wf: "Block_wf nfc is_normal e"
  show "parses UNIV (Block_read is_normal strict) (Block_Encode nfc e) e"
    unfolding Block_Encode_def Block_read_def write_all_eq
    by (rule parses_UNIV) (rule parses_text [where nfc = nfc] parse_rules bh_msg.parses_nested tx_msg.parses_nested_list ba_msg.parses_nested_list | use wf in \<open>simp add: Block_wf_def\<close>)+
qed

definition Block_Decode :: "(bytes \<Rightarrow> bool) \<Rightarrow> bytes \<Rightarrow> (codec_error, Block) outcome" where
  "Block_Decode is_normal buf = decode_with (Block_read is_normal False) buf"

definition Block_DecodeStrict :: "(bytes \<Rightarrow> bool) \<Rightarrow> bytes \<Rightarrow> (codec_error, Block) outcome" where
  "Block_DecodeStrict is_normal buf = decode_strict_with (Block_read is_normal True) buf"

subsection \<open>StandardTransactionEvent\<close>

record StandardTransactionEvent =
  ste_Success :: bool

definition StandardTransactionEvent_zero :: StandardTransactionEvent where
  "StandardTransactionEvent_zero =
     \<lparr>ste_Success = False\<rparr>"

definition StandardTransactionEvent_Encode :: "StandardTransactionEvent \<Rightarrow> bytes" where
  "StandardTransactionEvent_Encode e =
     write_all
       [WriteBool 1 (ste_Success e)]"

definition StandardTransactionEvent_read :: "bool \<Rightarrow> StandardTransactionEvent rd" where
  "StandardTransactionEvent_read strict = (\<lambda>r.
     obind (ReadBool 1 strict r) (\<lambda>(v1, r).
       Return
         (\<lparr>ste_Success = v1\<rparr>, r)))"

interpretation ste_msg: message StandardTransactionEvent_Encode StandardTransactionEvent_read "\<lambda>_. True"
proof
  fix strict and e :: StandardTransactionEvent
  show "forward 0 (StandardTransactionEvent_read strict)"
    unfolding StandardTransactionEvent_read_def by (intro reader_rules)
  assume wf: "True"
  show "parses UNIV (StandardTransactionEvent_read strict) (StandardTransactionEvent_Encode e) e"
    unfolding StandardTransactionEvent_Encode_def StandardTransactionEvent_read_def write_all_eq
    by (rule parses_UNIV) (rule parse_rules | simp)+
qed

definition StandardTransactionEvent_Decode :: "bytes \<Rightarrow> (codec_error, StandardTransactionEvent) outcome" where
  "StandardTransactionEvent_Decode buf = decode_with (StandardTransactionEvent_read False) buf"

definition StandardTransactionEvent_DecodeStrict :: "bytes \<Rightarrow> (codec_error, StandardTransactionEvent) outcome" where
  "StandardTransactionEvent_DecodeStrict buf = decode_strict_with (StandardTransactionEvent_read True) buf"

subsection \<open>Event\<close>

record Event =
  ev_ID :: bytes
  ev_Module :: bytes
  ev_Name :: bytes
  ev_Data :: bytes
  ev_Topics :: "bytes list"
  ev_Height :: u32
  ev_Index :: u32

definition Event_zero :: Event where
  "Event_zero =
     \<lparr>ev_ID = [], ev_Module = [], ev_Name = [], ev_Data = [], ev_Topics = [], ev_Height = 0,
        ev_Index = 0\<rparr>"

definition Event_Encode :: "(bytes \<Rightarrow> bytes) \<Rightarrow> Event \<Rightarrow> bytes" where
  "Event_Encode nfc e =
     write_all
       [WriteString nfc 1 (ev_Module e),
        WriteString nfc 2 (ev_Name e),
        WriteBytes 3 (ev_Data e),
        WriteBytesArray 4 (ev_Topics e),
        WriteUInt32 5 (ev_Height e),
        WriteUInt32 6 (ev_Index e)]"

definition Event_read :: "(bytes \<Rightarrow> bool) \<Rightarrow> bool \<Rightarrow> Event rd" where
  "Event_read is_normal strict = (\<lambda>r.
     obind (ReadString is_normal 1 strict r) (\<lambda>(v1, r).
     obind (ReadString is_normal 2 strict r) (\<lambda>(v2, r).
     obind (ReadBytes 3 strict r) (\<lambda>(v3, r).
     obind (ReadBytesArray 4 r) (\<lambda>(v4, r).
     obind (ReadUInt32 5 strict r) (\<lambda>(v5, r).
     obind (ReadUInt32 6 strict r) (\<lambda>(v6, r).
       Return
         (\<lparr>ev_ID = [], ev_Module = v1, ev_Name = v2, ev_Data = v3, ev_Topics = v4, ev_Height = v5,
           ev_Index = v6\<rparr>, r))))))))"

definition Event_wf :: "(bytes \<Rightarrow> bytes) \<Rightarrow> (bytes \<Rightarrow> bool) \<Rightarrow> Event \<Rightarrow> bool" where
  "Event_wf nfc is_normal e \<longleftrightarrow>
     ev_ID e = []
     \<and> text_ok nfc is_normal (ev_Module e)
     \<and> text_ok nfc is_normal (ev_Name e)"

interpretation ev_msg: message "Event_Encode nfc" "Event_read is_normal" "Event_wf nfc is_normal" for nfc is_normal
proof
  fix strict and e :: Event
  show "forward 0 (Event_read is_normal strict)"
    unfolding Event_read_def by (intro reader_rules)
  assume wf: "Event_wf nfc is_normal e"
  show "parses UNIV (Event_read is_normal strict) (Event_Encode nfc e) e"
    unfolding Event_Encode_def Event_read_def write_all_eq
    by (rule parses_UNIV) (rule parses_text [where nfc = nfc] parse_rules | use wf in \<open>simp add: Event_wf_def\<close>)+
qed

definition Event_Decode :: "(bytes \<Rightarrow> bool) \<Rightarrow> bytes \<Rightarrow> (codec_error, Event) outcome" where
  "Event_Decode is_normal buf = decode_with (Event_read is_normal False) buf"

definition Event_DecodeStrict :: "(bytes \<Rightarrow> bool) \<Rightarrow> bytes \<Rightarrow> (codec_error, Event) outcome" where
  "Event_DecodeStrict is_normal buf = decode_strict_with (Event_read is_normal True) buf"

subsection \<open>bytesList\<close>

record bytesList =
  bl_items :: "bytes list"

definition bytesList_zero :: bytesList where
  "bytesList_zero =
     \<lparr>bl_items = []\<rparr>"

definition bytesList_Encode :: "bytesList \<Rightarrow> bytes" where
  "bytesList_Encode e =
     write_all
       [WriteBytesArray 1 (bl_items e)]"

definition bytesList_read :: "bool \<Rightarrow> bytesList rd" where
  "bytesList_read strict = (\<lambda>r.
     obind (ReadBytesArray 1 r) (\<lambda>(v1, r).
       Return
         (\<lparr>bl_items = v1\<rparr>, r)))"

interpretation bl_msg: message bytesList_Encode bytesList_read "\<lambda>_. True"
proof
  fix strict and e :: bytesList
  show "forward 0 (bytesList_read strict)"
    unfolding bytesList_read_def by (intro reader_rules)
  assume wf: "True"
  show "parses UNIV (bytesList_read strict) (bytesList_Encode e) e"
    unfolding bytesList_Encode_def bytesList_read_def write_all_eq
    by (rule parses_UNIV) (rule parse_rules | simp)+
qed

definition bytesList_Decode :: "bytes \<Rightarrow> (codec_error, bytesList) outcome" where
  "bytesList_Decode buf = decode_with (bytesList_read False) buf"

definition bytesList_DecodeStrict :: "bytes \<Rightarrow> (codec_error, bytesList) outcome" where
  "bytesList_DecodeStrict buf = decode_strict_with (bytesList_read True) buf"

section \<open>What the decoders of the block messages accept\<close>

lemmas block_message_reads =
  RawBlock_read_def AggregateCommit_read_def BlockAsset_read_def Transaction_read_def Event_read_def

lemma block_messages_no_panic:
  "no_panic (RawBlock_read strict)" "no_panic (AggregateCommit_read strict)"
  "no_panic (BlockAsset_read is_normal strict)" "no_panic (Transaction_read is_normal strict)"
  "no_panic (Event_read is_normal strict)"
  unfolding block_message_reads by (intro panic_rules)+

lemma RawBlock_reads: "reads (RawBlock_read True) (\<lambda>bs e. bs = RawBlock_Encode e)"
  unfolding RawBlock_read_def
  by (rule reads_mono, (rule reads_bind reads_Read reads_return)+)
     (auto simp: RawBlock_Encode_def write_all_eq)

lemma Transaction_reads:
  "reads (Transaction_read is_normal True)
     (\<lambda>bs e. bs = Transaction_Encode (\<lambda>s. s) e \<and> Transaction_wf (\<lambda>s. s) is_normal e)"
  unfolding Transaction_read_def
  by (rule reads_mono, (rule reads_bind reads_Read reads_return)+)
     (auto simp: Transaction_Encode_def Transaction_wf_def text_ok_def write_all_eq)

lemma Transaction_Encode_cong:
  "(\<And>s. is_normal s \<Longrightarrow> nfc s = s) \<Longrightarrow> Transaction_wf (\<lambda>s. s) is_normal e \<Longrightarrow>
   Transaction_Encode (\<lambda>s. s) e = Transaction_Encode nfc e \<and> Transaction_wf nfc is_normal e"
  by (auto simp: Transaction_Encode_def Transaction_wf_def text_ok_def write_all_eq)

text \<open>
  C1: the strict transaction decoder accepts exactly the encodings of well-formed transactions, so
  a transaction has one byte representation and its hash, the transaction ID, cannot be changed
  by re-encoding it.  \<^verbatim>\<open>norm.NFC\<close> is documented to leave a normalised string as it is.
\<close>

theorem transaction_decode_strict_iff:
  assumes nfc: "\<And>s. is_normal s \<Longrightarrow> nfc s = s" and len: "length buf < 2 ^ 63"
  shows "Transaction_DecodeStrict is_normal buf = Return tx \<longleftrightarrow>
           buf = Transaction_Encode nfc tx \<and> Transaction_wf nfc is_normal tx"
proof
  assume "Transaction_DecodeStrict is_normal buf = Return tx"
  then have "buf = Transaction_Encode (\<lambda>s. s) tx \<and> Transaction_wf (\<lambda>s. s) is_normal tx"
    unfolding Transaction_DecodeStrict_def by (rule decode_strict_reads [OF Transaction_reads])
  then show "buf = Transaction_Encode nfc tx \<and> Transaction_wf nfc is_normal tx"
    using Transaction_Encode_cong [OF nfc] by blast
next
  assume "buf = Transaction_Encode nfc tx \<and> Transaction_wf nfc is_normal tx"
  then show "Transaction_DecodeStrict is_normal buf = Return tx"
    using len tx_msg.decode_strict_encode [of nfc is_normal tx] by (simp add: Transaction_DecodeStrict_def)
qed

definition sample_tx :: Transaction where
  "sample_tx = \<lparr>tx_ID = [], tx_size = 0, tx_Module = [116, 111, 107, 101, 110], tx_Command = [112],
     tx_Nonce = 300, tx_Fee = 5, tx_SenderPublicKey = [1, 2], tx_Params = [], tx_Signatures = [[7], []]\<rparr>"

theorem transaction_decode_strict_iff_witness:
  "Transaction_wf (\<lambda>s. s) (\<lambda>_. True) sample_tx
   \<and> Transaction_DecodeStrict (\<lambda>_. True) (Transaction_Encode (\<lambda>s. s) sample_tx) = Return sample_tx"
proof -
  have wf: "Transaction_wf (\<lambda>s. s) (\<lambda>_. True) sample_tx" by code_simp
  moreover have "length (Transaction_Encode (\<lambda>s. s) sample_tx) \<le> 50" by code_simp
  ultimately show ?thesis
    using transaction_decode_strict_iff [of "\<lambda>_. True" "\<lambda>s. s" "Transaction_Encode (\<lambda>s. s) sample_tx" sample_tx]
    by simp
qed

text \<open>C2: the strict decoder of the block envelope accepts exactly the encodings of envelopes.\<close>

theorem rawblock_decode_strict_iff:
  assumes "length buf < 2 ^ 63"
  shows "RawBlock_DecodeStrict buf = Return b \<longleftrightarrow> buf = RawBlock_Encode b"
proof
  assume "RawBlock_DecodeStrict buf = Return b"
  then show "buf = RawBlock_Encode b"
    unfolding RawBlock_DecodeStrict_def by (rule decode_strict_reads [OF RawBlock_reads])
qed (use assms in \<open>simp add: RawBlock_DecodeStrict_def rb_msg.decode_strict_encode\<close>)

theorem rawblock_decode_strict_iff_witness:
  "RawBlock_DecodeStrict [10, 1, 5, 18, 0] = Return \<lparr>rb_Header = [5], rb_Transactions = [[]], rb_Assets = []\<rparr>"
  by (subst rawblock_decode_strict_iff) (simp, code_simp)

text \<open>
  C3: a block header with an aggregate commit is recovered from its encoding by both decoders.
  The \<^verbatim>\<open>ID\<close> is not part of the encoding and comes back empty.
\<close>

theorem block_header_roundtrip:
  assumes "bh_AggregateCommit h \<noteq> None" and "length (BlockHeader_Encode h) < 2 ^ 63"
  shows "BlockHeader_DecodeStrict (BlockHeader_Encode h) = Return (h\<lparr>bh_ID := []\<rparr>)
    \<and> BlockHeader_Decode (BlockHeader_Encode h) = Return (h\<lparr>bh_ID := []\<rparr>)"
proof -
  have "BlockHeader_Encode (h\<lparr>bh_ID := []\<rparr>) = BlockHeader_Encode h" by (simp add: BlockHeader_Encode_def)
  moreover have "BlockHeader_wf (h\<lparr>bh_ID := []\<rparr>)" using assms(1) by (simp add: BlockHeader_wf_def)
  ultimately show ?thesis
    using assms(2) bh_msg.decode_strict_encode [of "h\<lparr>bh_ID := []\<rparr>"] bh_msg.decode_encode [of "h\<lparr>bh_ID := []\<rparr>"]
    by (simp add: BlockHeader_DecodeStrict_def BlockHeader_Decode_def)
qed

theorem block_header_roundtrip_witness:
  "BlockHeader_Decode (BlockHeader_Encode (BlockHeader_zero\<lparr>bh_AggregateCommit := Some AggregateCommit_zero\<rparr>))
   = Return (BlockHeader_zero\<lparr>bh_AggregateCommit := Some AggregateCommit_zero\<rparr>)"
proof -
  let ?h = "BlockHeader_zero\<lparr>bh_AggregateCommit := Some AggregateCommit_zero\<rparr>"
  have "length (BlockHeader_Encode ?h) \<le> 100" by code_simp
  then show ?thesis using block_header_roundtrip [of ?h] by (simp add: BlockHeader_zero_def)
qed




text \<open>
  C7: a whole block is recovered from its encoding, up to the cached IDs and sizes, when its
  strings are normalised UTF-8.
\<close>

theorem block_roundtrip:
  assumes "Block_wf nfc is_normal b" and "length (Block_Encode nfc b) < 2 ^ 63"
  shows "Block_DecodeStrict is_normal (Block_Encode nfc b) = Return b"
  using blk_msg.decode_strict_encode [OF assms] by (simp add: Block_DecodeStrict_def)

definition sample_block :: Block where
  "sample_block =
     \<lparr>blk_Header = Some (BlockHeader_zero\<lparr>bh_AggregateCommit := Some AggregateCommit_zero\<rparr>),
      blk_Transactions = [sample_tx], blk_Assets = [\<lparr>ba_Module = [116], ba_Data = [1, 2, 3]\<rparr>]\<rparr>"

theorem block_roundtrip_witness:
  "Block_DecodeStrict (\<lambda>_. True) (Block_Encode (\<lambda>s. s) sample_block) = Return sample_block"
proof (rule block_roundtrip)
  show "Block_wf (\<lambda>s. s) (\<lambda>_. True) sample_block" by code_simp
  have "length (Block_Encode (\<lambda>s. s) sample_block) \<le> 150" by code_simp
  then show "length (Block_Encode (\<lambda>s. s) sample_block) < 2 ^ 63" by simp
qed

end
