(* ===== verification/Crypto.thy ===== *)
theory Crypto
  imports Collections
begin

text \<open>
  \<^verbatim>\<open>pkg/crypto\<close>: the hash function (\<^verbatim>\<open>crypto/sha256\<close> of the standard library, FIPS 180-4),
  addresses, and the aggregation bits of BLS signatures in \<^verbatim>\<open>bls.go\<close>.  The curve operations of
  \<^verbatim>\<open>ed25519\<close> and \<^verbatim>\<open>blst\<close> are parameters: \<open>fast_aggregate_verify keys message signature\<close> and
  \<open>aggregate signatures\<close> work on compressed points.
\<close>

section \<open>SHA-256\<close>

definition sha256_K :: "u32 list" where
  "sha256_K =
    [
    1116352408, 1899447441, 3049323471, 3921009573, 961987163, 1508970993, 2453635748,
    2870763221, 3624381080, 310598401, 607225278, 1426881987, 1925078388, 2162078206, 2614888103,
    3248222580, 3835390401, 4022224774, 264347078, 604807628, 770255983, 1249150122, 1555081692,
    1996064986, 2554220882, 2821834349, 2952996808, 3210313671, 3336571891, 3584528711,
    113926993, 338241895, 666307205, 773529912, 1294757372, 1396182291, 1695183700, 1986661051,
    2177026350, 2456956037, 2730485921, 2820302411, 3259730800, 3345764771, 3516065817,
    3600352804, 4094571909, 275423344, 430227734, 506948616, 659060556, 883997877, 958139571,
    1322822218, 1537002063, 1747873779, 1955562222, 2024104815, 2227730452, 2361852424,
    2428436474, 2756734187, 3204031479, 3329325298]"

record sha256_state =
  sh_a :: u32
  sh_b :: u32
  sh_c :: u32
  sh_d :: u32
  sh_e :: u32
  sh_f :: u32
  sh_g :: u32
  sh_h :: u32

definition sha256_init :: sha256_state where
  "sha256_init =
     \<lparr>sh_a = 1779033703, sh_b = 3144134277, sh_c = 1013904242, sh_d = 2773480762,
      sh_e = 1359893119, sh_f = 2600822924, sh_g = 528734635, sh_h = 1541459225\<rparr>"

definition sha256_pad :: "bytes \<Rightarrow> bytes" where
  "sha256_pad m =
     m @ [0x80] @ replicate ((119 - length m mod 64) mod 64) 0 @ FromUint64 (of_nat (8 * length m))"

fun be_words :: "bytes \<Rightarrow> u32 list" where
  "be_words (b0 # b1 # b2 # b3 # bs) =
     (ucast b3 OR push_bit 8 (ucast b2) OR push_bit 16 (ucast b1) OR push_bit 24 (ucast b0)) # be_words bs"
| "be_words _ = []"

definition sha256_extend :: "u32 list \<Rightarrow> u32 list" where
  "sha256_extend w =
     (let t = length w;
          w15 = w ! (t - 15); w2 = w ! (t - 2);
          s0 = word_rotr 7 w15 XOR word_rotr 18 w15 XOR drop_bit 3 w15;
          s1 = word_rotr 17 w2 XOR word_rotr 19 w2 XOR drop_bit 10 w2
      in w @ [w ! (t - 16) + s0 + w ! (t - 7) + s1])"

definition sha256_round :: "u32 \<times> u32 \<Rightarrow> sha256_state \<Rightarrow> sha256_state" where
  "sha256_round kw s =
     (let (k, w) = kw;
          S1 = word_rotr 6 (sh_e s) XOR word_rotr 11 (sh_e s) XOR word_rotr 25 (sh_e s);
          ch = (sh_e s AND sh_f s) XOR (NOT (sh_e s) AND sh_g s);
          t1 = sh_h s + S1 + ch + k + w;
          S0 = word_rotr 2 (sh_a s) XOR word_rotr 13 (sh_a s) XOR word_rotr 22 (sh_a s);
          maj = (sh_a s AND sh_b s) XOR (sh_a s AND sh_c s) XOR (sh_b s AND sh_c s);
          t2 = S0 + maj
      in \<lparr>sh_a = t1 + t2, sh_b = sh_a s, sh_c = sh_b s, sh_d = sh_c s,
          sh_e = sh_d s + t1, sh_f = sh_e s, sh_g = sh_f s, sh_h = sh_g s\<rparr>)"

definition sha256_block :: "sha256_state \<Rightarrow> u32 list \<Rightarrow> sha256_state" where
  "sha256_block s block =
     (let w = (sha256_extend ^^ 48) block;
          s' = fold sha256_round (zip sha256_K w) s
      in \<lparr>sh_a = sh_a s + sh_a s', sh_b = sh_b s + sh_b s', sh_c = sh_c s + sh_c s',
          sh_d = sh_d s + sh_d s', sh_e = sh_e s + sh_e s', sh_f = sh_f s + sh_f s',
          sh_g = sh_g s + sh_g s', sh_h = sh_h s + sh_h s'\<rparr>)"

function sha256_blocks :: "sha256_state \<Rightarrow> bytes \<Rightarrow> sha256_state" where
  "sha256_blocks s m =
     (if m = [] then s else sha256_blocks (sha256_block s (be_words (take 64 m))) (drop 64 m))"
  by pat_completeness auto
termination
  by (relation "measure (\<lambda>(s, m). length m)") auto

declare sha256_blocks.simps [simp del]

definition Hash :: "bytes \<Rightarrow> bytes" where
  "Hash key =
     (let s = sha256_blocks sha256_init (sha256_pad key) in
      concat (map FromUint32 [sh_a s, sh_b s, sh_c s, sh_d s, sh_e s, sh_f s, sh_g s, sh_h s]))"

lemma length_Hash [simp]: "length (Hash m) = 32"
  by (simp add: Hash_def Let_def)

definition HashLengh :: nat where "HashLengh = 32"

definition EdPublicKeyLength :: nat where "EdPublicKeyLength = 32"

definition EdSignatureLength :: nat where "EdSignatureLength = 64"

definition GetAddress :: "bytes \<Rightarrow> bytes" where
  "GetAddress publicKey = take 20 (Hash publicKey)"

section \<open>Aggregation bits\<close>

text \<open>Reading or writing past the end of the bits panics.\<close>

definition Bits_write :: "nat \<Rightarrow> bool \<Rightarrow> bytes \<Rightarrow> ('e, bytes) outcome" where
  "Bits_write i val b =
     (let byteIndex = i div 8; bitIndex = i mod 8 in
      if byteIndex < length b then
        Return (b[byteIndex := (if val then b ! byteIndex OR push_bit bitIndex 1
                                else b ! byteIndex AND NOT (push_bit bitIndex 1))])
      else Panic)"

definition Bits_read :: "nat \<Rightarrow> bytes \<Rightarrow> ('e, bool) outcome" where
  "Bits_read i b =
     (let byteIndex = i div 8; bitIndex = i mod 8 in
      if byteIndex < length b then Return (drop_bit bitIndex (b ! byteIndex) mod 2 = 1) else Panic)"

definition bit_at :: "bytes \<Rightarrow> nat \<Rightarrow> bool" where
  "bit_at b i = bit (b ! (i div 8)) (i mod 8)"

lemma Bits_read_bit: "i div 8 < length b \<Longrightarrow> Bits_read i b = Return (bit_at b i)"
  by (simp add: Bits_read_def bit_at_def Let_def bit_iff_odd_drop_bit odd_iff_mod_2_eq_one)

lemma Bits_write_bit:
  assumes "i div 8 < length b"
  shows "\<exists>b'. Bits_write i val b = Return b' \<and> length b' = length b
     \<and> (\<forall>j. bit_at b' j \<longleftrightarrow> (if i = j then val else bit_at b j))"
proof -
  have eq: "i = j \<longleftrightarrow> i div 8 = j div 8 \<and> i mod 8 = j mod 8" for j by (metis div_mult_mod_eq)
  have m: "bit (push_bit (i mod 8) 1 :: byte) (j mod 8) \<longleftrightarrow> i mod 8 = j mod 8" for j
    using mod_less_divisor [of 8 i] by (auto simp: bit_simps)
  have "bit_at (b[i div 8 := (if val then b ! (i div 8) OR push_bit (i mod 8) 1
                              else b ! (i div 8) AND NOT (push_bit (i mod 8) 1))]) j
      \<longleftrightarrow> (if i = j then val else bit_at b j)" for j
    using assms m [of j] mod_less_divisor [of 8 j] unfolding eq bit_at_def
    by (cases "i div 8 = j div 8") (auto simp: bit_or_iff bit_and_iff bit_not_iff)
  then show ?thesis using assms by (simp add: Bits_write_def Let_def)
qed

fun set_bits :: "bytes list \<Rightarrow> bytes list \<Rightarrow> bytes \<Rightarrow> ('e, bytes) outcome" where
  "set_bits keysList [] bits = Return bits"
| "set_bits keysList (pk # pks) bits =
     (let keyIndex = FindIndex keysList (\<lambda>k. k = pk) in
      if 0 \<le> keyIndex then obind (Bits_write (nat keyIndex) True bits) (set_bits keysList pks)
      else set_bits keysList pks bits)"

definition BLSCreateAggSig ::
    "(bytes list \<Rightarrow> bytes) \<Rightarrow> bytes list \<Rightarrow> (bytes \<times> bytes) list \<Rightarrow> ('e, bytes \<times> bytes) outcome" where
  "BLSCreateAggSig aggregate keysList pubKeySignaturePairs =
     obind (set_bits keysList (map fst pubKeySignaturePairs) (replicate ((length keysList + 7) div 8) 0))
       (\<lambda>aggregationBits. Return (aggregationBits, aggregate (map snd pubKeySignaturePairs)))"

fun selected_keys :: "nat \<Rightarrow> bytes list \<Rightarrow> bytes \<Rightarrow> ('e, bytes list) outcome" where
  "selected_keys i [] aggregationBits = Return []"
| "selected_keys i (key # keysList) aggregationBits =
     obind (Bits_read i aggregationBits) (\<lambda>b.
       obind (selected_keys (i + 1) keysList aggregationBits) (\<lambda>keys.
         Return (if b then key # keys else keys)))"

definition BLSVerifyAggSig ::
    "(bytes list \<Rightarrow> bytes \<Rightarrow> bytes \<Rightarrow> bool) \<Rightarrow> bytes list \<Rightarrow> bytes \<Rightarrow> bytes \<Rightarrow> bytes \<Rightarrow> ('e, bool) outcome" where
  "BLSVerifyAggSig fast_aggregate_verify keysList aggregationBits signature message =
     obind (selected_keys 0 keysList aggregationBits) (\<lambda>keys.
       Return (fast_aggregate_verify keys message signature))"

fun weighted_keys :: "nat \<Rightarrow> bytes list \<Rightarrow> u64 list \<Rightarrow> bytes \<Rightarrow> u64 \<Rightarrow> ('e, bytes list \<times> u64) outcome" where
  "weighted_keys i [] weights aggregationBits weightSum = Return ([], weightSum)"
| "weighted_keys i (key # keysList) weights aggregationBits weightSum =
     obind (Bits_read i aggregationBits) (\<lambda>b.
       if b then
         (if i < length weights then
            obind (weighted_keys (i + 1) keysList weights aggregationBits (weightSum + weights ! i))
              (\<lambda>(keys, s). Return (key # keys, s))
          else Panic)
       else weighted_keys (i + 1) keysList weights aggregationBits weightSum)"

definition BLSVerifyWeightedAggSig ::
    "(bytes list \<Rightarrow> bytes \<Rightarrow> bytes \<Rightarrow> bool) \<Rightarrow> bytes list \<Rightarrow> bytes \<Rightarrow> bytes \<Rightarrow> u64 list \<Rightarrow> u64 \<Rightarrow> bytes
     \<Rightarrow> ('e, bool) outcome" where
  "BLSVerifyWeightedAggSig fast_aggregate_verify keysList aggregationBits signature weights threshold message =
     obind (weighted_keys 0 keysList weights aggregationBits 0) (\<lambda>(keys, weightSum).
       Return (if weightSum < threshold then False else fast_aggregate_verify keys message signature))"

section \<open>Aggregation bits select the signers\<close>

lemma FindIndex_from_nth:
  "distinct xs \<Longrightarrow> i < length xs \<Longrightarrow> FindIndex_from n xs (\<lambda>k. k = xs ! i) = n + int i"
proof (induction xs arbitrary: n i)
  case (Cons x xs)
  then show ?case by (cases i) (auto simp: nth_eq_iff_index_eq)
qed simp

lemma FindIndex_nth: "distinct xs \<Longrightarrow> i < length xs \<Longrightarrow> FindIndex xs (\<lambda>k. k = xs ! i) = int i"
  by (simp add: FindIndex_def FindIndex_from_nth)

lemma set_bits_spec:
  assumes "distinct keysList" and "length keysList \<le> 8 * length bits"
  shows "\<exists>bits'. (set_bits keysList pks bits :: ('e, bytes) outcome) = Return bits'
     \<and> length bits' = length bits \<and> (\<forall>j < length keysList. bit_at bits' j \<longleftrightarrow> keysList ! j \<in> set pks \<or> bit_at bits j)"
  using assms(2)
proof (induction pks arbitrary: bits)
  case (Cons pk pks)
  show ?case
  proof (cases "pk \<in> set keysList")
    case True
    then obtain i where i: "i < length keysList" "pk = keysList ! i" by (metis in_set_conv_nth)
    then have f: "FindIndex keysList (\<lambda>k. k = pk) = int i" using FindIndex_nth [OF assms(1)] by simp
    have "i div 8 < length bits" using i(1) Cons.prems by (simp add: less_mult_imp_div_less mult.commute)
    then obtain b where b: "(Bits_write i True bits :: ('e, bytes) outcome) = Return b"
      "length b = length bits" "\<forall>j. bit_at b j \<longleftrightarrow> (if i = j then True else bit_at bits j)"
      using Bits_write_bit by blast
    obtain bits' where bits': "(set_bits keysList pks b :: ('e, bytes) outcome) = Return bits'"
      "length bits' = length b"
      "\<forall>j < length keysList. bit_at bits' j \<longleftrightarrow> keysList ! j \<in> set pks \<or> bit_at b j"
      using Cons.IH [of b] Cons.prems b(2) by auto
    then show ?thesis
      using b f i assms(1) by (auto simp: Let_def nth_eq_iff_index_eq)
  next
    case False
    then have "FindIndex keysList (\<lambda>k. k = pk) = -1" by (auto simp: FindIndex_neg)
    moreover have "keysList ! j \<noteq> pk" if "j < length keysList" for j using False that by auto
    ultimately show ?thesis using Cons by auto
  qed
qed simp

lemma selected_keys_filter:
  assumes "i + length keysList \<le> 8 * length bits"
    and "\<forall>j < length keysList. bit_at bits (i + j) \<longleftrightarrow> f (keysList ! j)"
  shows "selected_keys i keysList bits = Return (filter f keysList)"
  using assms
proof (induction keysList arbitrary: i)
  case (Cons key keysList)
  have "i div 8 < length bits" "bit_at bits i \<longleftrightarrow> f key"
    using Cons.prems(1) Cons.prems(2) [rule_format, of 0]
    by (simp_all add: less_mult_imp_div_less mult.commute)
  moreover have "\<forall>j < length keysList. bit_at bits (i + 1 + j) \<longleftrightarrow> f (keysList ! j)"
    using Cons.prems(2) by auto
  ultimately show ?case using Cons.IH [of "i + 1"] Cons.prems(1) by (simp add: Bits_read_bit)
qed simp

text \<open>
  C19: the aggregation bits that \<^verbatim>\<open>BLSCreateAggSig\<close> computes for distinct keys make
  \<^verbatim>\<open>BLSVerifyAggSig\<close> check the aggregate signature against exactly the keys of the signers, in the
  order of the key list; neither function panics.
\<close>

theorem aggregate_verifies_signers:
  assumes "distinct keysList"
  shows "\<exists>bits. (BLSCreateAggSig aggregate keysList pairs :: ('e, _) outcome)
         = Return (bits, aggregate (map snd pairs))
     \<and> (BLSVerifyAggSig fast_aggregate_verify keysList bits signature message :: ('e, bool) outcome)
       = Return (fast_aggregate_verify (filter (\<lambda>k. k \<in> fst ` set pairs) keysList) message signature)"
proof -
  let ?n = "(length keysList + 7) div 8"
  have le: "length keysList \<le> 8 * ?n" by presburger
  moreover have zero: "\<not> bit_at (replicate ?n 0) j" if "j < length keysList" for j
    using that le by (simp add: bit_at_def less_mult_imp_div_less mult.commute)
  ultimately obtain bits where
    bits: "(set_bits keysList (map fst pairs) (replicate ?n 0) :: ('e, bytes) outcome) = Return bits"
    "length bits = ?n" "\<forall>j < length keysList. bit_at bits j \<longleftrightarrow> keysList ! j \<in> set (map fst pairs)"
    using set_bits_spec [OF assms, of "replicate ?n 0" "map fst pairs"] by auto
  then have "(selected_keys 0 keysList bits :: ('e, _) outcome) = Return (filter (\<lambda>k. k \<in> fst ` set pairs) keysList)"
    using le by (intro selected_keys_filter) auto
  then show ?thesis using bits(1) by (auto simp: BLSCreateAggSig_def BLSVerifyAggSig_def)
qed

theorem aggregate_verifies_signers_witness:
  "\<exists>bits. (BLSCreateAggSig concat [[1], [2], [3]] [([3], [30]), ([1], [10])] :: (unit, _) outcome)
       = Return (bits, [30, 10])
     \<and> (BLSVerifyAggSig (\<lambda>keys m s. keys = [[1], [3]]) [[1], [2], [3]] bits [] [] :: (unit, bool) outcome)
       = Return True"
  using aggregate_verifies_signers [of "[[1], [2], [3]]" concat "[([3], [30]), ([1], [10])]"
      "\<lambda>keys m s. keys = [[1], [3]]" "[]" "[]"]
  by simp

end
