(* ===== verification/Rmt.thy ===== *)
theory Rmt
  imports Crypto Codec_Laws
begin

text \<open>
  The regular Merkle tree of \<^verbatim>\<open>pkg/trie/rmt\<close>: \<^verbatim>\<open>CalculateRoot\<close>, which hashes a whole list, and
  the tree that is kept in a store and extended one value at a time by \<^verbatim>\<open>Append\<close>.

  The layers are computed in the source with \<^verbatim>\<open>math.Log2\<close> on floats; \<open>floor_log2\<close> and
  \<open>ceil_log2\<close> are the exact integer logarithms, which agree with the float computation
  for the sizes below \<open>2 ^ 40\<close> that the theorems assume.

  The goroutines of \<^verbatim>\<open>calculateRoot\<close> share nothing and are joined by their channels, so a call
  returns the hash it sends.  The store is a partial function from keys to values.  \<^verbatim>\<open>Append\<close>
  can fail half way: the error carries the tree as the call leaves it.

  The reference for \<^verbatim>\<open>Append\<close> is the list of the roots of the perfect subtrees (\<open>peaks\<close>).
\<close>

section \<open>Logarithms\<close>

fun floor_log2 :: "nat \<Rightarrow> nat" where
  "floor_log2 n = (if n < 2 then 0 else Suc (floor_log2 (n div 2)))"

declare floor_log2.simps [simp del]

definition ceil_log2 :: "nat \<Rightarrow> nat" where
  "ceil_log2 n = (if n \<le> 1 then 0 else Suc (floor_log2 (n - 1)))"

lemma floor_log2_bounds:
  assumes "0 < n"
  shows "2 ^ floor_log2 n \<le> n \<and> n < 2 ^ Suc (floor_log2 n)"
  using assms
proof (induction n rule: floor_log2.induct)
  case (1 n)
  show ?case
  proof (cases "n < 2")
    case True
    then show ?thesis using "1.prems" by (simp add: floor_log2.simps)
  next
    case False
    then have "2 ^ floor_log2 (n div 2) \<le> n div 2" "n div 2 < 2 ^ Suc (floor_log2 (n div 2))"
      using "1.IH" by auto
    then show ?thesis using False by (subst (1 2) floor_log2.simps) auto
  qed
qed

lemma floor_log2_unique: "2 ^ k \<le> n \<Longrightarrow> n < 2 ^ Suc k \<Longrightarrow> floor_log2 n = k"
proof -
  assume k: "2 ^ k \<le> n" "n < 2 ^ Suc k"
  then have "0 < n" using zero_less_power [of "2 :: nat" k] by linarith
  then have f: "2 ^ floor_log2 n \<le> n" "n < 2 ^ Suc (floor_log2 n)" using floor_log2_bounds by auto
  have "(2::nat) ^ k < 2 ^ Suc (floor_log2 n)" "(2::nat) ^ floor_log2 n < 2 ^ Suc k" using k f by linarith+
  then have "k < Suc (floor_log2 n)" "floor_log2 n < Suc k" by (metis power_less_imp_less_exp one_less_numeral_iff semiring_norm(76))+
  then show ?thesis by simp
qed

lemma divider_less: "n \<noteq> 0 \<Longrightarrow> n \<noteq> Suc 0 \<Longrightarrow> 2 ^ floor_log2 (n - Suc 0) < n"
  using floor_log2_bounds [of "n - Suc 0"] by linarith

lemma ceil_log2_bound: "0 < n \<Longrightarrow> n \<le> 2 ^ ceil_log2 n"
  using floor_log2_bounds [of "n - 1"] by (cases "n = 1") (auto simp: ceil_log2_def)

section \<open>Hashing a list\<close>

definition leafHash :: "bytes \<Rightarrow> bytes" where
  "leafHash msg = Hash (0x00 # msg)"

definition branchHash :: "bytes \<Rightarrow> bytes" where
  "branchHash msg = Hash (0x01 # msg)"

definition emptyHash :: bytes where
  "emptyHash = Hash []"

function calculateRoot :: "bytes list \<Rightarrow> bytes" where
  "calculateRoot data =
     (if length data = 0 then emptyHash
      else if length data = 1 then leafHash (data ! 0)
      else
        let divider = 2 ^ floor_log2 (length data - 1);
            leftRes = calculateRoot (take divider data);
            rightRes = calculateRoot (drop divider data)
        in branchHash (leftRes @ rightRes))"
  by pat_completeness auto
termination
  by (relation "measure length") (use divider_less in auto)

declare calculateRoot.simps [simp del]

definition CalculateRoot :: "bytes list \<Rightarrow> bytes" where
  "CalculateRoot data = calculateRoot data"

section \<open>Messages\<close>

subsection \<open>info\<close>

record info =
  inf_root :: bytes
  inf_appendPath :: "bytes list"
  inf_size :: u64

definition info_zero :: info where
  "info_zero =
     \<lparr>inf_root = [], inf_appendPath = [], inf_size = 0\<rparr>"

definition info_Encode :: "info \<Rightarrow> bytes" where
  "info_Encode e =
     write_all
       [WriteBytes 1 (inf_root e),
        WriteBytesArray 2 (inf_appendPath e),
        WriteUInt 3 (inf_size e)]"

definition info_read :: "bool \<Rightarrow> info rd" where
  "info_read strict = (\<lambda>r.
     obind (ReadBytes 1 strict r) (\<lambda>(v1, r).
     obind (ReadBytesArray 2 r) (\<lambda>(v2, r).
     obind (ReadUInt 3 strict r) (\<lambda>(v3, r).
       Return
         (\<lparr>inf_root = v1, inf_appendPath = v2, inf_size = v3\<rparr>, r)))))"

interpretation inf_msg: message info_Encode info_read "\<lambda>_. True"
proof
  fix strict and e :: info
  show "forward 0 (info_read strict)"
    unfolding info_read_def by (intro reader_rules)
  assume wf: "True"
  show "parses UNIV (info_read strict) (info_Encode e) e"
    unfolding info_Encode_def info_read_def write_all_eq
    by (rule parses_UNIV) (rule parse_rules | simp)+
qed

definition info_Decode :: "bytes \<Rightarrow> (codec_error, info) outcome" where
  "info_Decode buf = decode_with (info_read False) buf"

definition info_DecodeStrict :: "bytes \<Rightarrow> (codec_error, info) outcome" where
  "info_DecodeStrict buf = decode_strict_with (info_read True) buf"

subsection \<open>Proof\<close>

record Proof =
  pf_Size :: u64
  pf_Idxs :: "u64 list"
  pf_SiblingHashes :: "bytes list"

definition Proof_zero :: Proof where
  "Proof_zero =
     \<lparr>pf_Size = 0, pf_Idxs = [], pf_SiblingHashes = []\<rparr>"

definition Proof_Encode :: "Proof \<Rightarrow> bytes" where
  "Proof_Encode e =
     write_all
       [WriteUInt 1 (pf_Size e),
        WriteUInts 2 (pf_Idxs e),
        WriteBytesArray 3 (pf_SiblingHashes e)]"

definition Proof_read :: "bool \<Rightarrow> Proof rd" where
  "Proof_read strict = (\<lambda>r.
     obind (ReadUInt 1 strict r) (\<lambda>(v1, r).
     obind (ReadUInts 2 r) (\<lambda>(v2, r).
     obind (ReadBytesArray 3 r) (\<lambda>(v3, r).
       Return
         (\<lparr>pf_Size = v1, pf_Idxs = v2, pf_SiblingHashes = v3\<rparr>, r)))))"

interpretation pf_msg: message Proof_Encode Proof_read "\<lambda>_. True"
proof
  fix strict and e :: Proof
  show "forward 0 (Proof_read strict)"
    unfolding Proof_read_def by (intro reader_rules)
  assume wf: "True"
  show "parses UNIV (Proof_read strict) (Proof_Encode e) e"
    unfolding Proof_Encode_def Proof_read_def write_all_eq
    by (rule parses_UNIV) (rule parse_rules | simp)+
qed

section \<open>The stored tree\<close>

datatype rmt_error =
    Err_location_missing
  | Err_hash_missing
  | Err_info_missing
  | Err_info_decode codec_error

record nodeLocation =
  nodeIndex :: u64
  layerIndex :: u64

record RegularMerkleTree =
  rt_root :: bytes
  rt_appendPath :: "bytes list"
  rt_size :: u64
  rt_db :: "bytes \<rightharpoonup> bytes"

definition storePrefixInfo :: byte where
  "storePrefixInfo = 0"

definition storePrefixHashToLoc :: byte where
  "storePrefixHashToLoc = 1"

definition NewRegularMerkleTree :: "(bytes \<rightharpoonup> bytes) \<Rightarrow> RegularMerkleTree" where
  "NewRegularMerkleTree db = \<lparr>rt_root = emptyHash, rt_appendPath = [], rt_size = 0, rt_db = db\<rparr>"

definition getHeight :: "u64 \<Rightarrow> nat" where
  "getHeight n = ceil_log2 (unat n) + 1"

definition newNodeLocationFromKey :: "bytes \<Rightarrow> ('e, nodeLocation) outcome" where
  "newNodeLocationFromKey key =
     (if length key < 8 then Panic
      else obind (ToUint64 (take 8 key)) (\<lambda>layer.
           obind (ToUint64 (drop 8 key)) (\<lambda>node.
             Return \<lparr>nodeIndex = node, layerIndex = layer\<rparr>)))"

definition nodeLocation_key :: "nodeLocation \<Rightarrow> bytes" where
  "nodeLocation_key l = JoinSize 16 [FromUint64 (layerIndex l), FromUint64 (nodeIndex l)]"

definition getHash :: "(bytes \<rightharpoonup> bytes) \<Rightarrow> nodeLocation \<Rightarrow> bytes option" where
  "getHash db loc = db (storePrefixHashToLoc # nodeLocation_key loc)"

definition getLocation :: "(bytes \<rightharpoonup> bytes) \<Rightarrow> bytes \<Rightarrow> (rmt_error, nodeLocation) outcome" where
  "getLocation db h =
     (case db (storePrefixHashToLoc # h) of
        None \<Rightarrow> Error Err_location_missing
      | Some locKey \<Rightarrow> newNodeLocationFromKey locKey)"

definition saveNode :: "(bytes \<rightharpoonup> bytes) \<Rightarrow> bytes \<Rightarrow> nodeLocation \<Rightarrow> bytes \<rightharpoonup> bytes" where
  "saveNode db h loc =
     (db(storePrefixHashToLoc # h \<mapsto> nodeLocation_key loc))
        (storePrefixHashToLoc # nodeLocation_key loc \<mapsto> h)"

definition replaceNode ::
    "(bytes \<rightharpoonup> bytes) \<Rightarrow> bytes \<Rightarrow> nodeLocation \<Rightarrow> (rmt_error, bytes \<rightharpoonup> bytes) outcome" where
  "replaceNode db h loc =
     (case getHash db loc of
        None \<Rightarrow> Error Err_hash_missing
      | Some prevValue \<Rightarrow> Return (saveNode (db(prevValue := None)) h loc))"

definition saveInfo :: "RegularMerkleTree \<Rightarrow> RegularMerkleTree" where
  "saveInfo d =
     d\<lparr>rt_db := (rt_db d)([storePrefixInfo] \<mapsto>
         info_Encode \<lparr>inf_root = rt_root d, inf_appendPath = rt_appendPath d, inf_size = rt_size d\<rparr>)\<rparr>"

definition loadInfo :: "RegularMerkleTree \<Rightarrow> (rmt_error, RegularMerkleTree) outcome" where
  "loadInfo d =
     (case rt_db d [storePrefixInfo] of
        None \<Rightarrow> Error Err_info_missing
      | Some infoByte \<Rightarrow>
          (case info_Decode infoByte of
             Panic \<Rightarrow> Panic
           | Error e \<Rightarrow> Error (Err_info_decode e)
           | Return i \<Rightarrow>
               Return (d\<lparr>rt_root := inf_root i, rt_appendPath := inf_appendPath i,
                         rt_size := inf_size i\<rparr>)))"

definition NewRegularMerkleTreeWithPastData ::
    "(bytes \<rightharpoonup> bytes) \<Rightarrow> (rmt_error, RegularMerkleTree) outcome" where
  "NewRegularMerkleTreeWithPastData db =
     loadInfo \<lparr>rt_root = [], rt_appendPath = [], rt_size = 0, rt_db = db\<rparr>"

text \<open>
  The loop over the layers: the layers still to visit, the number of path elements used,
  the hash so far and the store.  An error carries the store as it is then.
\<close>

definition size_bit :: "u64 \<Rightarrow> nat \<Rightarrow> bool" where
  "size_bit n h \<longleftrightarrow> drop_bit h n AND 1 = 1"

definition Append_node ::
    "nat \<Rightarrow> bytes \<Rightarrow> bytes \<Rightarrow> (bytes \<rightharpoonup> bytes)
     \<Rightarrow> (rmt_error \<times> (bytes \<rightharpoonup> bytes), bytes \<times> (bytes \<rightharpoonup> bytes)) outcome" where
  "Append_node height appendHash currentHash db =
     (case getLocation db appendHash of
        Panic \<Rightarrow> Panic
      | Error e \<Rightarrow> Error (e, db)
      | Return appendLoc \<Rightarrow>
          (let nextLoc = \<lparr>nodeIndex = drop_bit 1 (nodeIndex appendLoc),
                          layerIndex = layerIndex appendLoc + 1\<rparr>;
               currentHash = branchHash (appendHash @ currentHash)
           in if layerIndex nextLoc = of_nat (height - 1)
              then (case replaceNode db currentHash nextLoc of
                      Panic \<Rightarrow> Panic
                    | Error e \<Rightarrow> Error (e, db)
                    | Return db \<Rightarrow> Return (currentHash, db))
              else Return (currentHash, saveNode db currentHash nextLoc)))"

fun Append_loop ::
    "RegularMerkleTree \<Rightarrow> nat \<Rightarrow> nat list \<Rightarrow> nat \<Rightarrow> bytes \<Rightarrow> (bytes \<rightharpoonup> bytes)
     \<Rightarrow> (rmt_error \<times> (bytes \<rightharpoonup> bytes), bytes \<times> (bytes \<rightharpoonup> bytes)) outcome" where
  "Append_loop d height [] cnt currentHash db = Return (currentHash, db)"
| "Append_loop d height (h # hs) cnt currentHash db =
     (if size_bit (rt_size d) h
      then (if cnt < length (rt_appendPath d)
            then obind (Append_node height (rt_appendPath d ! cnt) currentHash db)
                   (\<lambda>(currentHash, db). Append_loop d height hs (cnt + 1) currentHash db)
            else Panic)
      else Append_loop d height hs cnt currentHash db)"

fun fold_path :: "bytes list \<Rightarrow> bytes \<Rightarrow> bytes" where
  "fold_path [] currentHash = currentHash"
| "fold_path (h # path) currentHash = fold_path path (branchHash (h @ currentHash))"

definition subTreeIndex :: "u64 \<Rightarrow> nat \<Rightarrow> nat" where
  "subTreeIndex n height = length (takeWhile (size_bit n) [0 ..< height])"

definition Append ::
    "RegularMerkleTree \<Rightarrow> bytes \<Rightarrow> (rmt_error \<times> RegularMerkleTree, RegularMerkleTree) outcome" where
  "Append d value =
     (let newLeafHash = leafHash value;
          db = saveNode (rt_db d) newLeafHash \<lparr>nodeIndex = rt_size d, layerIndex = 0\<rparr>
      in if rt_size d = 0
         then Return (d\<lparr>rt_appendPath := rt_appendPath d @ [newLeafHash], rt_root := newLeafHash,
                        rt_size := rt_size d + 1, rt_db := db\<rparr>)
         else
           let height = getHeight (rt_size d)
           in case Append_loop d height [0 ..< height] 0 newLeafHash db of
                Panic \<Rightarrow> Panic
              | Error (e, db) \<Rightarrow> Error (e, d\<lparr>rt_db := db\<rparr>)
              | Return (currentHash, db) \<Rightarrow>
                  (let i = subTreeIndex (rt_size d) height
                   in if i \<le> length (rt_appendPath d)
                      then Return (saveInfo
                             (d\<lparr>rt_root := currentHash,
                                rt_appendPath := fold_path (take i (rt_appendPath d)) newLeafHash
                                                 # drop i (rt_appendPath d),
                                rt_size := rt_size d + 1,
                                rt_db := db\<rparr>))
                      else Panic))"

record RootWithAppendPath =
  ra_Root :: bytes
  ra_AppendPath :: "bytes list"
  ra_Size :: u64

definition intToBytesWithoutLeadingZero :: "u64 \<Rightarrow> bytes" where
  "intToBytesWithoutLeadingZero key =
     (let res = FromUint64 key
      in drop (fold (\<lambda>i index. if res ! i \<noteq> 0 then i else index) [0 ..< 8] 0) res)"

definition bytesToBoolsWithSize :: "bytes \<Rightarrow> nat \<Rightarrow> ('e, bool list) outcome" where
  "bytesToBoolsWithSize key n =
     (let res = ToBools key
      in if n \<le> length res then Return (drop (length res - n) res) else Panic)"

text \<open>The logarithm of zero is infinite; its conversion to an integer makes the slice panic.\<close>

definition intToBinary :: "u64 \<Rightarrow> ('e, bool list) outcome" where
  "intToBinary key =
     (if key = 0 then Panic
      else bytesToBoolsWithSize (intToBytesWithoutLeadingZero key) (floor_log2 (unat key) + 1))"

fun path_loop :: "u64 \<Rightarrow> bytes list \<Rightarrow> nat list \<Rightarrow> nat \<Rightarrow> bytes \<Rightarrow> ('e, bytes) outcome" where
  "path_loop n appendPath [] cnt currentHash = Return currentHash"
| "path_loop n appendPath (i # is) cnt currentHash =
     (if size_bit n i
      then (if cnt < length appendPath
            then path_loop n appendPath is (cnt + 1)
                   (branchHash (appendPath ! cnt @ currentHash))
            else Panic)
      else path_loop n appendPath is cnt currentHash)"

definition CalculateRootFromAppendPath ::
    "bytes \<Rightarrow> bytes list \<Rightarrow> u64 \<Rightarrow> ('e, RootWithAppendPath) outcome" where
  "CalculateRootFromAppendPath value appendPath n =
     (let newLeafHash = leafHash value
      in obind (intToBinary n) (\<lambda>binaryKeys.
         obind (path_loop n appendPath [0 ..< length binaryKeys] 0 newLeafHash) (\<lambda>newRoot.
           let i = subTreeIndex n (getHeight n)
           in if i \<le> length appendPath
              then Return \<lparr>ra_Root = newRoot,
                           ra_AppendPath = fold_path appendPath newLeafHash # drop i appendPath,
                           ra_Size = n + 1\<rparr>
              else Panic)))"

definition getRootFromPath :: "bytes list \<Rightarrow> ('e, bytes) outcome" where
  "getRootFromPath paths = (case paths of [] \<Rightarrow> Panic | p # ps \<Rightarrow> Return (fold_path ps p))"

section \<open>Perfect subtrees\<close>

lemma fold_path_append: "fold_path (xs @ ys) c = fold_path ys (fold_path xs c)"
  by (induction xs arbitrary: c) auto

text \<open>The roots of the perfect subtrees of the data, the rightmost first.\<close>

function peaks :: "bytes list \<Rightarrow> bytes list" where
  "peaks data =
     (if data = [] then []
      else let p = 2 ^ floor_log2 (length data)
           in peaks (drop p data) @ [calculateRoot (take p data)])"
  by pat_completeness auto
termination
proof (relation "measure length")
  fix data :: "bytes list" and p
  assume "data \<noteq> []" "p = (2::nat) ^ floor_log2 (length data)"
  then show "(drop p data, data) \<in> measure length" by simp
qed simp

declare peaks.simps [simp del]

lemma calculateRoot_single [simp]: "calculateRoot [x] = leafHash x"
  by (simp add: calculateRoot.simps)

lemma calculateRoot_perfect:
  assumes "length xs = 2 ^ k" "length ys = 2 ^ k"
  shows "calculateRoot (xs @ ys) = branchHash (calculateRoot xs @ calculateRoot ys)"
proof -
  have "(2::nat) ^ k + 2 ^ k - 1 < 2 ^ Suc k" "2 ^ k \<le> (2::nat) ^ k + 2 ^ k - 1" 
    using zero_less_power [of "2::nat" k] by (simp_all only: power_Suc, linarith+)
  then have "floor_log2 (2 ^ k + 2 ^ k - 1) = k" using floor_log2_unique by blast
  moreover have "(2::nat) ^ k + 2 ^ k \<noteq> Suc 0" using zero_less_power [of "2::nat" k] by linarith
  ultimately show ?thesis using assms by (subst calculateRoot.simps) (simp add: Let_def)
qed

lemma calculateRoot_split:
  assumes "length xs = 2 ^ k" "ys \<noteq> []" "length ys < 2 ^ k"
  shows "calculateRoot (xs @ ys) = branchHash (calculateRoot xs @ calculateRoot ys)"
proof -
  have "floor_log2 (2 ^ k + length ys - 1) = k"
    using assms by (intro floor_log2_unique) (cases ys; simp)+
  moreover have "2 ^ k + length ys \<noteq> Suc 0"
    using assms zero_less_power [of "2::nat" k] by (cases ys) auto
  ultimately show ?thesis using assms by (subst calculateRoot.simps) (simp add: Let_def)
qed

lemma peaks_split:
  assumes "length xs = 2 ^ k" "length ys < 2 ^ k"
  shows "peaks (xs @ ys) = peaks ys @ [calculateRoot xs]"
proof -
  have "floor_log2 (length (xs @ ys)) = k" using assms by (intro floor_log2_unique) auto
  moreover have "xs \<noteq> []" using assms(1) by auto
  ultimately show ?thesis using assms(1) by (subst peaks.simps) (simp add: Let_def)
qed

lemma power_split:
  assumes "xs \<noteq> []"
  obtains k us vs where "xs = us @ vs" "length us = 2 ^ k" "length vs < 2 ^ k"
proof
  let ?k = "floor_log2 (length xs)"
  have "2 ^ ?k \<le> length xs" "length xs < 2 ^ Suc ?k" using assms floor_log2_bounds [of "length xs"] by auto
  then show "xs = take (2 ^ ?k) xs @ drop (2 ^ ?k) xs" "length (take (2 ^ ?k) xs) = 2 ^ ?k" "length (drop (2 ^ ?k) xs) < 2 ^ ?k"
    by auto
qed

lemma peaks_Nil [simp]: "peaks [] = []"
  by (simp add: peaks.simps)

lemma peaks_not_Nil: "xs \<noteq> [] \<Longrightarrow> peaks xs \<noteq> []"
  by (subst peaks.simps) (simp add: Let_def)

lemma calculateRoot_peaks:
  "xs \<noteq> [] \<Longrightarrow> calculateRoot xs = fold_path (tl (peaks xs)) (hd (peaks xs))"
proof (induction xs rule: length_induct)
  case (1 xs)
  obtain k us vs where s: "xs = us @ vs" "length us = 2 ^ k" "length vs < 2 ^ k"
    using power_split [OF "1.prems"] .
  show ?case
  proof (cases "vs = []")
    case True
    then show ?thesis using s peaks_split [OF s(2), of "[]"] by simp
  next
    case False
    have "us \<noteq> []" using s(2) by auto
    then have "calculateRoot vs = fold_path (tl (peaks vs)) (hd (peaks vs))"
      using "1.IH" False s(1) by simp
    then show ?thesis
      using False s calculateRoot_split [OF s(2) False s(3)] peaks_split [OF s(2,3)] peaks_not_Nil [OF False]
      by (simp add: fold_path_append)
  qed
qed

function trailing_ones :: "nat \<Rightarrow> nat" where
  "trailing_ones n = (if odd n then Suc (trailing_ones (n div 2)) else 0)"
  by pat_completeness auto
termination by (relation "measure id") (auto elim: oddE)

declare trailing_ones.simps [simp del]

lemma trailing_ones_add:
  "m < 2 ^ k \<Longrightarrow> Suc m \<noteq> 2 ^ k \<Longrightarrow> trailing_ones (2 ^ k + m) = trailing_ones m"
proof (induction k arbitrary: m)
  case (Suc k)
  show ?case
  proof (cases "odd m")
    case True
    then obtain j where j: "m = 2 * j + 1" by (auto elim: oddE)
    then have "trailing_ones (2 ^ k + j) = trailing_ones j" using Suc.prems by (intro Suc.IH) auto
    then show ?thesis using True j by (subst (1 2) trailing_ones.simps) simp
  next
    case False
    then show ?thesis by (subst (1 2) trailing_ones.simps) simp
  qed
qed simp

lemma trailing_ones_full: "Suc m = 2 ^ k \<Longrightarrow> trailing_ones m = k"
proof (induction k arbitrary: m)
  case 0
  then show ?case by (simp add: trailing_ones.simps)
next
  case (Suc k)
  then have "odd m" by (metis even_Suc even_mult_iff even_numeral power_Suc)
  then obtain j where j: "m = 2 * j + 1" by (auto elim: oddE)
  then have "trailing_ones j = k" using Suc.prems by (intro Suc.IH) auto
  then show ?case using j by (subst trailing_ones.simps) simp
qed

lemma peaks_snoc:
  "peaks (xs @ [v]) =
     fold_path (take (trailing_ones (length xs)) (peaks xs)) (leafHash v)
     # drop (trailing_ones (length xs)) (peaks xs)
   \<and> trailing_ones (length xs) \<le> length (peaks xs)"
proof (induction xs rule: length_induct)
  case (1 xs)
  show ?case
  proof (cases "xs = []")
    case True
    then show ?thesis using peaks_split [of "[v]" 0 "[]"] by (simp add: trailing_ones.simps)
  next
    case False
    obtain k us ws where s: "xs = us @ ws" "length us = 2 ^ k" "length ws < 2 ^ k"
      using power_split [OF False] .
    let ?t = "trailing_ones (length ws)"
    have "us \<noteq> []" using s(2) by auto
    then have IH: "peaks (ws @ [v]) = fold_path (take ?t (peaks ws)) (leafHash v) # drop ?t (peaks ws)"
      "?t \<le> length (peaks ws)" using "1.IH" s(1) by auto
    have P: "peaks xs = peaks ws @ [calculateRoot us]" using peaks_split [OF s(2,3)] s(1) by simp
    show ?thesis
    proof (cases "Suc (length ws) = 2 ^ k")
      case full: True
      have t: "?t = k" "trailing_ones (length xs) = Suc k"
        using full s trailing_ones_full [of "length ws" k] trailing_ones_full [of "length xs" "Suc k"] by auto
      have one: "peaks (ws @ [v]) = [calculateRoot (ws @ [v])]"
        using peaks_split [of "ws @ [v]" k "[]"] full by simp
      have all: "peaks (us @ ws @ [v]) = [calculateRoot (us @ ws @ [v])]"
        using peaks_split [of "us @ ws @ [v]" "Suc k" "[]"] full s(2) by simp
      have "calculateRoot (us @ ws @ [v]) = branchHash (calculateRoot us @ calculateRoot (ws @ [v]))"
        using calculateRoot_perfect [of us k "ws @ [v]"] s(2) full by simp
      then show ?thesis using IH t one all P s(1) by (auto simp: fold_path_append)
    next
      case part: False
      have "trailing_ones (length xs) = ?t" using s part trailing_ones_add [OF s(3)] by simp
      moreover have "peaks (us @ ws @ [v]) = peaks (ws @ [v]) @ [calculateRoot us]"
        using s part by (intro peaks_split) auto
      ultimately show ?thesis using IH P s(1) by simp
    qed
  qed
qed

lemma calculateRoot_snoc: "calculateRoot (xs @ [v]) = fold_path (peaks xs) (leafHash v)"
  using calculateRoot_peaks [of "xs @ [v]"] peaks_snoc [of xs v]
    fold_path_append [of "take (trailing_ones (length xs)) (peaks xs)" "drop (trailing_ones (length xs)) (peaks xs)"]
  by simp
section \<open>The append path\<close>

lemma size_bit_iff [simp]: "size_bit n h \<longleftrightarrow> bit (unat n) h"
proof -
  have "drop_bit h n AND 1 = 1 \<longleftrightarrow> bit n h"
    by (simp add: bit_iff_odd_drop_bit and_one_eq odd_iff_mod_2_eq_one)
  moreover have "bit n h \<longleftrightarrow> bit (unat n) h" by (auto simp: bit_unsigned_iff dest: bit_imp_le_length)
  ultimately show ?thesis by (simp add: size_bit_def)
qed

lemma size_less_height: "n \<noteq> 0 \<Longrightarrow> unat n < 2 ^ getHeight n"
  using ceil_log2_bound [of "unat n"] zero_less_power [of "2 :: nat" "ceil_log2 (unat n)"]
  by (simp only: getHeight_def unat_gt_0 power_add power_one_right, linarith)

lemma bit_power_add: "m < 2 ^ k \<Longrightarrow> bit (2 ^ k + m) j \<longleftrightarrow> j = k \<or> bit m j" for m :: nat
proof -
  assume m: "m < 2 ^ k"
  have "\<not> bit m i" if "k \<le> i" for i
  proof -
    have "m < 2 ^ i" using m that power_increasing [of k i "2 :: nat"] by linarith
    then show ?thesis by (simp add: bit_iff_odd)
  qed
  then have "2 ^ k + m = or (2 ^ k) m"
    by (intro disjunctive_add) (auto simp: bit_2_iff bit_exp_iff)
  then show ?thesis by (auto simp: bit_or_iff bit_exp_iff)
qed

lemma length_peaks: "length xs < 2 ^ H \<Longrightarrow> length (peaks xs) = card {j. j < H \<and> bit (length xs) j}"
proof (induction xs rule: length_induct)
  case (1 xs)
  show ?case
  proof (cases "xs = []")
    case False
    obtain k us ws where s: "xs = us @ ws" "length us = 2 ^ k" "length ws < 2 ^ k"
      using power_split [OF False] .
    have "us \<noteq> []" using s(2) by auto
    then have IH: "length (peaks ws) = card {j. j < H \<and> bit (length ws) j}" using "1.IH" "1.prems" s(1) by simp
    have "(2::nat) ^ k < 2 ^ H" using s "1.prems" by (simp add: add_lessD1)
    then have "k < H" by simp
    then have "{j. j < H \<and> bit (length xs) j} = insert k {j. j < H \<and> bit (length ws) j}"
      using s bit_power_add [OF s(3)] by auto
    moreover have "\<not> bit (length ws) k" using s(3) by (auto simp: bit_iff_odd)
    ultimately show ?thesis using IH peaks_split [OF s(2,3)] s(1) by simp
  qed simp
qed

lemma takeWhile_trailing_ones: "n < 2 ^ H \<Longrightarrow> length (takeWhile (bit n) [0 ..< H]) = trailing_ones n"
proof (induction H arbitrary: n)
  case 0
  then show ?case by (simp add: trailing_ones.simps)
next
  case (Suc H)
  have "length (takeWhile (bit (n div 2)) [0 ..< H]) = trailing_ones (n div 2)"
    using Suc.prems by (intro Suc.IH) auto
  moreover have "[0 ..< Suc H] = 0 # map Suc [0 ..< H]" by (simp add: map_Suc_upt upt_conv_Cons del: upt_Suc)
  moreover have "bit n \<circ> Suc = bit (n div 2)" by (auto simp: bit_Suc)
  ultimately show ?case by (subst trailing_ones.simps) (simp add: takeWhile_map bit_0 del: upt_Suc)
qed

lemma Append_node_hash:
  "Append_node height a c db = Return (c', db') \<Longrightarrow> c' = branchHash (a @ c)"
  by (auto simp: Append_node_def Let_def split: outcome.splits if_splits)

lemma Append_loop_hash:
  assumes "Append_loop d height hs cnt c db = Return (c', db')"
  shows "c' = fold_path (take (length (filter (bit (unat (rt_size d))) hs)) (drop cnt (rt_appendPath d))) c"
  using assms
proof (induction hs arbitrary: cnt c db)
  case (Cons h hs)
  show ?case
  proof (cases "bit (unat (rt_size d)) h")
    case True
    let ?a = "rt_appendPath d ! cnt"
    from True Cons.prems obtain c1 db1 where s: "cnt < length (rt_appendPath d)"
      "Append_node height ?a c db = Return (c1, db1)"
      "Append_loop d height hs (cnt + 1) c1 db1 = Return (c', db')"
      by (auto simp: obind_eq_Return split: if_splits)
    have "drop cnt (rt_appendPath d) = ?a # drop (Suc cnt) (rt_appendPath d)"
      using s(1) by (simp add: Cons_nth_drop_Suc)
    then show ?thesis using Cons.IH [OF s(3)] Append_node_hash [OF s(2)] True by simp
  next
    case False
    then show ?thesis using Cons by simp
  qed
qed simp

lemma path_loop_hash:
  "cnt + length (filter (bit (unat n)) is) \<le> length path \<Longrightarrow>
   path_loop n path is cnt c = Return (fold_path (take (length (filter (bit (unat n)) is)) (drop cnt path)) c)"
proof (induction "is" arbitrary: cnt c)
  case (Cons i "is")
  show ?case
  proof (cases "bit (unat n) i")
    case True
    then have "drop cnt path = path ! cnt # drop (Suc cnt) path"
      using Cons.prems by (simp add: Cons_nth_drop_Suc)
    then show ?thesis using Cons True by simp
  qed (use Cons in simp)
qed simp

section \<open>Properties\<close>

text \<open>
  What the tree says of the values appended so far: its root is the hash of the whole
  list, its append path the roots of the perfect subtrees, its size the length.
\<close>

definition rmt_holds :: "RegularMerkleTree \<Rightarrow> bytes list \<Rightarrow> bool" where
  "rmt_holds d data \<longleftrightarrow>
     rt_root d = CalculateRoot data \<and> rt_appendPath d = peaks data \<and> unat (rt_size d) = length data"

lemma length_filter_bits:
  assumes "unat n = length data" "length data < 2 ^ H"
  shows "length (filter (bit (unat n)) [0 ..< H]) = length (peaks data)"
proof -
  have "length (filter (bit (unat n)) [0 ..< H]) = card (set (filter (bit (unat n)) [0 ..< H]))"
    by (rule distinct_card [symmetric]) simp
  also have "set (filter (bit (unat n)) [0 ..< H]) = {j. j < H \<and> bit (length data) j}"
    using assms(1) by auto
  finally show ?thesis using length_peaks [OF assms(2)] by simp
qed

lemma NewRegularMerkleTree_holds: "rmt_holds (NewRegularMerkleTree db) []"
  by (simp add: rmt_holds_def NewRegularMerkleTree_def CalculateRoot_def calculateRoot.simps)

lemma saveInfo_holds [simp]: "rmt_holds (saveInfo d) data = rmt_holds d data"
  by (simp add: rmt_holds_def saveInfo_def)

lemma unat_Suc: "n < 2 ^ 40 \<Longrightarrow> unat w = n \<Longrightarrow> unat (w + 1 :: u64) = Suc n"
  by (simp add: unat_word_ariths)

text \<open>
  C20: Appending to a stored tree gives the root, the append path and the size that hashing the
  whole extended list gives.
\<close>

theorem append_equals_calculate_root:
  assumes "rmt_holds d data" "length data < 2 ^ 40" "Append d value = Return d'"
  shows "rmt_holds d' (data @ [value])"
proof (cases "rt_size d = 0")
  case True
  then have "data = []" using assms(1) by (simp add: rmt_holds_def)
  then show ?thesis
    using True assms(1,3) peaks_split [of "[value]" 0 "[]"]
    by (auto simp: rmt_holds_def Append_def Let_def CalculateRoot_def)
next
  case False
  let ?H = "getHeight (rt_size d)"
  have h: "unat (rt_size d) = length data" "rt_appendPath d = peaks data" "length data < 2 ^ ?H"
    using assms(1) size_less_height [OF False] by (auto simp: rmt_holds_def)
  have t: "subTreeIndex (rt_size d) ?H = trailing_ones (length data)"
    using takeWhile_trailing_ones [OF h(3)] h(1) by (simp add: subTreeIndex_def cong: takeWhile_cong)
  from assms(3) False t obtain c db where r:
    "Append_loop d ?H [0 ..< ?H] 0 (leafHash value) (saveNode (rt_db d) (leafHash value) \<lparr>nodeIndex = rt_size d, layerIndex = 0\<rparr>) = Return (c, db)"
    "d' = saveInfo (d\<lparr>rt_root := c,
        rt_appendPath := fold_path (take (trailing_ones (length data)) (rt_appendPath d)) (leafHash value)
                         # drop (trailing_ones (length data)) (rt_appendPath d),
        rt_size := rt_size d + 1, rt_db := db\<rparr>)"
    by (auto simp: Append_def Let_def split: outcome.splits if_splits)
  have "c = fold_path (peaks data) (leafHash value)"
    using Append_loop_hash [OF r(1)] length_filter_bits [OF h(1,3)] h(2) by simp
  then show ?thesis
    using r(2) peaks_snoc [of data "value"] calculateRoot_snoc [of data "value"] h assms(2) unat_Suc [of "length data" "rt_size d"]
    by (simp add: rmt_holds_def CalculateRoot_def saveInfo_def)
qed

lemma Append_first:
  "Append (NewRegularMerkleTree db) v =
     Return \<lparr>rt_root = leafHash v, rt_appendPath = [leafHash v], rt_size = 1,
             rt_db = saveNode db (leafHash v) \<lparr>nodeIndex = 0, layerIndex = 0\<rparr>\<rparr>"
  by (simp add: Append_def NewRegularMerkleTree_def Let_def)

lemma newNodeLocationFromKey_key [simp]: "newNodeLocationFromKey (nodeLocation_key l) = Return l"
  by (simp add: newNodeLocationFromKey_def nodeLocation_key_def JoinSize_eq
      ToUint64_FromUint64 [of _ "[]", simplified])

lemma leaf_not_key [simp]: "leafHash v \<noteq> nodeLocation_key l"
proof
  assume "leafHash v = nodeLocation_key l"
  then have "length (leafHash v) = length (nodeLocation_key l)" by simp
  then show False by (simp add: leafHash_def nodeLocation_key_def JoinSize_eq)
qed

theorem append_equals_calculate_root_witness:
  "\<exists>d1 d2. Append (NewRegularMerkleTree Map.empty) [1] = Return d1
     \<and> Append d1 [2] = Return d2 \<and> rmt_holds d2 [[1], [2]]"
proof -
  let ?d1 = "\<lparr>rt_root = leafHash [1], rt_appendPath = [leafHash [1]], rt_size = 1,
             rt_db = saveNode Map.empty (leafHash [1]) \<lparr>nodeIndex = 0, layerIndex = 0\<rparr>\<rparr>"
  have 1: "rmt_holds ?d1 [[1]]"
    using append_equals_calculate_root [OF NewRegularMerkleTree_holds, of Map.empty "[1]"]
    by (simp add: Append_first)
  have "\<exists>i. getLocation (saveNode (rt_db ?d1) (leafHash [2]) \<lparr>nodeIndex = 1, layerIndex = 0\<rparr>) (leafHash [1])
      = Return \<lparr>nodeIndex = i, layerIndex = 0\<rparr>"
    by (auto simp: getLocation_def saveNode_def)
  moreover have "getHeight 1 = 1" "subTreeIndex 1 1 = 1" "size_bit 1 0" by code_simp+
  ultimately obtain d2 where "Append ?d1 [2] = Return d2"
    by (auto simp: Append_def Append_node_def Let_def saveInfo_def)
  then show ?thesis
    using append_equals_calculate_root [OF 1, of "[2]"] by (auto simp: Append_first)
qed

lemma fold_index_bound: "\<forall>i \<in> set is. i < 8 \<Longrightarrow> j < 8 \<Longrightarrow> fold (\<lambda>i index. if P i then i else index) is j < (8 :: nat)"
  by (induction "is" arbitrary: j) auto

lemma intToBinary_small:
  assumes "n \<noteq> 0" "unat n < 256"
  shows "\<exists>bs. intToBinary n = Return bs \<and> length bs = floor_log2 (unat n) + 1"
proof -
  let ?b = "intToBytesWithoutLeadingZero n"
  have "floor_log2 (unat n) < 8"
  proof (rule ccontr)
    assume "\<not> floor_log2 (unat n) < 8"
    then have "(2::nat) ^ 8 \<le> 2 ^ floor_log2 (unat n)" by (intro power_increasing) auto
    then show False using floor_log2_bounds [of "unat n"] assms by (simp add: unat_gt_0)
  qed
  moreover have "1 \<le> length ?b"
    using fold_index_bound [of "[0 ..< 8]" 0 "\<lambda>i. FromUint64 n ! i \<noteq> 0"]
    by (simp add: intToBytesWithoutLeadingZero_def Let_def del: upt_Suc upt.simps)
  ultimately have "floor_log2 (unat n) + 1 \<le> length (ToBools ?b)" by simp
  then show ?thesis using assms by (simp add: intToBinary_def bytesToBoolsWithSize_def Let_def)
qed

text \<open>
  C21: For the sizes up to 255, the root computed from an append path alone is the root of the
  whole extended list; but the first element of the append path returned is always that root,
  and not the root of the last perfect subtree.
\<close>

theorem calculate_root_from_append_path:
  assumes "data \<noteq> []" "length data < 256"
  shows "(CalculateRootFromAppendPath value (peaks data) (of_nat (length data)) :: ('e, _) outcome) =
    Return \<lparr>ra_Root = CalculateRoot (data @ [value]),
            ra_AppendPath = CalculateRoot (data @ [value]) # tl (peaks (data @ [value])),
            ra_Size = of_nat (length data) + 1\<rparr>"
proof -
  let ?n = "of_nat (length data) :: u64"
  have n: "unat ?n = length data" "?n \<noteq> 0"
    using assms by (auto simp: unat_of_nat word_of_nat_eq_0_iff dest: dvd_imp_le)
  have h: "length data < 2 ^ getHeight ?n" "length data < 2 ^ Suc (floor_log2 (length data))"
    using size_less_height [OF n(2)] n(1) floor_log2_bounds [of "length data"] assms(1) by auto
  have t: "subTreeIndex ?n (getHeight ?n) = trailing_ones (length data)"
    using takeWhile_trailing_ones [OF h(1)] n(1) by (simp add: subTreeIndex_def cong: takeWhile_cong)
  obtain bs where bs: "(intToBinary ?n :: ('e, _) outcome) = Return bs" "length bs = Suc (floor_log2 (length data))"
    using intToBinary_small [of ?n, where ?'a = 'e] n assms by auto
  have "(path_loop ?n (peaks data) [0 ..< length bs] 0 (leafHash value) :: ('e, _) outcome)
      = Return (fold_path (peaks data) (leafHash value))"
    using length_filter_bits [OF n(1) h(2)] path_loop_hash [of 0 ?n "[0 ..< length bs]" "peaks data"] bs(2)
    by simp
  then show ?thesis
    using bs(1) t peaks_snoc [of data "value"] calculateRoot_snoc [of data "value"]
    by (simp add: CalculateRootFromAppendPath_def Let_def CalculateRoot_def)
qed

theorem calculate_root_from_append_path_witness:
  "(CalculateRootFromAppendPath [3] (peaks [[1], [2]]) 2 :: (unit, _) outcome) =
    Return \<lparr>ra_Root = CalculateRoot [[1], [2], [3]],
            ra_AppendPath = CalculateRoot [[1], [2], [3]] # tl (peaks [[1], [2], [3]]), ra_Size = 3\<rparr>"
  using calculate_root_from_append_path [of "[[1], [2]]" "[3]"] by simp


end
