(* ===== verification/Blockchain.thy ===== *)
theory Blockchain
  imports Blockchain_Codec Rmt
begin

text \<open>
  Blocks, headers, assets, transactions and events of \<^verbatim>\<open>pkg/blockchain\<close>: construction from
  bytes (\<^verbatim>\<open>NewBlock\<close>, \<^verbatim>\<open>NewBlockHeader\<close>, \<^verbatim>\<open>NewTransaction\<close>, \<^verbatim>\<open>NewBlockAsset\<close>,
  \<^verbatim>\<open>NewEvent\<close>), the cached IDs, the signed parts, static validation, genesis blocks,
  the block assets as a map, and the keys under which events enter the event tree.

  Ed25519 is \<^verbatim>\<open>golang.org/x/crypto\<close>: \<open>ed_Sign\<close> and \<open>ed_Verify\<close> are parameters, and so are the
  Unicode normalisation \<open>nfc\<close> and the quick check \<open>is_normal\<close> of \<^verbatim>\<open>golang.org/x/text\<close>.
  A nil pointer is \<open>None\<close>, and the method calls that follow it panic.
\<close>

datatype block_error =
    Err_codec codec_error
  | Err_previous_block_id
  | Err_generator_address
  | Err_block_signature
  | Err_transaction_root
  | Err_asset_root
  | Err_assets_not_sorted
  | Err_assets_not_unique
  | Err_genesis_version
  | Err_genesis_transaction_root
  | Err_genesis_generator_address
  | Err_genesis_signature
  | Err_genesis_payload
  | Err_module
  | Err_command
  | Err_params_size
  | Err_sender_public_key
  | Err_no_signature
  | Err_signature_length
  | Err_event_name
  | Err_event_data_size
  | Err_event_no_topic
  | Err_event_topics

definition AddressLength :: nat where
  "AddressLength = 20"

section \<open>Transactions\<close>

definition MaxTransactionParamsSize :: nat where
  "MaxTransactionParamsSize = 14 * 1024"

definition alphanumeric :: "bytes \<Rightarrow> bool" where
  "alphanumeric s \<longleftrightarrow>
     list_all (\<lambda>c. 0x61 \<le> c \<and> c \<le> 0x7A \<or> 0x41 \<le> c \<and> c \<le> 0x5A \<or> 0x30 \<le> c \<and> c \<le> 0x39) s"

definition Transaction_Init :: "(bytes \<Rightarrow> bytes) \<Rightarrow> Transaction \<Rightarrow> Transaction" where
  "Transaction_Init nfc t =
     (let txBytes = Transaction_Encode nfc t
      in t\<lparr>tx_ID := Hash txBytes, tx_size := length txBytes\<rparr>)"

definition NewTransaction ::
    "(bytes \<Rightarrow> bytes) \<Rightarrow> (bytes \<Rightarrow> bool) \<Rightarrow> bytes \<Rightarrow> (block_error, Transaction) outcome" where
  "NewTransaction nfc is_normal val =
     obind (wrap_error Err_codec (Transaction_DecodeStrict is_normal val))
       (\<lambda>tx. Return (Transaction_Init nfc tx))"

definition Transaction_SenderAddress :: "Transaction \<Rightarrow> bytes" where
  "Transaction_SenderAddress t = GetAddress (tx_SenderPublicKey t)"

definition Transaction_SigningBytes :: "(bytes \<Rightarrow> bytes) \<Rightarrow> Transaction \<Rightarrow> bytes" where
  "Transaction_SigningBytes nfc t =
     SigningTransaction_Encode nfc
       \<lparr>stx_Module = tx_Module t, stx_Command = tx_Command t, stx_Nonce = tx_Nonce t,
        stx_Fee = tx_Fee t, stx_SenderPublicKey = tx_SenderPublicKey t, stx_Params = tx_Params t\<rparr>"

text \<open>The tags are \<^verbatim>\<open>LSK_BH_\<close> and \<^verbatim>\<open>LSK_TX_\<close>.\<close>

definition TagBlockHeader :: bytes where
  "TagBlockHeader = [0x4C, 0x53, 0x4B, 0x5F, 0x42, 0x48, 0x5F]"

definition TagTransaction :: bytes where
  "TagTransaction = [0x4C, 0x53, 0x4B, 0x5F, 0x54, 0x58, 0x5F]"

definition Transaction_GetSignature ::
    "(bytes \<Rightarrow> bytes \<Rightarrow> ('e, bytes) outcome) \<Rightarrow> (bytes \<Rightarrow> bytes) \<Rightarrow> Transaction
     \<Rightarrow> bytes \<Rightarrow> bytes \<Rightarrow> ('e, bytes) outcome" where
  "Transaction_GetSignature ed_Sign nfc t chainID privateKey =
     ed_Sign privateKey (Hash (Join [TagTransaction, chainID, Transaction_SigningBytes nfc t]))"

record frozenTransaction =
  fz_id :: bytes
  fz_size :: nat
  fz_module :: bytes
  fz_command :: bytes
  fz_nonce :: u64
  fz_fee :: u64
  fz_senderPublicKey :: bytes
  fz_params :: bytes
  fz_signatures :: "bytes list"

definition Transaction_Freeze :: "Transaction \<Rightarrow> frozenTransaction" where
  "Transaction_Freeze t =
     \<lparr>fz_id = tx_ID t, fz_size = tx_size t, fz_module = tx_Module t, fz_command = tx_Command t,
      fz_nonce = tx_Nonce t, fz_fee = tx_Fee t, fz_senderPublicKey = tx_SenderPublicKey t,
      fz_params = tx_Params t, fz_signatures = []\<rparr>"

definition frozenTransaction_SigningBytes :: "(bytes \<Rightarrow> bytes) \<Rightarrow> frozenTransaction \<Rightarrow> bytes" where
  "frozenTransaction_SigningBytes nfc t =
     SigningTransaction_Encode nfc
       \<lparr>stx_Module = fz_module t, stx_Command = fz_command t, stx_Nonce = fz_nonce t,
        stx_Fee = fz_fee t, stx_SenderPublicKey = fz_senderPublicKey t, stx_Params = fz_params t\<rparr>"

definition Transaction_Validate :: "Transaction \<Rightarrow> (block_error, unit) outcome" where
  "Transaction_Validate t =
     (if \<not> alphanumeric (tx_Module t) then Error Err_module
      else if \<not> alphanumeric (tx_Command t) then Error Err_command
      else if length (tx_Params t) > MaxTransactionParamsSize then Error Err_params_size
      else if length (tx_SenderPublicKey t) \<noteq> EdPublicKeyLength then Error Err_sender_public_key
      else if length (tx_Signatures t) = 0 then Error Err_no_signature
      else if \<exists>sig \<in> set (tx_Signatures t). length sig \<noteq> EdSignatureLength
           then Error Err_signature_length
      else Return ())"

section \<open>Block assets\<close>

definition NewBlockAsset :: "(bytes \<Rightarrow> bool) \<Rightarrow> bytes \<Rightarrow> (block_error, BlockAsset) outcome" where
  "NewBlockAsset is_normal val = wrap_error Err_codec (BlockAsset_DecodeStrict is_normal val)"

definition BlockAssets_Sort :: "BlockAsset list \<Rightarrow> BlockAsset list" where
  "BlockAssets_Sort a = sort_slice (\<lambda>x y. ba_Module x < ba_Module y) a"

fun Valid_loop ::
    "BlockAsset list \<Rightarrow> BlockAsset list \<Rightarrow> bytes set \<Rightarrow> (block_error, unit) outcome" where
  "Valid_loop copied [] moduleMap = Return ()"
| "Valid_loop [] (asset # a) moduleMap = Panic"
| "Valid_loop (c # copied) (asset # a) moduleMap =
     (if ba_Module c \<noteq> ba_Module asset then Error Err_assets_not_sorted
      else if ba_Module asset \<in> moduleMap then Error Err_assets_not_unique
      else Valid_loop copied a (insert (ba_Module asset) moduleMap))"

definition BlockAssets_Valid :: "BlockAsset list \<Rightarrow> (block_error, unit) outcome" where
  "BlockAssets_Valid a = Valid_loop (BlockAssets_Sort a) a {}"

fun BlockAssets_GetAsset :: "BlockAsset list \<Rightarrow> bytes \<Rightarrow> bytes option" where
  "BlockAssets_GetAsset [] module = None"
| "BlockAssets_GetAsset (asset # a) module =
     (if ba_Module asset = module then Some (ba_Data asset) else BlockAssets_GetAsset a module)"

definition BlockAssets_GetRoot :: "(bytes \<Rightarrow> bytes) \<Rightarrow> BlockAsset list \<Rightarrow> bytes" where
  "BlockAssets_GetRoot nfc a = CalculateRoot (map (BlockAsset_Encode nfc) a)"

fun BlockAssets_SetAsset :: "BlockAsset list \<Rightarrow> bytes \<Rightarrow> bytes \<Rightarrow> BlockAsset list" where
  "BlockAssets_SetAsset [] module data = [\<lparr>ba_Module = module, ba_Data = data\<rparr>]"
| "BlockAssets_SetAsset (asset # a) module data =
     (if ba_Module asset = module then asset\<lparr>ba_Data := data\<rparr> # a
      else asset # BlockAssets_SetAsset a module data)"

section \<open>Block headers\<close>

definition AggregateCommit_Empty :: "AggregateCommit \<Rightarrow> bool" where
  "AggregateCommit_Empty c \<longleftrightarrow>
     length (ac_AggregationBits c) = 0 \<and> length (ac_CertificateSignature c) = 0"

definition BlockHeader_signingBlockHeader :: "BlockHeader \<Rightarrow> signingBlockHeader" where
  "BlockHeader_signingBlockHeader b =
     \<lparr>sbh_Version = bh_Version b, sbh_Timestamp = bh_Timestamp b, sbh_Height = bh_Height b,
      sbh_PreviousBlockID = bh_PreviousBlockID b, sbh_GeneratorAddress = bh_GeneratorAddress b,
      sbh_TransactionRoot = bh_TransactionRoot b, sbh_AssetRoot = bh_AssetRoot b,
      sbh_EventRoot = bh_EventRoot b, sbh_StateRoot = bh_StateRoot b,
      sbh_MaxHeightPrevoted = bh_MaxHeightPrevoted b,
      sbh_MaxHeightGenerated = bh_MaxHeightGenerated b,
      sbh_ImpliesMaxPrevotes = bh_ImpliesMaxPrevotes b,
      sbh_ValidatorsHash = bh_ValidatorsHash b, sbh_AggregateCommit = bh_AggregateCommit b\<rparr>"

definition BlockHeader_SigningBytes :: "BlockHeader \<Rightarrow> bytes" where
  "BlockHeader_SigningBytes b = signingBlockHeader_Encode (BlockHeader_signingBlockHeader b)"

definition BlockHeader_Init :: "BlockHeader \<Rightarrow> BlockHeader" where
  "BlockHeader_Init b = b\<lparr>bh_ID := Hash (BlockHeader_Encode b)\<rparr>"

definition signingBlockHeader_Sign ::
    "(bytes \<Rightarrow> bytes \<Rightarrow> ('e, bytes) outcome) \<Rightarrow> signingBlockHeader \<Rightarrow> bytes \<Rightarrow> bytes
     \<Rightarrow> ('e, bytes) outcome" where
  "signingBlockHeader_Sign ed_Sign s chainID privateKey =
     ed_Sign privateKey (Hash (Join [TagBlockHeader, chainID, signingBlockHeader_Encode s]))"

definition BlockHeader_Sign ::
    "(bytes \<Rightarrow> bytes \<Rightarrow> ('e, bytes) outcome) \<Rightarrow> BlockHeader \<Rightarrow> bytes \<Rightarrow> bytes
     \<Rightarrow> ('e, BlockHeader) outcome" where
  "BlockHeader_Sign ed_Sign b chainID privateKey =
     obind (signingBlockHeader_Sign ed_Sign (BlockHeader_signingBlockHeader b) chainID privateKey)
       (\<lambda>signature.
          let b = b\<lparr>bh_Signature := signature\<rparr>
          in Return (b\<lparr>bh_ID := Hash (BlockHeader_Encode b)\<rparr>))"

definition ValidateBlockSignature ::
    "(bytes \<Rightarrow> bytes \<Rightarrow> bytes \<Rightarrow> ('e, bool) outcome) \<Rightarrow> bytes \<Rightarrow> bytes \<Rightarrow> bytes \<Rightarrow> bytes
     \<Rightarrow> ('e, bool) outcome" where
  "ValidateBlockSignature ed_Verify publicKey signature chainID signingBytes =
     ed_Verify publicKey (Hash (Join [TagBlockHeader, chainID, signingBytes])) signature"

definition BlockHeader_VerifySignature ::
    "(bytes \<Rightarrow> bytes \<Rightarrow> bytes \<Rightarrow> ('e, bool) outcome) \<Rightarrow> BlockHeader \<Rightarrow> bytes \<Rightarrow> bytes
     \<Rightarrow> ('e, bool) outcome" where
  "BlockHeader_VerifySignature ed_Verify b chainID publicKey =
     ValidateBlockSignature ed_Verify publicKey (bh_Signature b) chainID (BlockHeader_SigningBytes b)"

definition NewBlockHeader :: "bytes \<Rightarrow> (block_error, BlockHeader) outcome" where
  "NewBlockHeader val =
     obind (wrap_error Err_codec (BlockHeader_Decode val)) (\<lambda>header. Return (BlockHeader_Init header))"

definition NewBlockHeaderWithValues ::
    "u32 \<Rightarrow> u32 \<Rightarrow> u32 \<Rightarrow> bytes \<Rightarrow> bytes \<Rightarrow> bytes \<Rightarrow> u32 \<Rightarrow> u32 \<Rightarrow> bytes \<Rightarrow> bytes \<Rightarrow> bytes
     \<Rightarrow> AggregateCommit option \<Rightarrow> bytes \<Rightarrow> BlockHeader" where
  "NewBlockHeaderWithValues version timestamp height previousBlockID assetRoot stateRoot
     maxHeightPrevoted maxHeightPreviouslyForged transactionRoot generatorPublicKey validatorHash
     aggregateCommit signature =
     BlockHeader_Init
       (BlockHeader_zero\<lparr>bh_Version := version, bh_Timestamp := timestamp, bh_Height := height,
          bh_PreviousBlockID := previousBlockID, bh_GeneratorAddress := generatorPublicKey,
          bh_TransactionRoot := transactionRoot, bh_AssetRoot := assetRoot, bh_StateRoot := stateRoot,
          bh_MaxHeightPrevoted := maxHeightPrevoted,
          bh_MaxHeightGenerated := maxHeightPreviouslyForged, bh_ValidatorsHash := validatorHash,
          bh_AggregateCommit := aggregateCommit, bh_Signature := signature\<rparr>)"

definition BlockHeader_ValidateGenesis :: "BlockHeader \<Rightarrow> (block_error, unit) outcome" where
  "BlockHeader_ValidateGenesis b =
     (if bh_Version b \<noteq> 0 then Error Err_genesis_version
      else if \<not> Equal (bh_TransactionRoot b) (Hash []) then Error Err_genesis_transaction_root
      else if \<not> Equal (bh_GeneratorAddress b) (replicate AddressLength 0)
           then Error Err_genesis_generator_address
      else if length (bh_Signature b) \<noteq> 0 then Error Err_genesis_signature
      else Return ())"

definition BlockHeader_Validate :: "BlockHeader \<Rightarrow> (block_error, unit) outcome" where
  "BlockHeader_Validate b =
     (if length (bh_PreviousBlockID b) \<noteq> HashLengh then Error Err_previous_block_id
      else if length (bh_GeneratorAddress b) \<noteq> AddressLength then Error Err_generator_address
      else if length (bh_Signature b) \<noteq> EdSignatureLength then Error Err_block_signature
      else Return ())"

section \<open>Blocks\<close>

definition NewBlock ::
    "(bytes \<Rightarrow> bytes) \<Rightarrow> (bytes \<Rightarrow> bool) \<Rightarrow> bytes \<Rightarrow> (block_error, Block) outcome" where
  "NewBlock nfc is_normal val =
     obind (wrap_error Err_codec (RawBlock_DecodeStrict val)) (\<lambda>raw.
     obind (NewBlockHeader (rb_Header raw)) (\<lambda>header.
     obind (omapM (NewBlockAsset is_normal) (rb_Assets raw)) (\<lambda>assets.
     obind (omapM (NewTransaction nfc is_normal) (rb_Transactions raw)) (\<lambda>txs.
       Return \<lparr>blk_Header = Some header, blk_Transactions = txs, blk_Assets = assets\<rparr>))))"

text \<open>A call on the header of a block dereferences it.\<close>

definition header_of :: "Block \<Rightarrow> ('e, BlockHeader) outcome" where
  "header_of b = (case blk_Header b of None \<Rightarrow> Panic | Some h \<Rightarrow> Return h)"

definition Block_Init :: "(bytes \<Rightarrow> bytes) \<Rightarrow> Block \<Rightarrow> ('e, Block) outcome" where
  "Block_Init nfc b =
     obind (header_of b) (\<lambda>h.
       Return (b\<lparr>blk_Header := Some (BlockHeader_Init h),
                 blk_Transactions := map (Transaction_Init nfc) (blk_Transactions b)\<rparr>))"

definition Block_Validate :: "(bytes \<Rightarrow> bytes) \<Rightarrow> Block \<Rightarrow> (block_error, unit) outcome" where
  "Block_Validate nfc b =
     obind (header_of b) (\<lambda>h.
     obind (BlockHeader_Validate h) (\<lambda>_.
       if \<not> Equal (bh_TransactionRoot h) (CalculateRoot (map tx_ID (blk_Transactions b)))
       then Error Err_transaction_root
       else obind (BlockAssets_Valid (blk_Assets b)) (\<lambda>_.
         if \<not> Equal (bh_AssetRoot h) (BlockAssets_GetRoot nfc (blk_Assets b))
         then Error Err_asset_root
         else Return ())))"

definition Block_ValidateGenesis :: "(bytes \<Rightarrow> bytes) \<Rightarrow> Block \<Rightarrow> (block_error, unit) outcome" where
  "Block_ValidateGenesis nfc b =
     obind (header_of b) (\<lambda>h.
     obind (BlockHeader_ValidateGenesis h) (\<lambda>_.
       if length (blk_Transactions b) \<noteq> 0 then Error Err_genesis_payload
       else obind (BlockAssets_Valid (blk_Assets b)) (\<lambda>_.
         if \<not> Equal (bh_AssetRoot h) (BlockAssets_GetRoot nfc (blk_Assets b))
         then Error Err_asset_root
         else Return ())))"

definition NewGenesisBlock ::
    "(bytes \<Rightarrow> bytes) \<Rightarrow> u32 \<Rightarrow> u32 \<Rightarrow> bytes \<Rightarrow> BlockAsset list \<Rightarrow> Block" where
  "NewGenesisBlock nfc height timestamp previousBlockID assets =
     (let assets = BlockAssets_Sort assets
      in \<lparr>blk_Header = Some (BlockHeader_zero\<lparr>bh_Version := 0, bh_PreviousBlockID := previousBlockID,
             bh_Height := height, bh_Timestamp := timestamp,
             bh_GeneratorAddress := replicate AddressLength 0, bh_MaxHeightGenerated := 0,
             bh_MaxHeightPrevoted := height, bh_Signature := [], bh_TransactionRoot := Hash [],
             bh_AssetRoot := BlockAssets_GetRoot nfc assets,
             bh_AggregateCommit :=
               Some \<lparr>ac_Height = 0, ac_AggregationBits = [], ac_CertificateSignature = []\<rparr>\<rparr>),
          blk_Transactions = [], blk_Assets = assets\<rparr>)"

text \<open>The comparison functions dereference the headers, which are present.\<close>

definition height_of :: "Block \<Rightarrow> u32" where
  "height_of b = (case blk_Header b of None \<Rightarrow> 0 | Some h \<Rightarrow> bh_Height h)"

definition SortBlockByHeightAsc :: "Block list \<Rightarrow> Block list" where
  "SortBlockByHeightAsc blocks = sort_slice (\<lambda>x y. height_of x < height_of y) blocks"

definition SortBlockByHeightDesc :: "Block list \<Rightarrow> Block list" where
  "SortBlockByHeightDesc blocks = sort_slice (\<lambda>x y. height_of x > height_of y) blocks"

section \<open>Events\<close>

definition eventTopicHashLengthBytes :: nat where
  "eventTopicHashLengthBytes = 8"

definition eventIndexLengthBits :: nat where
  "eventIndexLengthBits = 30"

definition eventTopicIndexLengthBits :: nat where
  "eventTopicIndexLengthBits = 2"

definition EventMaxSizeBytes :: nat where
  "EventMaxSizeBytes = 1024"

definition EventTotalIndexLengthBytes :: nat where
  "EventTotalIndexLengthBytes = (eventIndexLengthBits + eventTopicIndexLengthBits) div 8"

definition EventMaxTopicsPerEvent :: nat where
  "EventMaxTopicsPerEvent = 2 ^ eventTopicIndexLengthBits"

definition MaxEventsPerBlock :: nat where
  "MaxEventsPerBlock = 2 ^ eventIndexLengthBits"

definition NewEvent :: "(bytes \<Rightarrow> bool) \<Rightarrow> bytes \<Rightarrow> (block_error, Event) outcome" where
  "NewEvent is_normal val = wrap_error Err_codec (Event_Decode is_normal val)"

definition NewEventFromValues ::
    "bytes \<Rightarrow> bytes \<Rightarrow> bytes \<Rightarrow> bytes list \<Rightarrow> u32 \<Rightarrow> u32 \<Rightarrow> Event" where
  "NewEventFromValues module name data topics height index =
     \<lparr>ev_ID = [], ev_Module = module, ev_Name = name, ev_Data = data, ev_Topics = topics,
      ev_Height = height, ev_Index = index\<rparr>"

definition NewStandardTransactionEventData :: "bool \<Rightarrow> bytes" where
  "NewStandardTransactionEventData success = StandardTransactionEvent_Encode \<lparr>ste_Success = success\<rparr>"

record EventKeyPair =
  ekp_Key :: bytes
  ekp_Value :: bytes

definition Event_UpdateID :: "Event \<Rightarrow> bytes" where
  "Event_UpdateID e =
     JoinSize EventTotalIndexLengthBytes
       [FromUint32 (ev_Height e), FromUint32 (push_bit eventTopicIndexLengthBits (ev_Index e))]"

definition Event_KeyPairs :: "(bytes \<Rightarrow> bytes) \<Rightarrow> Event \<Rightarrow> EventKeyPair list" where
  "Event_KeyPairs nfc e =
     map (\<lambda>(i, topic).
            \<lparr>ekp_Key = Join [take eventTopicHashLengthBytes (Hash topic),
                             FromUint32 (push_bit eventTopicIndexLengthBits (ev_Index e) + of_nat i)],
             ekp_Value = Event_Encode nfc e\<rparr>)
       (List.enumerate 0 (ev_Topics e))"

definition Event_Validate :: "Event \<Rightarrow> (block_error, unit) outcome" where
  "Event_Validate e =
     (if \<not> alphanumeric (ev_Module e) then Error Err_module
      else if \<not> alphanumeric (ev_Name e) then Error Err_event_name
      else if length (ev_Data e) > EventMaxSizeBytes then Error Err_event_data_size
      else if length (ev_Topics e) = 0 then Error Err_event_no_topic
      else if length (ev_Topics e) > EventMaxTopicsPerEvent then Error Err_event_topics
      else Return ())"

text \<open>The ID that \<^verbatim>\<open>UpdateID\<close> returns is dropped by \<^verbatim>\<open>UpdateIndex\<close>.\<close>

definition Events_UpdateIndex :: "Event list \<Rightarrow> Event list" where
  "Events_UpdateIndex es = map (\<lambda>(i, e). e\<lparr>ev_Index := of_nat i\<rparr>) (List.enumerate 0 es)"

section \<open>Assets as a map\<close>

text \<open>
  What the interfaces \<^verbatim>\<open>ReadableBlockAssets\<close> and \<^verbatim>\<open>WritableBlockAssets\<close> promise to the modules
  that read and write assets.
\<close>

locale writable_assets =
  fixes get :: "'s \<Rightarrow> 'k \<Rightarrow> 'v option" and set_asset :: "'s \<Rightarrow> 'k \<Rightarrow> 'v \<Rightarrow> 's"
  assumes get_set_same: "get (set_asset s k v) k = Some v"
    and get_set_other: "k \<noteq> k' \<Longrightarrow> get (set_asset s k v) k' = get s k'"
begin

lemma get_set: "get (set_asset s k v) = (get s)(k \<mapsto> v)"
  by (rule ext) (auto simp: get_set_same get_set_other)

lemma get_set_all:
  "get (fold (\<lambda>(k, v) s. set_asset s k v) kvs s) = fold (\<lambda>(k, v) m. m(k \<mapsto> v)) kvs (get s)"
  by (induction kvs arbitrary: s) (auto simp: get_set)

end

interpretation ba: writable_assets BlockAssets_GetAsset BlockAssets_SetAsset
proof
  fix a k v show "BlockAssets_GetAsset (BlockAssets_SetAsset a k v) k = Some v"
    by (induction a) auto
next
  fix a k k' v assume "k \<noteq> (k' :: bytes)"
  then show "BlockAssets_GetAsset (BlockAssets_SetAsset a k v) k' = BlockAssets_GetAsset a k'"
    by (induction a) auto
qed

lemma modules_SetAsset:
  "map ba_Module (BlockAssets_SetAsset a m d) =
     (if m \<in> ba_Module ` set a then map ba_Module a else map ba_Module a @ [m])"
  by (induction a) auto

section \<open>Validation\<close>

lemma Valid_loop_iff:
  "length copied = length a \<Longrightarrow>
   Valid_loop copied a seen = Return () \<longleftrightarrow>
     map ba_Module copied = map ba_Module a \<and> distinct (map ba_Module a)
     \<and> seen \<inter> set (map ba_Module a) = {}"
  by (induction copied a seen rule: Valid_loop.induct) auto

lemma sorted_modules_Sort: "sorted (map ba_Module (BlockAssets_Sort a))"
  unfolding BlockAssets_Sort_def by (rule sorted_sort_slice_asc)

lemma modules_Sort: "map ba_Module (BlockAssets_Sort a) = sort (map ba_Module a)"
  by (rule sym, rule properties_for_sort) (simp_all add: sorted_modules_Sort, simp add: BlockAssets_Sort_def flip: mset_map)

lemma BlockAssets_Valid_iff:
  "BlockAssets_Valid a = Return () \<longleftrightarrow> sorted_wrt (<) (map ba_Module a)"
proof -
  have "BlockAssets_Valid a = Return () \<longleftrightarrow>
      sort (map ba_Module a) = map ba_Module a \<and> distinct (map ba_Module a)"
    unfolding BlockAssets_Valid_def
    by (subst Valid_loop_iff) (simp_all add: modules_Sort, simp add: BlockAssets_Sort_def)
  also have "\<dots> \<longleftrightarrow> sorted (map ba_Module a) \<and> distinct (map ba_Module a)"
    by (metis sorted_sort sorted_sort_id)
  finally show ?thesis by (simp add: strict_sorted_iff)
qed

lemma unit_outcome_cases: "(m :: ('e, unit) outcome) = Return () \<or> (\<exists>e. m = Error e) \<or> m = Panic"
  by (cases m) auto

text \<open>
  C15: a block passes validation exactly when its header fields have the right lengths, the
  transaction root is the Merkle root of the transaction IDs, the assets are in strictly increasing
  order of their modules, and the asset root is the Merkle root of the encoded assets.
\<close>

theorem block_validate_iff:
  "Block_Validate nfc b = Return () \<longleftrightarrow>
     (\<exists>h. blk_Header b = Some h \<and> length (bh_PreviousBlockID h) = 32
        \<and> length (bh_GeneratorAddress h) = 20 \<and> length (bh_Signature h) = 64
        \<and> bh_TransactionRoot h = CalculateRoot (map tx_ID (blk_Transactions b))
        \<and> sorted_wrt (<) (map ba_Module (blk_Assets b))
        \<and> bh_AssetRoot h = CalculateRoot (map (BlockAsset_Encode nfc) (blk_Assets b)))"
  by (auto simp: Block_Validate_def header_of_def BlockHeader_Validate_def BlockAssets_GetRoot_def
      HashLengh_def AddressLength_def EdSignatureLength_def obind_eq_Return BlockAssets_Valid_iff
      split: option.splits if_splits)

definition asset_pair :: "BlockAsset \<Rightarrow> bytes \<times> bytes" where
  "asset_pair a = (ba_Module a, ba_Data a)"

lemma GetAsset_map_of: "BlockAssets_GetAsset a = map_of (map asset_pair a)"
  by (rule ext, induct_tac a) (auto simp: asset_pair_def)

lemma NewTransaction_sound:
  assumes "\<And>s. is_normal s \<Longrightarrow> nfc s = s" and "NewTransaction nfc is_normal val = Return t"
  shows "val = Transaction_Encode nfc t \<and> tx_ID t = Hash val \<and> tx_size t = length val"
proof -
  obtain d where d: "Transaction_DecodeStrict is_normal val = Return d" "t = Transaction_Init nfc d"
    using assms(2) by (auto simp: NewTransaction_def obind_eq_Return)
  have "val = Transaction_Encode (\<lambda>s. s) d \<and> Transaction_wf (\<lambda>s. s) is_normal d"
    using d(1) unfolding Transaction_DecodeStrict_def by (rule decode_strict_reads [OF Transaction_reads])
  then have "val = Transaction_Encode nfc d" using Transaction_Encode_cong [OF assms(1)] by metis
  then show ?thesis using d(2) by (simp add: Transaction_Init_def Let_def Transaction_Encode_def)
qed

text \<open>
  C16: the genesis block built from assets of pairwise different modules, in any order, passes the
  validation of genesis blocks, and its assets can still be looked up.
\<close>

theorem genesis_block_valid:
  assumes "distinct (map ba_Module assets)"
  shows "Block_ValidateGenesis nfc (NewGenesisBlock nfc height timestamp previousBlockID assets) = Return ()
    \<and> BlockAssets_GetAsset (blk_Assets (NewGenesisBlock nfc height timestamp previousBlockID assets))
      = BlockAssets_GetAsset assets"
proof -
  let ?a = "BlockAssets_Sort assets"
  have m: "map ba_Module ?a = sort (map ba_Module assets)" by (rule modules_Sort)
  then have d: "distinct (map ba_Module ?a)" using assms by (metis distinct_sort)
  then have "BlockAssets_Valid ?a = Return ()"
    using sorted_modules_Sort [of assets] by (simp add: BlockAssets_Valid_iff strict_sorted_iff)
  moreover have "map_of (map asset_pair ?a) = map_of (map asset_pair assets)"
    using assms d by (subst map_of_inject_set) (simp_all add: comp_def asset_pair_def, simp add: BlockAssets_Sort_def)
  ultimately show ?thesis
    by (auto simp: NewGenesisBlock_def Block_ValidateGenesis_def header_of_def BlockHeader_ValidateGenesis_def
        BlockHeader_zero_def Let_def GetAsset_map_of)
qed

definition sample_assets :: "BlockAsset list" where
  "sample_assets = [\<lparr>ba_Module = [112], ba_Data = [1]\<rparr>, \<lparr>ba_Module = [97], ba_Data = []\<rparr>]"

theorem genesis_block_valid_witness:
  "Block_ValidateGenesis (\<lambda>s. s) (NewGenesisBlock (\<lambda>s. s) 0 5 (replicate 32 0) sample_assets) = Return ()"
proof -
  have "distinct (map ba_Module sample_assets)" by code_simp
  then show ?thesis using genesis_block_valid by blast
qed

lemma Block_Encode_raw:
  "blk_Header b = Some h \<Longrightarrow>
   Block_Encode nfc b = RawBlock_Encode
     \<lparr>rb_Header = BlockHeader_Encode h, rb_Transactions = map (Transaction_Encode nfc) (blk_Transactions b),
      rb_Assets = map (BlockAsset_Encode nfc) (blk_Assets b)\<rparr>"
  by (simp add: Block_Encode_def RawBlock_Encode_def write_all_eq f_option_def)

lemma length_f_bytes: "length x < length (f_bytes n x)"
  by (simp add: f_bytes_def)

lemma length_f_array: "x \<in> set xs \<Longrightarrow> length x < length (f_array n xs)"
proof (induction xs)
  case (Cons y ys)
  then show ?case using length_f_bytes [of y n] by (fastforce simp: f_array_def)
qed simp

lemma RawBlock_parts:
  "length (rb_Header r) < length (RawBlock_Encode r)"
  "x \<in> set (rb_Transactions r) \<Longrightarrow> length x < length (RawBlock_Encode r)"
  "x \<in> set (rb_Assets r) \<Longrightarrow> length x < length (RawBlock_Encode r)"
  using length_f_bytes [of "rb_Header r" 1] length_f_array [of x "rb_Transactions r" 2]
    length_f_array [of x "rb_Assets r" 3]
  by (auto simp: RawBlock_Encode_def write_all_eq)

lemma NewBlockHeader_Encode:
  "BlockHeader_wf h \<Longrightarrow> length (BlockHeader_Encode h) < 2 ^ 63 \<Longrightarrow>
   NewBlockHeader (BlockHeader_Encode h) = Return (BlockHeader_Init h)"
  using bh_msg.decode_encode [of h] by (simp add: NewBlockHeader_def BlockHeader_Decode_def)

lemma NewTransaction_Encode:
  "Transaction_wf nfc is_normal t \<Longrightarrow> length (Transaction_Encode nfc t) < 2 ^ 63 \<Longrightarrow>
   NewTransaction nfc is_normal (Transaction_Encode nfc t) = Return (Transaction_Init nfc t)"
  using tx_msg.decode_strict_encode [of nfc is_normal t]
  by (simp add: NewTransaction_def Transaction_DecodeStrict_def)

lemma NewBlockAsset_Encode:
  "BlockAsset_wf nfc is_normal a \<Longrightarrow> length (BlockAsset_Encode nfc a) < 2 ^ 63 \<Longrightarrow>
   NewBlockAsset is_normal (BlockAsset_Encode nfc a) = Return a"
  using ba_msg.decode_strict_encode [of nfc is_normal a]
  by (simp add: NewBlockAsset_def BlockAsset_DecodeStrict_def)

lemma NewBlock_Encode:
  assumes wf: "Block_wf nfc is_normal b" and len: "length (Block_Encode nfc b) < 2 ^ 63"
  shows "NewBlock nfc is_normal (Block_Encode nfc b) = Block_Init nfc b"
proof -
  obtain h where h: "blk_Header b = Some h" "BlockHeader_wf h" using wf by (auto simp: Block_wf_def)
  let ?raw = "\<lparr>rb_Header = BlockHeader_Encode h,
     rb_Transactions = map (Transaction_Encode nfc) (blk_Transactions b),
     rb_Assets = map (BlockAsset_Encode nfc) (blk_Assets b)\<rparr>"
  have enc: "Block_Encode nfc b = RawBlock_Encode ?raw" by (rule Block_Encode_raw [OF h(1)])
  have l: "length (RawBlock_Encode ?raw) < 2 ^ 63" using len enc by simp
  have 1: "RawBlock_DecodeStrict (RawBlock_Encode ?raw) = Return ?raw"
    using rb_msg.decode_strict_encode [of ?raw] l by (simp add: RawBlock_DecodeStrict_def)
  have 2: "NewBlockHeader (BlockHeader_Encode h) = Return (BlockHeader_Init h)"
    using h(2) l RawBlock_parts(1) [of ?raw] by (intro NewBlockHeader_Encode) auto
  have 3: "omapM (NewBlockAsset is_normal) (map (BlockAsset_Encode nfc) (blk_Assets b)) = Return (map (\<lambda>a. a) (blk_Assets b))"
    using wf l RawBlock_parts(3) [of _ ?raw]
    by (intro omapM_map_Return NewBlockAsset_Encode) (fastforce simp: Block_wf_def list_all_iff)+
  have 4: "omapM (NewTransaction nfc is_normal) (map (Transaction_Encode nfc) (blk_Transactions b))
      = Return (map (Transaction_Init nfc) (blk_Transactions b))"
    using wf l RawBlock_parts(2) [of _ ?raw]
    by (intro omapM_map_Return NewTransaction_Encode) (fastforce simp: Block_wf_def list_all_iff)+
  show ?thesis using 1 2 3 4 h(1) by (simp add: NewBlock_def enc Block_Init_def header_of_def)
qed

text \<open>
  C13: encoding a well-formed block and building a block from the bytes gives the block with its
  IDs and sizes computed.
\<close>

theorem new_block_encode:
  assumes "Block_wf nfc is_normal b" and "length (Block_Encode nfc b) < 2 ^ 63"
  shows "NewBlock nfc is_normal (Block_Encode nfc b) = Block_Init nfc b"
  using assms by (rule NewBlock_Encode)

lemma sample_block_ok:
  "Block_wf (\<lambda>s. s) (\<lambda>_. True) sample_block" "length (Block_Encode (\<lambda>s. s) sample_block) < 2 ^ 63"
proof -
  show "Block_wf (\<lambda>s. s) (\<lambda>_. True) sample_block" by code_simp
  have "length (Block_Encode (\<lambda>s. s) sample_block) \<le> 150" by code_simp
  then show "length (Block_Encode (\<lambda>s. s) sample_block) < 2 ^ 63" by simp
qed

theorem new_block_encode_witness:
  "NewBlock (\<lambda>s. s) (\<lambda>_. True) (Block_Encode (\<lambda>s. s) sample_block) = Block_Init (\<lambda>s. s) sample_block"
  by (rule new_block_encode [OF sample_block_ok])

text \<open>
  C14: whenever a block is built from bytes, the IDs it carries are the hashes of the encodings of its
  header and of its transactions, and the envelope holds exactly the encodings of its transactions.
\<close>

theorem new_block_sound:
  assumes nfc: "\<And>s. is_normal s \<Longrightarrow> nfc s = s" and "NewBlock nfc is_normal val = Return b"
  shows "\<exists>h raw. blk_Header b = Some h \<and> val = RawBlock_Encode raw
     \<and> bh_ID h = Hash (BlockHeader_Encode h)
     \<and> rb_Transactions raw = map (Transaction_Encode nfc) (blk_Transactions b)
     \<and> map tx_ID (blk_Transactions b) = map Hash (rb_Transactions raw)
     \<and> map tx_size (blk_Transactions b) = map length (rb_Transactions raw)"
proof -
  obtain raw header assets txs where r: "RawBlock_DecodeStrict val = Return raw"
    "NewBlockHeader (rb_Header raw) = Return header"
    "omapM (NewTransaction nfc is_normal) (rb_Transactions raw) = Return txs"
    "b = \<lparr>blk_Header = Some header, blk_Transactions = txs, blk_Assets = assets\<rparr>"
    using assms(2) by (auto simp: NewBlock_def obind_eq_Return)
  have "val = RawBlock_Encode raw"
    using r(1) unfolding RawBlock_DecodeStrict_def by (rule decode_strict_reads [OF RawBlock_reads])
  moreover have "bh_ID header = Hash (BlockHeader_Encode header)"
    using r(2) by (auto simp: NewBlockHeader_def obind_eq_Return BlockHeader_Init_def BlockHeader_Encode_def)
  moreover have "list_all2 (\<lambda>x t. x = Transaction_Encode nfc t \<and> tx_ID t = Hash x \<and> tx_size t = length x)
      (rb_Transactions raw) txs"
    using r(3) NewTransaction_sound [OF nfc] unfolding omapM_eq_Return by (auto elim!: list_all2_mono)
  then have "rb_Transactions raw = map (Transaction_Encode nfc) txs
     \<and> map tx_ID txs = map Hash (rb_Transactions raw) \<and> map tx_size txs = map length (rb_Transactions raw)"
    by (induction rule: list_all2_induct) auto
  ultimately show ?thesis using r(4) by auto
qed

theorem new_block_sound_witness:
  "\<exists>b h raw. NewBlock (\<lambda>s. s) (\<lambda>_. True) (Block_Encode (\<lambda>s. s) sample_block) = Return b
     \<and> blk_Header b = Some h \<and> bh_ID h = Hash (BlockHeader_Encode h)
     \<and> Block_Encode (\<lambda>s. s) sample_block = RawBlock_Encode raw
     \<and> map tx_ID (blk_Transactions b) = map Hash (rb_Transactions raw)"
proof -
  obtain b where b: "NewBlock (\<lambda>s. s) (\<lambda>_. True) (Block_Encode (\<lambda>s. s) sample_block) = Return b"
    using NewBlock_Encode [OF sample_block_ok] by (auto simp: Block_Init_def header_of_def sample_block_def)
  show ?thesis using new_block_sound [OF _ b] b by auto
qed

text \<open>
  The header is decoded by the lenient decoder: an empty header and the encoding of the zero
  header give the same block, and a header of one byte makes \<^verbatim>\<open>NewBlock\<close> panic.
\<close>

lemma NewBlockHeader_lenient:
  "NewBlockHeader [] = NewBlockHeader (BlockHeader_Encode
     (BlockHeader_zero\<lparr>bh_AggregateCommit := Some AggregateCommit_zero\<rparr>))"
proof -
  let ?h = "BlockHeader_zero\<lparr>bh_AggregateCommit := Some AggregateCommit_zero\<rparr>"
  have "BlockHeader_Decode [] = Return ?h" "BlockHeader_Decode (BlockHeader_Encode ?h) = Return ?h"
    by code_simp+
  then show ?thesis by (simp add: NewBlockHeader_def)
qed

lemma NewBlock_panics: "NewBlock nfc is_normal [10, 1, 0x60] = Panic"
proof -
  have "RawBlock_DecodeStrict [10, 1, 0x60] = Return \<lparr>rb_Header = [0x60], rb_Transactions = [], rb_Assets = []\<rparr>"
    "BlockHeader_Decode [0x60] = Panic" by code_simp+
  then show ?thesis by (simp add: NewBlock_def NewBlockHeader_def)
qed

section \<open>Signatures\<close>

lemma SigningBytes_signed [simp]:
  "BlockHeader_signingBlockHeader (b\<lparr>bh_Signature := s\<rparr>) = BlockHeader_signingBlockHeader b"
  "BlockHeader_signingBlockHeader (b\<lparr>bh_ID := i\<rparr>) = BlockHeader_signingBlockHeader b"
  by (simp_all add: BlockHeader_signingBlockHeader_def)

text \<open>
  C17: a signed header verifies under the public key of the signer, its ID is the hash of its
  encoding with the signature, and no other field is changed.
  The hypothesis is what the documentation of Ed25519 promises of \<open>Sign\<close> and \<open>Verify\<close>.
\<close>

theorem signed_header_verifies:
  assumes ed: "\<And>m s. ed_Sign privateKey m = Return s \<Longrightarrow> ed_Verify publicKey m s = Return True"
    and sign: "BlockHeader_Sign ed_Sign b chainID privateKey = Return b'"
  shows "BlockHeader_VerifySignature ed_Verify b' chainID publicKey = Return True
    \<and> bh_ID b' = Hash (BlockHeader_Encode b')
    \<and> b'\<lparr>bh_ID := bh_ID b, bh_Signature := bh_Signature b\<rparr> = b"
proof -
  let ?m = "Hash (Join [TagBlockHeader, chainID, BlockHeader_SigningBytes b])"
  obtain s where s: "ed_Sign privateKey ?m = Return s"
    "b' = b\<lparr>bh_Signature := s, bh_ID := Hash (BlockHeader_Encode (b\<lparr>bh_Signature := s\<rparr>))\<rparr>"
    using sign by (auto simp: BlockHeader_Sign_def signingBlockHeader_Sign_def obind_eq_Return Let_def BlockHeader_SigningBytes_def)
  then show ?thesis using ed [OF s(1)]
    by (simp add: BlockHeader_VerifySignature_def ValidateBlockSignature_def BlockHeader_SigningBytes_def BlockHeader_Encode_def)
qed

theorem signed_header_verifies_witness:
  "\<exists>b'. BlockHeader_Sign (\<lambda>sk m. Return (sk @ m) :: (unit, bytes) outcome) BlockHeader_zero [1] [9] = Return b'
     \<and> BlockHeader_VerifySignature (\<lambda>pk m s. Return (s = pk @ m) :: (unit, bool) outcome) b' [1] [9] = Return True"
proof -
  let ?S = "\<lambda>sk m. Return (sk @ m) :: (unit, bytes) outcome"
  let ?V = "\<lambda>pk m s. Return (s = pk @ m) :: (unit, bool) outcome"
  obtain b' where b: "BlockHeader_Sign ?S BlockHeader_zero [1] [9] = Return b'"
    by (auto simp: BlockHeader_Sign_def signingBlockHeader_Sign_def Let_def)
  then show ?thesis using signed_header_verifies [of ?S "[9]" ?V "[9]" BlockHeader_zero "[1]" b'] by auto
qed

lemma Freeze_SigningBytes:
  "frozenTransaction_SigningBytes nfc (Transaction_Freeze t) = Transaction_SigningBytes nfc t"
  by (simp add: frozenTransaction_SigningBytes_def Transaction_Freeze_def Transaction_SigningBytes_def)

text \<open>A frozen transaction has lost its signatures.\<close>

lemma Freeze_drops_signatures: "fz_signatures (Transaction_Freeze t) = []"
  by (simp add: Transaction_Freeze_def)

lemma Transaction_Validate_iff:
  "Transaction_Validate t = Return () \<longleftrightarrow>
     alphanumeric (tx_Module t) \<and> alphanumeric (tx_Command t) \<and> length (tx_Params t) \<le> 14336
     \<and> length (tx_SenderPublicKey t) = 32 \<and> tx_Signatures t \<noteq> []
     \<and> (\<forall>sig \<in> set (tx_Signatures t). length sig = 64)"
  by (auto simp: Transaction_Validate_def MaxTransactionParamsSize_def EdPublicKeyLength_def
      EdSignatureLength_def not_less split: if_splits)

section \<open>Event keys\<close>

lemma Event_UpdateID_eq: "Event_UpdateID e = FromUint32 (ev_Height e)"
  by (simp add: Event_UpdateID_def EventTotalIndexLengthBytes_def eventIndexLengthBits_def
      eventTopicIndexLengthBits_def JoinSize_eq)

definition event_slots :: "Event list \<Rightarrow> (nat \<times> nat \<times> bytes) list" where
  "event_slots es = concat (map (\<lambda>(j, e). map (\<lambda>(i, t). (j, i, t)) (List.enumerate 0 (ev_Topics e)))
                               (List.enumerate 0 es))"

lemma keys_UpdateIndex:
  "map ekp_Key (concat (map (Event_KeyPairs nfc) (Events_UpdateIndex es))) =
   map (\<lambda>(j, i, t). take 8 (Hash t) @ FromUint32 (push_bit 2 (of_nat j) + of_nat i)) (event_slots es)"
  by (simp add: Events_UpdateIndex_def event_slots_def Event_KeyPairs_def map_concat comp_def case_prod_beta
      eventTopicHashLengthBytes_def eventTopicIndexLengthBits_def)

lemma event_index_inject:
  assumes "j < 2 ^ 30" "j' < 2 ^ 30" "i < 4" "i' < 4"
    "push_bit 2 (of_nat j) + of_nat i = (push_bit 2 (of_nat j') + of_nat i' :: u32)"
  shows "j = j' \<and> i = i'"
proof -
  have "unat (push_bit 2 (of_nat k) + of_nat l :: u32) = 4 * k + l" if "k < 2 ^ 30" "l < 4" for k l
  proof -
    have "push_bit 2 (of_nat k) + of_nat l = (of_nat (4 * k + l) :: u32)" by (simp add: push_bit_eq_mult)
    then show ?thesis using that by (simp only: unat_of_nat) simp
  qed
  then have "4 * j + i = 4 * j' + i'" using assms by metis
  then show ?thesis using assms by presburger
qed

definition slots_from :: "nat \<Rightarrow> Event list \<Rightarrow> (nat \<times> nat) list" where
  "slots_from n es = concat (map (\<lambda>(j, e). map (Pair j) [0 ..< length (ev_Topics e)]) (List.enumerate n es))"

lemma slots_from_distinct: "distinct (slots_from n es) \<and> (\<forall>p \<in> set (slots_from n es). n \<le> fst p)"
proof (induction es arbitrary: n)
  case (Cons e es)
  have "slots_from n (e # es) = map (Pair n) [0 ..< length (ev_Topics e)] @ slots_from (Suc n) es"
    by (simp add: slots_from_def)
  then show ?case using Cons.IH [of "Suc n"] by (force simp: distinct_map inj_on_def)
qed (simp add: slots_from_def)

lemma enumerate_indexes: "map (\<lambda>x. (j, fst x)) (List.enumerate 0 ts) = map (Pair j) [0 ..< length ts]"
  by (rule nth_equalityI) (simp_all add: nth_enumerate_eq)

lemma event_slots_distinct: "distinct (map (\<lambda>(j, i, t). (j, i)) (event_slots es))"
proof -
  have "map (\<lambda>(j, i, t). (j, i)) (event_slots es) = slots_from 0 es"
    by (simp add: event_slots_def slots_from_def map_concat comp_def case_prod_unfold enumerate_indexes)
  then show ?thesis using slots_from_distinct [of 0 es] by simp
qed

lemma distinct_map_via:
  assumes "distinct (map g xs)" "\<And>x y. x \<in> set xs \<Longrightarrow> y \<in> set xs \<Longrightarrow> f x = f y \<Longrightarrow> g x = g y"
  shows "distinct (map f xs)"
  using assms unfolding distinct_map inj_on_def by blast

lemma event_slots_bounds:
  assumes "(j, i, t) \<in> set (event_slots es)" "list_all (\<lambda>e. Event_Validate e = Return ()) es"
  shows "j < length es \<and> i < 4"
proof -
  have j: "j < length es" "i < length (ev_Topics (es ! j))"
    using assms(1) by (auto simp: event_slots_def in_set_enumerate_eq)
  then have "Event_Validate (es ! j) = Return ()" using assms(2) by (simp add: list_all_length)
  then have "length (ev_Topics (es ! j)) \<le> 4"
    by (simp add: Event_Validate_def EventMaxTopicsPerEvent_def eventTopicIndexLengthBits_def split: if_splits)
  then show ?thesis using j by simp
qed

text \<open>
  C18: within a block of at most \<open>2 ^ 30\<close> events, each of which passes validation, the keys under which
  the events enter the event tree are pairwise different once the indexes are assigned.
\<close>

theorem event_keys_distinct:
  assumes "length es \<le> MaxEventsPerBlock" "list_all (\<lambda>e. Event_Validate e = Return ()) es"
  shows "distinct (map ekp_Key (concat (map (Event_KeyPairs nfc) (Events_UpdateIndex es))))"
proof -
  let ?f = "\<lambda>(j, i, t). take 8 (Hash t) @ FromUint32 (push_bit 2 (of_nat j) + of_nat i)"
  have K: "fst x = fst y \<and> fst (snd x) = fst (snd y)"
    if "x \<in> set (event_slots es)" "y \<in> set (event_slots es)" "?f x = ?f y" for x y
  proof -
    obtain j i t j' i' t' where xy: "x = (j, i, t)" "y = (j', i', t')" by (cases x, cases y) auto
    have "j < length es" "j' < length es" "i < 4" "i' < 4"
      using that(1,2) xy event_slots_bounds [OF _ assms(2)] by blast+
    then have "j < 2 ^ 30" "j' < 2 ^ 30" "i < 4" "i' < 4"
      using assms(1) by (auto simp: MaxEventsPerBlock_def eventIndexLengthBits_def)
    moreover have "FromUint32 (push_bit 2 (of_nat j) + of_nat i) = FromUint32 (push_bit 2 (of_nat j') + of_nat i')"
      using that(3) unfolding xy prod.case by (rule append_eq_append_conv [THEN iffD1, THEN conjunct2, rotated]) simp
    ultimately show ?thesis using event_index_inject [of j j' i i'] xy by (simp only: FromUint32_eq fst_conv snd_conv)
  qed
  have "distinct (map ?f (event_slots es))"
  proof (rule distinct_map_via [OF event_slots_distinct])
    fix x y assume "x \<in> set (event_slots es)" "y \<in> set (event_slots es)" "?f x = ?f y"
    from K [OF this] show "(\<lambda>(j, i, t). (j, i)) x = (\<lambda>(j, i, t). (j, i)) y" by (simp add: case_prod_unfold)
  qed
  then show ?thesis unfolding keys_UpdateIndex .
qed

theorem event_keys_distinct_witness:
  "distinct (map ekp_Key (concat (map (Event_KeyPairs (\<lambda>s. s))
     (Events_UpdateIndex [NewEventFromValues [97] [98] [] [[1], [1]] 7 0, NewEventFromValues [97] [98] [] [[1]] 7 0]))))"
proof (rule event_keys_distinct)
  show "list_all (\<lambda>e. Event_Validate e = Return ())
    [NewEventFromValues [97] [98] [] [[1], [1]] 7 0, NewEventFromValues [97] [98] [] [[1]] 7 0]" by code_simp
qed (simp add: MaxEventsPerBlock_def eventIndexLengthBits_def)

end
