(* ===== verification/Consensus_Codec.thy ===== *)
theory Consensus_Codec
  imports Codec_Laws
begin

text \<open>
  The messages of the consensus packages: the voting state, the parameters and the generator keys
  that \<^verbatim>\<open>pkg/consensus/liskbft\<close> keeps in the state database, the hashed validator list of
  \<^verbatim>\<open>pkg/consensus/validator\<close>, and the certificates and single commits of
  \<^verbatim>\<open>pkg/consensus/certificate\<close>.  Each message has its record, its writer and its reader, in
  the order of the fields of the code, and is shown to satisfy the laws of a message: what is
  written is read back by the strict and by the lenient reader.
\<close>

subsection \<open>ActiveValidator\<close>

record ActiveValidator =
  av_address :: bytes
  av_minActiveHeight :: u32
  av_largestHeightPrecommit :: u32

definition ActiveValidator_zero :: ActiveValidator where
  "ActiveValidator_zero =
     \<lparr>av_address = [], av_minActiveHeight = 0, av_largestHeightPrecommit = 0\<rparr>"

definition ActiveValidator_Encode :: "ActiveValidator \<Rightarrow> bytes" where
  "ActiveValidator_Encode e =
     write_all
       [WriteBytes 1 (av_address e),
        WriteUInt32 2 (av_minActiveHeight e),
        WriteUInt32 3 (av_largestHeightPrecommit e)]"

definition ActiveValidator_read :: "bool \<Rightarrow> ActiveValidator rd" where
  "ActiveValidator_read strict = (\<lambda>r.
     obind (ReadBytes 1 strict r) (\<lambda>(v1, r).
     obind (ReadUInt32 2 strict r) (\<lambda>(v2, r).
     obind (ReadUInt32 3 strict r) (\<lambda>(v3, r).
       Return
         (\<lparr>av_address = v1, av_minActiveHeight = v2, av_largestHeightPrecommit = v3\<rparr>, r)))))"

interpretation av_msg: message ActiveValidator_Encode ActiveValidator_read "\<lambda>_. True"
proof
  fix strict and e :: ActiveValidator
  show "forward 0 (ActiveValidator_read strict)"
    unfolding ActiveValidator_read_def by (intro reader_rules)
  assume wf: "True"
  show "parses UNIV (ActiveValidator_read strict) (ActiveValidator_Encode e) e"
    unfolding ActiveValidator_Encode_def ActiveValidator_read_def write_all_eq
    by (rule parses_UNIV) (rule parse_rules | simp)+
qed

subsection \<open>BFTValidator\<close>

record BFTValidator =
  bv_address :: bytes
  bv_bftWeight :: u64
  bv_blsKey :: bytes

definition BFTValidator_zero :: BFTValidator where
  "BFTValidator_zero =
     \<lparr>bv_address = [], bv_bftWeight = 0, bv_blsKey = []\<rparr>"

definition BFTValidator_Encode :: "BFTValidator \<Rightarrow> bytes" where
  "BFTValidator_Encode e =
     write_all
       [WriteBytes 1 (bv_address e),
        WriteUInt 2 (bv_bftWeight e),
        WriteBytes 3 (bv_blsKey e)]"

definition BFTValidator_read :: "bool \<Rightarrow> BFTValidator rd" where
  "BFTValidator_read strict = (\<lambda>r.
     obind (ReadBytes 1 strict r) (\<lambda>(v1, r).
     obind (ReadUInt 2 strict r) (\<lambda>(v2, r).
     obind (ReadBytes 3 strict r) (\<lambda>(v3, r).
       Return
         (\<lparr>bv_address = v1, bv_bftWeight = v2, bv_blsKey = v3\<rparr>, r)))))"

interpretation bv_msg: message BFTValidator_Encode BFTValidator_read "\<lambda>_. True"
proof
  fix strict and e :: BFTValidator
  show "forward 0 (BFTValidator_read strict)"
    unfolding BFTValidator_read_def by (intro reader_rules)
  assume wf: "True"
  show "parses UNIV (BFTValidator_read strict) (BFTValidator_Encode e) e"
    unfolding BFTValidator_Encode_def BFTValidator_read_def write_all_eq
    by (rule parses_UNIV) (rule parse_rules | simp)+
qed

subsection \<open>BFTParams\<close>

record BFTParams =
  bp_prevoteThreshold :: u64
  bp_precommitThreshold :: u64
  bp_certificateThreshold :: u64
  bp_validators :: "BFTValidator list"
  bp_validatorsHash :: bytes

definition BFTParams_zero :: BFTParams where
  "BFTParams_zero =
     \<lparr>bp_prevoteThreshold = 0, bp_precommitThreshold = 0, bp_certificateThreshold = 0,
        bp_validators = [], bp_validatorsHash = []\<rparr>"

definition BFTParams_Encode :: "BFTParams \<Rightarrow> bytes" where
  "BFTParams_Encode e =
     write_all
       [WriteUInt 1 (bp_prevoteThreshold e),
        WriteUInt 2 (bp_precommitThreshold e),
        WriteUInt 3 (bp_certificateThreshold e),
        WriteEncodables 4 BFTValidator_Encode (bp_validators e),
        WriteBytes 5 (bp_validatorsHash e)]"

definition BFTParams_read :: "bool \<Rightarrow> BFTParams rd" where
  "BFTParams_read strict = (\<lambda>r.
     obind (ReadUInt 1 strict r) (\<lambda>(v1, r).
     obind (ReadUInt 2 strict r) (\<lambda>(v2, r).
     obind (ReadUInt 3 strict r) (\<lambda>(v3, r).
     obind (ReadDecodables 4 (BFTValidator_read False) r) (\<lambda>(v4, r).
     obind (ReadBytes 5 strict r) (\<lambda>(v5, r).
       Return
         (\<lparr>bp_prevoteThreshold = v1, bp_precommitThreshold = v2, bp_certificateThreshold = v3,
           bp_validators = v4, bp_validatorsHash = v5\<rparr>, r)))))))"

interpretation bp_msg: message BFTParams_Encode BFTParams_read "\<lambda>_. True"
proof
  fix strict and e :: BFTParams
  show "forward 0 (BFTParams_read strict)"
    unfolding BFTParams_read_def by (intro reader_rules bv_msg.forward_ReadDecodables)
  assume wf: "True"
  show "parses UNIV (BFTParams_read strict) (BFTParams_Encode e) e"
    unfolding BFTParams_Encode_def BFTParams_read_def write_all_eq
    by (rule parses_UNIV) (rule parse_rules bv_msg.parses_nested_list | simp add: list.pred_True)+
qed

definition BFTParams_Decode :: "bytes \<Rightarrow> (codec_error, BFTParams) outcome" where
  "BFTParams_Decode buf = decode_with (BFTParams_read False) buf"

definition BFTParams_DecodeStrict :: "bytes \<Rightarrow> (codec_error, BFTParams) outcome" where
  "BFTParams_DecodeStrict buf = decode_strict_with (BFTParams_read True) buf"

subsection \<open>BFTBlockHeader\<close>

record BFTBlockHeader =
  bb_height :: u32
  bb_generatorAddress :: bytes
  bb_maxHeightGenerated :: u32
  bb_maxHeightPrevoted :: u32
  bb_prevoteWeight :: u64
  bb_precommitWeight :: u64

definition BFTBlockHeader_zero :: BFTBlockHeader where
  "BFTBlockHeader_zero =
     \<lparr>bb_height = 0, bb_generatorAddress = [], bb_maxHeightGenerated = 0, bb_maxHeightPrevoted = 0,
        bb_prevoteWeight = 0, bb_precommitWeight = 0\<rparr>"

definition BFTBlockHeader_Encode :: "BFTBlockHeader \<Rightarrow> bytes" where
  "BFTBlockHeader_Encode e =
     write_all
       [WriteUInt32 1 (bb_height e),
        WriteBytes 2 (bb_generatorAddress e),
        WriteUInt32 3 (bb_maxHeightGenerated e),
        WriteUInt32 4 (bb_maxHeightPrevoted e),
        WriteUInt 5 (bb_prevoteWeight e),
        WriteUInt 6 (bb_precommitWeight e)]"

definition BFTBlockHeader_read :: "bool \<Rightarrow> BFTBlockHeader rd" where
  "BFTBlockHeader_read strict = (\<lambda>r.
     obind (ReadUInt32 1 strict r) (\<lambda>(v1, r).
     obind (ReadBytes 2 strict r) (\<lambda>(v2, r).
     obind (ReadUInt32 3 strict r) (\<lambda>(v3, r).
     obind (ReadUInt32 4 strict r) (\<lambda>(v4, r).
     obind (ReadUInt 5 strict r) (\<lambda>(v5, r).
     obind (ReadUInt 6 strict r) (\<lambda>(v6, r).
       Return
         (\<lparr>bb_height = v1, bb_generatorAddress = v2, bb_maxHeightGenerated = v3,
           bb_maxHeightPrevoted = v4, bb_prevoteWeight = v5, bb_precommitWeight = v6\<rparr>, r))))))))"

interpretation bb_msg: message BFTBlockHeader_Encode BFTBlockHeader_read "\<lambda>_. True"
proof
  fix strict and e :: BFTBlockHeader
  show "forward 0 (BFTBlockHeader_read strict)"
    unfolding BFTBlockHeader_read_def by (intro reader_rules)
  assume wf: "True"
  show "parses UNIV (BFTBlockHeader_read strict) (BFTBlockHeader_Encode e) e"
    unfolding BFTBlockHeader_Encode_def BFTBlockHeader_read_def write_all_eq
    by (rule parses_UNIV) (rule parse_rules | simp)+
qed

subsection \<open>BFTVotes\<close>

record BFTVotes =
  vt_maxHeightPrevoted :: u32
  vt_maxHeightPrecommited :: u32
  vt_maxHeightCertified :: u32
  vt_blockBFTInfos :: "BFTBlockHeader list"
  vt_activeValidatorsVoteInfo :: "ActiveValidator list"

definition BFTVotes_zero :: BFTVotes where
  "BFTVotes_zero =
     \<lparr>vt_maxHeightPrevoted = 0, vt_maxHeightPrecommited = 0, vt_maxHeightCertified = 0,
        vt_blockBFTInfos = [], vt_activeValidatorsVoteInfo = []\<rparr>"

definition BFTVotes_Encode :: "BFTVotes \<Rightarrow> bytes" where
  "BFTVotes_Encode e =
     write_all
       [WriteUInt32 1 (vt_maxHeightPrevoted e),
        WriteUInt32 2 (vt_maxHeightPrecommited e),
        WriteUInt32 3 (vt_maxHeightCertified e),
        WriteEncodables 5 BFTBlockHeader_Encode (vt_blockBFTInfos e),
        WriteEncodables 6 ActiveValidator_Encode (vt_activeValidatorsVoteInfo e)]"

definition BFTVotes_read :: "bool \<Rightarrow> BFTVotes rd" where
  "BFTVotes_read strict = (\<lambda>r.
     obind (ReadUInt32 1 strict r) (\<lambda>(v1, r).
     obind (ReadUInt32 2 strict r) (\<lambda>(v2, r).
     obind (ReadUInt32 3 strict r) (\<lambda>(v3, r).
     obind (ReadDecodables 5 (BFTBlockHeader_read False) r) (\<lambda>(v5, r).
     obind (ReadDecodables 6 (ActiveValidator_read False) r) (\<lambda>(v6, r).
       Return
         (\<lparr>vt_maxHeightPrevoted = v1, vt_maxHeightPrecommited = v2, vt_maxHeightCertified = v3,
           vt_blockBFTInfos = v5, vt_activeValidatorsVoteInfo = v6\<rparr>, r)))))))"

interpretation vt_msg: message BFTVotes_Encode BFTVotes_read "\<lambda>_. True"
proof
  fix strict and e :: BFTVotes
  show "forward 0 (BFTVotes_read strict)"
    unfolding BFTVotes_read_def by (intro reader_rules bb_msg.forward_ReadDecodables av_msg.forward_ReadDecodables)
  assume wf: "True"
  show "parses UNIV (BFTVotes_read strict) (BFTVotes_Encode e) e"
    unfolding BFTVotes_Encode_def BFTVotes_read_def write_all_eq
    by (rule parses_UNIV) (rule parse_rules bb_msg.parses_nested_list av_msg.parses_nested_list | simp add: list.pred_True)+
qed

definition BFTVotes_Decode :: "bytes \<Rightarrow> (codec_error, BFTVotes) outcome" where
  "BFTVotes_Decode buf = decode_with (BFTVotes_read False) buf"

definition BFTVotes_DecodeStrict :: "bytes \<Rightarrow> (codec_error, BFTVotes) outcome" where
  "BFTVotes_DecodeStrict buf = decode_strict_with (BFTVotes_read True) buf"

subsection \<open>HashValidator\<close>

record HashValidator =
  hvd_BLSKey :: bytes
  hvd_BFTWeight :: u64

definition HashValidator_zero :: HashValidator where
  "HashValidator_zero =
     \<lparr>hvd_BLSKey = [], hvd_BFTWeight = 0\<rparr>"

definition HashValidator_Encode :: "HashValidator \<Rightarrow> bytes" where
  "HashValidator_Encode e =
     write_all
       [WriteBytes 1 (hvd_BLSKey e),
        WriteUInt 2 (hvd_BFTWeight e)]"

definition HashValidator_read :: "bool \<Rightarrow> HashValidator rd" where
  "HashValidator_read strict = (\<lambda>r.
     obind (ReadBytes 1 strict r) (\<lambda>(v1, r).
     obind (ReadUInt 2 strict r) (\<lambda>(v2, r).
       Return
         (\<lparr>hvd_BLSKey = v1, hvd_BFTWeight = v2\<rparr>, r))))"

interpretation hvd_msg: message HashValidator_Encode HashValidator_read "\<lambda>_. True"
proof
  fix strict and e :: HashValidator
  show "forward 0 (HashValidator_read strict)"
    unfolding HashValidator_read_def by (intro reader_rules)
  assume wf: "True"
  show "parses UNIV (HashValidator_read strict) (HashValidator_Encode e) e"
    unfolding HashValidator_Encode_def HashValidator_read_def write_all_eq
    by (rule parses_UNIV) (rule parse_rules | simp)+
qed

subsection \<open>HashingValidators\<close>

record HashingValidators =
  hgv_ActiveValidators :: "HashValidator list"
  hgv_CertificateThreshold :: u64

definition HashingValidators_zero :: HashingValidators where
  "HashingValidators_zero =
     \<lparr>hgv_ActiveValidators = [], hgv_CertificateThreshold = 0\<rparr>"

definition HashingValidators_Encode :: "HashingValidators \<Rightarrow> bytes" where
  "HashingValidators_Encode e =
     write_all
       [WriteEncodables 1 HashValidator_Encode (hgv_ActiveValidators e),
        WriteUInt 2 (hgv_CertificateThreshold e)]"

definition HashingValidators_read :: "bool \<Rightarrow> HashingValidators rd" where
  "HashingValidators_read strict = (\<lambda>r.
     obind (ReadDecodables 1 (HashValidator_read False) r) (\<lambda>(v1, r).
     obind (ReadUInt 2 strict r) (\<lambda>(v2, r).
       Return
         (\<lparr>hgv_ActiveValidators = v1, hgv_CertificateThreshold = v2\<rparr>, r))))"

interpretation hgv_msg: message HashingValidators_Encode HashingValidators_read "\<lambda>_. True"
proof
  fix strict and e :: HashingValidators
  show "forward 0 (HashingValidators_read strict)"
    unfolding HashingValidators_read_def by (intro reader_rules hvd_msg.forward_ReadDecodables)
  assume wf: "True"
  show "parses UNIV (HashingValidators_read strict) (HashingValidators_Encode e) e"
    unfolding HashingValidators_Encode_def HashingValidators_read_def write_all_eq
    by (rule parses_UNIV) (rule parse_rules hvd_msg.parses_nested_list | simp add: list.pred_True)+
qed

subsection \<open>Generator\<close>

record Generator =
  gn_address :: bytes
  gn_generatorKey :: bytes

definition Generator_zero :: Generator where
  "Generator_zero =
     \<lparr>gn_address = [], gn_generatorKey = []\<rparr>"

definition Generator_Encode :: "Generator \<Rightarrow> bytes" where
  "Generator_Encode e =
     write_all
       [WriteBytes 1 (gn_address e),
        WriteBytes 2 (gn_generatorKey e)]"

definition Generator_read :: "bool \<Rightarrow> Generator rd" where
  "Generator_read strict = (\<lambda>r.
     obind (ReadBytes 1 strict r) (\<lambda>(v1, r).
     obind (ReadBytes 2 strict r) (\<lambda>(v2, r).
       Return
         (\<lparr>gn_address = v1, gn_generatorKey = v2\<rparr>, r))))"

interpretation gn_msg: message Generator_Encode Generator_read "\<lambda>_. True"
proof
  fix strict and e :: Generator
  show "forward 0 (Generator_read strict)"
    unfolding Generator_read_def by (intro reader_rules)
  assume wf: "True"
  show "parses UNIV (Generator_read strict) (Generator_Encode e) e"
    unfolding Generator_Encode_def Generator_read_def write_all_eq
    by (rule parses_UNIV) (rule parse_rules | simp)+
qed

subsection \<open>GeneratorKeys\<close>

record GeneratorKeys =
  gk_Generators :: "Generator list"

definition GeneratorKeys_zero :: GeneratorKeys where
  "GeneratorKeys_zero =
     \<lparr>gk_Generators = []\<rparr>"

definition GeneratorKeys_Encode :: "GeneratorKeys \<Rightarrow> bytes" where
  "GeneratorKeys_Encode e =
     write_all
       [WriteEncodables 1 Generator_Encode (gk_Generators e)]"

definition GeneratorKeys_read :: "bool \<Rightarrow> GeneratorKeys rd" where
  "GeneratorKeys_read strict = (\<lambda>r.
     obind (ReadDecodables 1 (Generator_read False) r) (\<lambda>(v1, r).
       Return
         (\<lparr>gk_Generators = v1\<rparr>, r)))"

interpretation gk_msg: message GeneratorKeys_Encode GeneratorKeys_read "\<lambda>_. True"
proof
  fix strict and e :: GeneratorKeys
  show "forward 0 (GeneratorKeys_read strict)"
    unfolding GeneratorKeys_read_def by (intro reader_rules gn_msg.forward_ReadDecodables)
  assume wf: "True"
  show "parses UNIV (GeneratorKeys_read strict) (GeneratorKeys_Encode e) e"
    unfolding GeneratorKeys_Encode_def GeneratorKeys_read_def write_all_eq
    by (rule parses_UNIV) (rule parse_rules gn_msg.parses_nested_list | simp add: list.pred_True)+
qed

definition GeneratorKeys_Decode :: "bytes \<Rightarrow> (codec_error, GeneratorKeys) outcome" where
  "GeneratorKeys_Decode buf = decode_with (GeneratorKeys_read False) buf"

definition GeneratorKeys_DecodeStrict :: "bytes \<Rightarrow> (codec_error, GeneratorKeys) outcome" where
  "GeneratorKeys_DecodeStrict buf = decode_strict_with (GeneratorKeys_read True) buf"

subsection \<open>GetValidatorInfoResponse\<close>

record GetValidatorInfoResponse =
  vi_MaxHeightPrevoted :: u32

definition GetValidatorInfoResponse_zero :: GetValidatorInfoResponse where
  "GetValidatorInfoResponse_zero =
     \<lparr>vi_MaxHeightPrevoted = 0\<rparr>"

definition GetValidatorInfoResponse_Encode :: "GetValidatorInfoResponse \<Rightarrow> bytes" where
  "GetValidatorInfoResponse_Encode e =
     write_all
       [WriteUInt32 1 (vi_MaxHeightPrevoted e)]"

definition GetValidatorInfoResponse_read :: "bool \<Rightarrow> GetValidatorInfoResponse rd" where
  "GetValidatorInfoResponse_read strict = (\<lambda>r.
     obind (ReadUInt32 1 strict r) (\<lambda>(v1, r).
       Return
         (\<lparr>vi_MaxHeightPrevoted = v1\<rparr>, r)))"

interpretation vi_msg: message GetValidatorInfoResponse_Encode GetValidatorInfoResponse_read "\<lambda>_. True"
proof
  fix strict and e :: GetValidatorInfoResponse
  show "forward 0 (GetValidatorInfoResponse_read strict)"
    unfolding GetValidatorInfoResponse_read_def by (intro reader_rules)
  assume wf: "True"
  show "parses UNIV (GetValidatorInfoResponse_read strict) (GetValidatorInfoResponse_Encode e) e"
    unfolding GetValidatorInfoResponse_Encode_def GetValidatorInfoResponse_read_def write_all_eq
    by (rule parses_UNIV) (rule parse_rules | simp)+
qed

subsection \<open>IsBFTComplientRequest\<close>

record IsBFTComplientRequest =
  cq_GeneratorPublicKey :: bytes
  cq_Height :: u32
  cq_MaxHeightGenerated :: u32
  cq_MaxHeightPrevoted :: u32

definition IsBFTComplientRequest_zero :: IsBFTComplientRequest where
  "IsBFTComplientRequest_zero =
     \<lparr>cq_GeneratorPublicKey = [], cq_Height = 0, cq_MaxHeightGenerated = 0,
        cq_MaxHeightPrevoted = 0\<rparr>"

definition IsBFTComplientRequest_Encode :: "IsBFTComplientRequest \<Rightarrow> bytes" where
  "IsBFTComplientRequest_Encode e =
     write_all
       [WriteBytes 1 (cq_GeneratorPublicKey e),
        WriteUInt32 2 (cq_Height e),
        WriteUInt32 3 (cq_MaxHeightGenerated e),
        WriteUInt32 4 (cq_MaxHeightPrevoted e)]"

definition IsBFTComplientRequest_read :: "bool \<Rightarrow> IsBFTComplientRequest rd" where
  "IsBFTComplientRequest_read strict = (\<lambda>r.
     obind (ReadBytes 1 strict r) (\<lambda>(v1, r).
     obind (ReadUInt32 2 strict r) (\<lambda>(v2, r).
     obind (ReadUInt32 3 strict r) (\<lambda>(v3, r).
     obind (ReadUInt32 4 strict r) (\<lambda>(v4, r).
       Return
         (\<lparr>cq_GeneratorPublicKey = v1, cq_Height = v2, cq_MaxHeightGenerated = v3,
           cq_MaxHeightPrevoted = v4\<rparr>, r))))))"

interpretation cq_msg: message IsBFTComplientRequest_Encode IsBFTComplientRequest_read "\<lambda>_. True"
proof
  fix strict and e :: IsBFTComplientRequest
  show "forward 0 (IsBFTComplientRequest_read strict)"
    unfolding IsBFTComplientRequest_read_def by (intro reader_rules)
  assume wf: "True"
  show "parses UNIV (IsBFTComplientRequest_read strict) (IsBFTComplientRequest_Encode e) e"
    unfolding IsBFTComplientRequest_Encode_def IsBFTComplientRequest_read_def write_all_eq
    by (rule parses_UNIV) (rule parse_rules | simp)+
qed

subsection \<open>IsBFTComplientResponse\<close>

record IsBFTComplientResponse =
  cr_Valid :: bool

definition IsBFTComplientResponse_zero :: IsBFTComplientResponse where
  "IsBFTComplientResponse_zero =
     \<lparr>cr_Valid = False\<rparr>"

definition IsBFTComplientResponse_Encode :: "IsBFTComplientResponse \<Rightarrow> bytes" where
  "IsBFTComplientResponse_Encode e =
     write_all
       [WriteBool 1 (cr_Valid e)]"

definition IsBFTComplientResponse_read :: "bool \<Rightarrow> IsBFTComplientResponse rd" where
  "IsBFTComplientResponse_read strict = (\<lambda>r.
     obind (ReadBool 1 strict r) (\<lambda>(v1, r).
       Return
         (\<lparr>cr_Valid = v1\<rparr>, r)))"

interpretation cr_msg: message IsBFTComplientResponse_Encode IsBFTComplientResponse_read "\<lambda>_. True"
proof
  fix strict and e :: IsBFTComplientResponse
  show "forward 0 (IsBFTComplientResponse_read strict)"
    unfolding IsBFTComplientResponse_read_def by (intro reader_rules)
  assume wf: "True"
  show "parses UNIV (IsBFTComplientResponse_read strict) (IsBFTComplientResponse_Encode e) e"
    unfolding IsBFTComplientResponse_Encode_def IsBFTComplientResponse_read_def write_all_eq
    by (rule parses_UNIV) (rule parse_rules | simp)+
qed

subsection \<open>hashValidator\<close>

record hashValidator =
  hv_blsKey :: bytes
  hv_bftWeight :: u64

definition hashValidator_zero :: hashValidator where
  "hashValidator_zero =
     \<lparr>hv_blsKey = [], hv_bftWeight = 0\<rparr>"

definition hashValidator_Encode :: "hashValidator \<Rightarrow> bytes" where
  "hashValidator_Encode e =
     write_all
       [WriteBytes 1 (hv_blsKey e),
        WriteUInt 2 (hv_bftWeight e)]"

definition hashValidator_read :: "bool \<Rightarrow> hashValidator rd" where
  "hashValidator_read strict = (\<lambda>r.
     obind (ReadBytes 1 strict r) (\<lambda>(v1, r).
     obind (ReadUInt 2 strict r) (\<lambda>(v2, r).
       Return
         (\<lparr>hv_blsKey = v1, hv_bftWeight = v2\<rparr>, r))))"

interpretation hv_msg: message hashValidator_Encode hashValidator_read "\<lambda>_. True"
proof
  fix strict and e :: hashValidator
  show "forward 0 (hashValidator_read strict)"
    unfolding hashValidator_read_def by (intro reader_rules)
  assume wf: "True"
  show "parses UNIV (hashValidator_read strict) (hashValidator_Encode e) e"
    unfolding hashValidator_Encode_def hashValidator_read_def write_all_eq
    by (rule parses_UNIV) (rule parse_rules | simp)+
qed

subsection \<open>validatrorsHashData\<close>

record validatrorsHashData =
  vhd_activeValidators :: "hashValidator list"
  vhd_certificateThreshold :: u64

definition validatrorsHashData_zero :: validatrorsHashData where
  "validatrorsHashData_zero =
     \<lparr>vhd_activeValidators = [], vhd_certificateThreshold = 0\<rparr>"

definition validatrorsHashData_Encode :: "validatrorsHashData \<Rightarrow> bytes" where
  "validatrorsHashData_Encode e =
     write_all
       [WriteEncodables 1 hashValidator_Encode (vhd_activeValidators e),
        WriteUInt 2 (vhd_certificateThreshold e)]"

definition validatrorsHashData_read :: "bool \<Rightarrow> validatrorsHashData rd" where
  "validatrorsHashData_read strict = (\<lambda>r.
     obind (ReadDecodables 1 (hashValidator_read False) r) (\<lambda>(v1, r).
     obind (ReadUInt 2 strict r) (\<lambda>(v2, r).
       Return
         (\<lparr>vhd_activeValidators = v1, vhd_certificateThreshold = v2\<rparr>, r))))"

interpretation vhd_msg: message validatrorsHashData_Encode validatrorsHashData_read "\<lambda>_. True"
proof
  fix strict and e :: validatrorsHashData
  show "forward 0 (validatrorsHashData_read strict)"
    unfolding validatrorsHashData_read_def by (intro reader_rules hv_msg.forward_ReadDecodables)
  assume wf: "True"
  show "parses UNIV (validatrorsHashData_read strict) (validatrorsHashData_Encode e) e"
    unfolding validatrorsHashData_Encode_def validatrorsHashData_read_def write_all_eq
    by (rule parses_UNIV) (rule parse_rules hv_msg.parses_nested_list | simp add: list.pred_True)+
qed

subsection \<open>Certificate\<close>

record Certificate =
  ct_BlockID :: bytes
  ct_Height :: u32
  ct_Timestamp :: u32
  ct_StateRoot :: bytes
  ct_ValidatorsHash :: bytes
  ct_AggregationBits :: bytes
  ct_Signature :: bytes

definition Certificate_zero :: Certificate where
  "Certificate_zero =
     \<lparr>ct_BlockID = [], ct_Height = 0, ct_Timestamp = 0, ct_StateRoot = [], ct_ValidatorsHash = [],
        ct_AggregationBits = [], ct_Signature = []\<rparr>"

definition Certificate_Encode :: "Certificate \<Rightarrow> bytes" where
  "Certificate_Encode e =
     write_all
       [WriteBytes 1 (ct_BlockID e),
        WriteUInt32 2 (ct_Height e),
        WriteUInt32 3 (ct_Timestamp e),
        WriteBytes 4 (ct_StateRoot e),
        WriteBytes 5 (ct_ValidatorsHash e),
        WriteBytes 6 (ct_AggregationBits e),
        WriteBytes 7 (ct_Signature e)]"

definition Certificate_read :: "bool \<Rightarrow> Certificate rd" where
  "Certificate_read strict = (\<lambda>r.
     obind (ReadBytes 1 strict r) (\<lambda>(v1, r).
     obind (ReadUInt32 2 strict r) (\<lambda>(v2, r).
     obind (ReadUInt32 3 strict r) (\<lambda>(v3, r).
     obind (ReadBytes 4 strict r) (\<lambda>(v4, r).
     obind (ReadBytes 5 strict r) (\<lambda>(v5, r).
     obind (ReadBytes 6 strict r) (\<lambda>(v6, r).
     obind (ReadBytes 7 strict r) (\<lambda>(v7, r).
       Return
         (\<lparr>ct_BlockID = v1, ct_Height = v2, ct_Timestamp = v3, ct_StateRoot = v4,
           ct_ValidatorsHash = v5, ct_AggregationBits = v6, ct_Signature = v7\<rparr>, r)))))))))"

interpretation ct_msg: message Certificate_Encode Certificate_read "\<lambda>_. True"
proof
  fix strict and e :: Certificate
  show "forward 0 (Certificate_read strict)"
    unfolding Certificate_read_def by (intro reader_rules)
  assume wf: "True"
  show "parses UNIV (Certificate_read strict) (Certificate_Encode e) e"
    unfolding Certificate_Encode_def Certificate_read_def write_all_eq
    by (rule parses_UNIV) (rule parse_rules | simp)+
qed

subsection \<open>SigningCertificate\<close>

record SigningCertificate =
  sct_BlockID :: bytes
  sct_Height :: u32
  sct_Timestamp :: u32
  sct_StateRoot :: bytes
  sct_ValidatorsHash :: bytes

definition SigningCertificate_zero :: SigningCertificate where
  "SigningCertificate_zero =
     \<lparr>sct_BlockID = [], sct_Height = 0, sct_Timestamp = 0, sct_StateRoot = [],
        sct_ValidatorsHash = []\<rparr>"

definition SigningCertificate_Encode :: "SigningCertificate \<Rightarrow> bytes" where
  "SigningCertificate_Encode e =
     write_all
       [WriteBytes 1 (sct_BlockID e),
        WriteUInt32 2 (sct_Height e),
        WriteUInt32 3 (sct_Timestamp e),
        WriteBytes 4 (sct_StateRoot e),
        WriteBytes 5 (sct_ValidatorsHash e)]"

definition SigningCertificate_read :: "bool \<Rightarrow> SigningCertificate rd" where
  "SigningCertificate_read strict = (\<lambda>r.
     obind (ReadBytes 1 strict r) (\<lambda>(v1, r).
     obind (ReadUInt32 2 strict r) (\<lambda>(v2, r).
     obind (ReadUInt32 3 strict r) (\<lambda>(v3, r).
     obind (ReadBytes 4 strict r) (\<lambda>(v4, r).
     obind (ReadBytes 5 strict r) (\<lambda>(v5, r).
       Return
         (\<lparr>sct_BlockID = v1, sct_Height = v2, sct_Timestamp = v3, sct_StateRoot = v4,
           sct_ValidatorsHash = v5\<rparr>, r)))))))"

interpretation sct_msg: message SigningCertificate_Encode SigningCertificate_read "\<lambda>_. True"
proof
  fix strict and e :: SigningCertificate
  show "forward 0 (SigningCertificate_read strict)"
    unfolding SigningCertificate_read_def by (intro reader_rules)
  assume wf: "True"
  show "parses UNIV (SigningCertificate_read strict) (SigningCertificate_Encode e) e"
    unfolding SigningCertificate_Encode_def SigningCertificate_read_def write_all_eq
    by (rule parses_UNIV) (rule parse_rules | simp)+
qed

subsection \<open>SingleCommit\<close>

record SingleCommit =
  sc_internal :: bool
  sc_blockID :: bytes
  sc_height :: u32
  sc_validatorAddress :: bytes
  sc_certificateSignature :: bytes

definition SingleCommit_zero :: SingleCommit where
  "SingleCommit_zero =
     \<lparr>sc_internal = False, sc_blockID = [], sc_height = 0, sc_validatorAddress = [],
        sc_certificateSignature = []\<rparr>"

definition SingleCommit_Encode :: "SingleCommit \<Rightarrow> bytes" where
  "SingleCommit_Encode e =
     write_all
       [WriteBytes 1 (sc_blockID e),
        WriteUInt32 2 (sc_height e),
        WriteBytes 3 (sc_validatorAddress e),
        WriteBytes 4 (sc_certificateSignature e)]"

definition SingleCommit_read :: "bool \<Rightarrow> SingleCommit rd" where
  "SingleCommit_read strict = (\<lambda>r.
     obind (ReadBytes 1 strict r) (\<lambda>(v1, r).
     obind (ReadUInt32 2 strict r) (\<lambda>(v2, r).
     obind (ReadBytes 3 strict r) (\<lambda>(v3, r).
     obind (ReadBytes 4 strict r) (\<lambda>(v4, r).
       Return
         (\<lparr>sc_internal = False, sc_blockID = v1, sc_height = v2, sc_validatorAddress = v3,
           sc_certificateSignature = v4\<rparr>, r))))))"

definition SingleCommit_wf :: "SingleCommit \<Rightarrow> bool" where
  "SingleCommit_wf e \<longleftrightarrow>
     \<not> sc_internal e"

interpretation sc_msg: message SingleCommit_Encode SingleCommit_read SingleCommit_wf
proof
  fix strict and e :: SingleCommit
  show "forward 0 (SingleCommit_read strict)"
    unfolding SingleCommit_read_def by (intro reader_rules)
  assume wf: "SingleCommit_wf e"
  show "parses UNIV (SingleCommit_read strict) (SingleCommit_Encode e) e"
    unfolding SingleCommit_Encode_def SingleCommit_read_def write_all_eq
    by (rule parses_UNIV) (rule parse_rules | use wf in \<open>simp add: SingleCommit_wf_def\<close>)+
qed

definition SingleCommit_Decode :: "bytes \<Rightarrow> (codec_error, SingleCommit) outcome" where
  "SingleCommit_Decode buf = decode_with (SingleCommit_read False) buf"

definition SingleCommit_DecodeStrict :: "bytes \<Rightarrow> (codec_error, SingleCommit) outcome" where
  "SingleCommit_DecodeStrict buf = decode_strict_with (SingleCommit_read True) buf"

end
