(* ===== verification/Consensus_Rules.thy ===== *)
theory Consensus_Rules
  imports Blockchain Consensus_Codec
begin

text \<open>
  The rules of consensus that look at headers only: the time slots of
  \<^verbatim>\<open>pkg/consensus/validator/block_slot.go\<close>, the hash of a validator list
  (\<^verbatim>\<open>validators_hash.go\<close>), contradicting headers (\<^verbatim>\<open>pkg/consensus/contradiction\<close>) and fork choice
  (\<^verbatim>\<open>pkg/consensus/forkchoice\<close>).  The clock is an argument: a moment is its Unix time, and the
  moment a header was received is part of the fork choice state.
\<close>

section \<open>Slots\<close>

subsection \<open>Division of floating point numbers\<close>

text \<open>
  \<^verbatim>\<open>float64(a) / float64(b)\<close> for two \<^verbatim>\<open>uint32\<close> values, both of which a \<^verbatim>\<open>float64\<close> holds exactly.  The
  quotient is scaled by the power of two that leaves 53 significant bits and is rounded to the
  nearest integer, ties to even: the result \<open>(m, s)\<close> stands for \<open>m / 2 ^ s\<close>.
\<close>

definition round_half_even :: "nat \<Rightarrow> nat \<Rightarrow> nat" where
  "round_half_even n d =
     (let q = n div d; r = n mod d
      in if 2 * r < d \<or> 2 * r = d \<and> even q then q else q + 1)"

definition float_scale :: "nat \<Rightarrow> nat \<Rightarrow> nat" where
  "float_scale a b = (case find (\<lambda>s. 2 ^ 52 * b \<le> a * 2 ^ s) [0 ..< 85] of Some s \<Rightarrow> s | None \<Rightarrow> 0)"

definition float_div :: "nat \<Rightarrow> nat \<Rightarrow> nat \<times> nat" where
  "float_div a b = (let s = float_scale a b in (round_half_even (a * 2 ^ s) b, s))"

definition float_floor :: "nat \<times> nat \<Rightarrow> int" where
  "float_floor = (\<lambda>(m, s). int (m div 2 ^ s))"

lemma round_half_even_add:
  assumes "0 < d" and "even k"
  shows "round_half_even (k * d + n) d = k + round_half_even n d"
  using assms by (simp add: round_half_even_def Let_def)

lemma float_scale:
  assumes "0 < a" "b < 2 ^ 32"
  shows "2 ^ 52 * b \<le> a * 2 ^ float_scale a b"
proof -
  have "2 ^ 52 * b \<le> a * 2 ^ (84 :: nat)"
  proof -
    have "2 ^ 52 * b \<le> 2 ^ 52 * 2 ^ 32" using assms(2) by simp
    also have "\<dots> \<le> a * 2 ^ 84" using assms(1) by simp
    finally show ?thesis .
  qed
  moreover have "84 \<in> set [0 ..< 85]" by simp
  ultimately have "find (\<lambda>s. 2 ^ 52 * b \<le> a * 2 ^ s) [0 ..< 85] \<noteq> None"
    unfolding find_None_iff by blast
  then obtain s where s: "find (\<lambda>s. 2 ^ 52 * b \<le> a * 2 ^ s) [0 ..< 85] = Some s" by blast
  then have "2 ^ 52 * b \<le> a * 2 ^ s" unfolding find_Some_iff by auto
  then show ?thesis unfolding float_scale_def s by simp
qed

text \<open>Rounding never carries the quotient of two \<^verbatim>\<open>uint32\<close> values to the next integer.\<close>

lemma float_floor_div:
  assumes a: "a < 2 ^ 32" and b: "0 < b" "b < 2 ^ 32"
  shows "float_floor (float_div a b) = int (a div b)"
proof (cases "a = 0")
  case True
  then show ?thesis using b by (simp add: float_floor_def float_div_def round_half_even_def)
next
  case False
  define s q r where "s = float_scale a b" and "q = a div b" and "r = a mod b"
  have big: "2 ^ 52 * b \<le> a * 2 ^ s" using float_scale [of a b] False b by (simp add: s_def)
  have "b < 2 ^ s"
  proof (rule ccontr)
    assume "\<not> b < 2 ^ s"
    then have "a * 2 ^ s \<le> a * b" by simp
    also have "\<dots> < 2 ^ 52 * b" using a b by simp
    finally show False using big by simp
  qed
  have r: "r < b" using b by (simp add: r_def)
  have split: "a * 2 ^ s = (q * 2 ^ s) * b + r * 2 ^ s" by (metis (no_types) q_def r_def div_mult_mod_eq add_mult_distrib mult.assoc mult.commute)
  have "s \<noteq> 0" using \<open>b < 2 ^ s\<close> b by (cases s) auto
  then have "round_half_even (a * 2 ^ s) b = q * 2 ^ s + round_half_even (r * 2 ^ s) b"
    using round_half_even_add [of b "q * 2 ^ s" "r * 2 ^ s"] b split by simp
  moreover have "round_half_even (r * 2 ^ s) b < 2 ^ s"
  proof -
    have "r * 2 ^ s + b < (r + 1) * 2 ^ s" using \<open>b < 2 ^ s\<close> by simp
    also have "\<dots> \<le> b * 2 ^ s" using r by (metis Suc_eq_plus1 Suc_leI mult_le_mono1)
    finally have "r * 2 ^ s < b * (2 ^ s - 1)" by (simp add: diff_mult_distrib2)
    then have "(r * 2 ^ s) div b < 2 ^ s - 1" by (simp add: less_mult_imp_div_less mult.commute)
    then show ?thesis by (auto simp: round_half_even_def Let_def)
  qed
  ultimately show ?thesis by (simp add: float_floor_def float_div_def s_def [symmetric] q_def)
qed

subsection \<open>Block slots\<close>

record BlockSlot =
  sl_genesisTimestamp :: u32
  sl_blockTime :: u32

definition NewBlockSlot :: "u32 \<Rightarrow> u32 \<Rightarrow> BlockSlot" where
  "NewBlockSlot genesisTimestamp blockTime =
     \<lparr>sl_genesisTimestamp = genesisTimestamp, sl_blockTime = blockTime\<rparr>"

definition GetSlotNumber :: "BlockSlot \<Rightarrow> u32 \<Rightarrow> int" where
  "GetSlotNumber a unixTime =
     (let elapsed = unixTime - sl_genesisTimestamp a
      in float_floor (float_div (unat elapsed) (unat (sl_blockTime a))))"

definition GetSlotTime :: "BlockSlot \<Rightarrow> int \<Rightarrow> u32" where
  "GetSlotTime a slot =
     (let offset = wrap_int (slot * uint (sl_blockTime a))
      in sl_genesisTimestamp a + word_of_int offset)"

lemma GetSlotNumber_eq:
  assumes "sl_blockTime a \<noteq> 0"
  shows "GetSlotNumber a t = uint (t - sl_genesisTimestamp a) div uint (sl_blockTime a)"
proof -
  have "unat x < 2 ^ 32" for x :: u32 using unsigned_less [of x] by simp
  then show ?thesis
    using assms by (simp add: GetSlotNumber_def float_floor_div unat_gt_0 of_nat_div)
qed

lemma word_of_int_wrap_int: "(word_of_int (wrap_int x) :: u32) = word_of_int x"
proof -
  have "take_bit 32 (signed_take_bit 63 x) = take_bit 32 x"
    by (rule bit_eqI) (auto simp: bit_take_bit_iff bit_signed_take_bit_iff)
  then show ?thesis by (simp add: wrap_int_def word_of_int_eq_iff)
qed

lemma GetSlotTime_eq: "GetSlotTime a n = sl_genesisTimestamp a + word_of_int (n * uint (sl_blockTime a))"
  by (simp add: GetSlotTime_def word_of_int_wrap_int)

lemma word_uint_of_int_small: "0 \<le> x \<Longrightarrow> x < 2 ^ 32 \<Longrightarrow> uint (word_of_int x :: u32) = x"
  by (simp add: unsigned_of_int take_bit_int_eq_self)

text \<open>
  C30: every moment up to one block time after the start of a slot is in that slot, as long as the
  distance from the genesis block fits in 32 bits; and every moment is less than one block time
  after the start of its slot.
\<close>

theorem slot_of_slot_time:
  assumes "sl_blockTime a \<noteq> 0"
  shows "(0 \<le> n \<and> d < sl_blockTime a \<and> n * uint (sl_blockTime a) + uint d < 2 ^ 32
      \<longrightarrow> GetSlotNumber a (GetSlotTime a n + d) = n)
    \<and> (\<exists>r. r < sl_blockTime a \<and> t = GetSlotTime a (GetSlotNumber a t) + r)"
proof
  let ?b = "uint (sl_blockTime a)"
  show "0 \<le> n \<and> d < sl_blockTime a \<and> n * ?b + uint d < 2 ^ 32
      \<longrightarrow> GetSlotNumber a (GetSlotTime a n + d) = n"
  proof
    assume h: "0 \<le> n \<and> d < sl_blockTime a \<and> n * ?b + uint d < 2 ^ 32"
    have "GetSlotTime a n + d - sl_genesisTimestamp a = word_of_int (n * ?b + uint d)"
      by (simp add: GetSlotTime_eq)
    moreover have "uint (word_of_int (n * ?b + uint d) :: u32) = n * ?b + uint d"
      using h by (intro word_uint_of_int_small) simp_all
    ultimately have "GetSlotNumber a (GetSlotTime a n + d) = (n * ?b + uint d) div ?b"
      by (simp only: GetSlotNumber_eq [OF assms])
    moreover have "?b \<noteq> 0" "uint d div ?b = 0" using h by (auto simp: word_less_def)
    ultimately show "GetSlotNumber a (GetSlotTime a n + d) = n" by simp
  qed
  let ?e = "t - sl_genesisTimestamp a"
  have "?e = word_of_int (uint ?e div ?b * ?b + uint ?e mod ?b)"
    by (simp only: div_mult_mod_eq word_of_int_uint)
  also have "\<dots> = word_of_int (uint ?e div ?b * ?b) + ?e mod sl_blockTime a"
    by (simp only: of_int_add word_mod_def)
  finally have "t = GetSlotTime a (GetSlotNumber a t) + ?e mod sl_blockTime a"
    unfolding GetSlotTime_eq GetSlotNumber_eq [OF assms] by (simp only: algebra_simps)
  moreover have "?e mod sl_blockTime a < sl_blockTime a"
    using assms by (simp add: word_mod_less_divisor word_neq_0_conv)
  ultimately show "\<exists>r. r < sl_blockTime a \<and> t = GetSlotTime a (GetSlotNumber a t) + r" by blast
qed

theorem slot_of_slot_time_witness:
  "GetSlotNumber (NewBlockSlot 1000 10) (GetSlotTime (NewBlockSlot 1000 10) 5 + 9) = 5
   \<and> (\<exists>r. r < 10 \<and> 1057 = GetSlotTime (NewBlockSlot 1000 10) (GetSlotNumber (NewBlockSlot 1000 10) 1057) + r)"
  using slot_of_slot_time [of "NewBlockSlot 1000 10" 5 9 1057] by (simp add: NewBlockSlot_def)

section \<open>The hash of a validator list\<close>

definition NewHashValidator :: "bytes \<Rightarrow> u64 \<Rightarrow> hashValidator" where
  "NewHashValidator blsKey bftWeight = \<lparr>hv_blsKey = blsKey, hv_bftWeight = bftWeight\<rparr>"

text \<open>The interface \<^verbatim>\<open>HashValidator\<close> is the pair of what its two methods return.\<close>

definition hashing_data :: "(bytes \<times> u64) list \<Rightarrow> u64 \<Rightarrow> validatrorsHashData" where
  "hashing_data validators certificateThreshold =
     (let hashingValidators = map (\<lambda>val. \<lparr>hv_blsKey = fst val, hv_bftWeight = snd val\<rparr>) validators;
          hashingValidators = sort_slice (\<lambda>x y. hv_blsKey x < hv_blsKey y) hashingValidators
      in \<lparr>vhd_activeValidators = hashingValidators, vhd_certificateThreshold = certificateThreshold\<rparr>)"

definition ComputeValidatorsHash :: "(bytes \<times> u64) list \<Rightarrow> u64 \<Rightarrow> bytes" where
  "ComputeValidatorsHash validators certificateThreshold =
     Hash (validatrorsHashData_Encode (hashing_data validators certificateThreshold))"

text \<open>The order of a list whose keys differ does not matter to a sort by key.\<close>

lemma distinct_map_sort_slice: "distinct (map key (sort_slice lt xs)) \<longleftrightarrow> distinct (map key xs)"
  by (rule mset_eq_imp_distinct_iff) (simp only: mset_map mset_sort_slice)

lemma sort_slice_perm:
  fixes key :: "'a \<Rightarrow> 'k :: linorder"
  assumes "distinct (map key xs)" "mset xs = mset ys"
  shows "sort_slice (\<lambda>x y. key x < key y) xs = sort_slice (\<lambda>x y. key x < key y) ys"
proof (rule map_sorted_distinct_set_unique [where f = key])
  have "distinct (map key ys)"
    using assms mset_eq_imp_distinct_iff [of "map key xs" "map key ys"] by simp
  then show "distinct (map key (sort_slice (\<lambda>x y. key x < key y) ys))" by (simp only: distinct_map_sort_slice)
  show "distinct (map key (sort_slice (\<lambda>x y. key x < key y) xs))"
    using assms(1) by (simp only: distinct_map_sort_slice)
  show "set (sort_slice (\<lambda>x y. key x < key y) xs) = set (sort_slice (\<lambda>x y. key x < key y) ys)"
    using mset_eq_setD [OF assms(2)] by simp
  then show "inj_on key (set (sort_slice (\<lambda>x y. key x < key y) xs) \<union> set (sort_slice (\<lambda>x y. key x < key y) ys))"
    using assms(1) by (simp add: distinct_map)
qed (rule sorted_sort_slice_asc)+

definition as_hashValidator :: "bytes \<times> u64 \<Rightarrow> hashValidator" where
  "as_hashValidator val = \<lparr>hv_blsKey = fst val, hv_bftWeight = snd val\<rparr>"

lemma inj_as_hashValidator: "inj as_hashValidator"
  by (rule injI) (simp add: as_hashValidator_def prod_eq_iff)

lemma hashing_data_eq:
  "hashing_data vs t =
     \<lparr>vhd_activeValidators = sort_slice (\<lambda>x y. hv_blsKey x < hv_blsKey y) (map as_hashValidator vs),
      vhd_certificateThreshold = t\<rparr>"
  by (simp add: hashing_data_def as_hashValidator_def [abs_def])

lemma hashing_data_eq_iff:
  assumes "distinct (map fst vs)"
  shows "hashing_data vs t = hashing_data ws u \<longleftrightarrow> mset vs = mset ws \<and> t = u"
proof
  assume eq: "hashing_data vs t = hashing_data ws u"
  have "mset (map as_hashValidator vs) = mset (map as_hashValidator ws)"
    using arg_cong [OF eq, of "\<lambda>d. mset (vhd_activeValidators d)"]
    by (simp only: hashing_data_eq validatrorsHashData.simps mset_sort_slice)
  then have "mset vs = mset ws"
    using multiset.inj_map [OF inj_as_hashValidator] by (simp only: mset_map inj_eq)
  then show "mset vs = mset ws \<and> t = u" using eq by (simp add: hashing_data_eq)
next
  assume h: "mset vs = mset ws \<and> t = u"
  have "map hv_blsKey (map as_hashValidator vs) = map fst vs" by (simp add: as_hashValidator_def)
  then have "distinct (map hv_blsKey (map as_hashValidator vs))" using assms by (simp only:)
  then show "hashing_data vs t = hashing_data ws u"
    using h sort_slice_perm [of hv_blsKey "map as_hashValidator vs" "map as_hashValidator ws"]
    by (simp only: hashing_data_eq mset_map)
qed



section \<open>Contradicting headers\<close>

text \<open>The interface \<^verbatim>\<open>BFTPartialBlockHeader\<close> with the ID of \<^verbatim>\<open>BFTBlockHeader\<close>.\<close>

record bftBlockHeader =
  ch_id :: bytes
  ch_height :: u32
  ch_generatorAddress :: bytes
  ch_maxHeightGenerated :: u32
  ch_maxHeightPrevoted :: u32

definition NewBFTBlockHeader :: "BlockHeader \<Rightarrow> bftBlockHeader" where
  "NewBFTBlockHeader header =
     \<lparr>ch_id = bh_ID header, ch_height = bh_Height header, ch_generatorAddress = bh_GeneratorAddress header,
      ch_maxHeightGenerated = bh_MaxHeightGenerated header,
      ch_maxHeightPrevoted = bh_MaxHeightPrevoted header\<rparr>"

definition AreDistinctHeadersContradicting :: "bftBlockHeader \<Rightarrow> bftBlockHeader \<Rightarrow> bool" where
  "AreDistinctHeadersContradicting b1 b2 =
     (let higherMaxHeightPreviouslyForged = ch_maxHeightGenerated b1 > ch_maxHeightGenerated b2;
          sameMaxHeightPreviouslyForged = (ch_maxHeightGenerated b1 = ch_maxHeightGenerated b2);
          higherMaxHeightPrevoted = ch_maxHeightPrevoted b1 > ch_maxHeightPrevoted b2;
          sameMaxHeightPrevoted = (ch_maxHeightPrevoted b1 = ch_maxHeightPrevoted b2);
          higherHeight = ch_height b1 > ch_height b2;
          (earlierBlock, laterBlock) =
            (if higherMaxHeightPreviouslyForged
                \<or> (sameMaxHeightPreviouslyForged \<and> higherMaxHeightPrevoted)
                \<or> (sameMaxHeightPreviouslyForged \<and> sameMaxHeightPrevoted \<and> higherHeight)
             then (b2, b1) else (b1, b2))
      in if \<not> Equal (ch_generatorAddress earlierBlock) (ch_generatorAddress laterBlock) then False
         else if ch_maxHeightPrevoted earlierBlock = ch_maxHeightPrevoted laterBlock
                 \<and> ch_height earlierBlock \<ge> ch_height laterBlock then True
         else if ch_height earlierBlock > ch_maxHeightGenerated laterBlock then True
         else if ch_maxHeightPrevoted earlierBlock > ch_maxHeightPrevoted laterBlock then True
         else False)"

text \<open>
  The same as a specification: a validator that follows the protocol announces in every header the
  largest height it generated at before, and generates on another chain only if that chain has a
  larger largest prevoted height, or the same one and a larger height.
\<close>

definition may_follow :: "bftBlockHeader \<Rightarrow> bftBlockHeader \<Rightarrow> bool" where
  "may_follow earlier later \<longleftrightarrow>
     ch_height earlier \<le> ch_maxHeightGenerated later
     \<and> (ch_maxHeightPrevoted earlier < ch_maxHeightPrevoted later
        \<or> ch_maxHeightPrevoted earlier = ch_maxHeightPrevoted later \<and> ch_height earlier < ch_height later)"


definition sample_partial :: "u32 \<Rightarrow> u32 \<Rightarrow> u32 \<Rightarrow> bftBlockHeader" where
  "sample_partial height generated prevoted =
     \<lparr>ch_id = [], ch_height = height, ch_generatorAddress = [7],
      ch_maxHeightGenerated = generated, ch_maxHeightPrevoted = prevoted\<rparr>"


section \<open>Fork choice\<close>

record forkChoice =
  fc_lastHeader :: BlockHeader
  fc_currentHeader :: BlockHeader
  fc_lastBlockReceivedAt :: "int option"
  fc_currentBlockReceivedAt :: int
  fc_slot :: BlockSlot

definition NewForkChoice :: "BlockHeader \<Rightarrow> BlockHeader \<Rightarrow> BlockSlot \<Rightarrow> int option \<Rightarrow> int \<Rightarrow> forkChoice" where
  "NewForkChoice lastHeader currentHeader slot lastBlockReceivedAt now =
     \<lparr>fc_lastHeader = lastHeader, fc_currentHeader = currentHeader,
      fc_lastBlockReceivedAt = lastBlockReceivedAt, fc_currentBlockReceivedAt = now, fc_slot = slot\<rparr>"

definition IsValidBlock :: "forkChoice \<Rightarrow> bool" where
  "IsValidBlock c \<longleftrightarrow>
     bh_Height (fc_lastHeader c) + 1 = bh_Height (fc_currentHeader c)
     \<and> Equal (bh_ID (fc_lastHeader c)) (bh_PreviousBlockID (fc_currentHeader c))"

definition IsIdenticalBlock :: "forkChoice \<Rightarrow> bool" where
  "IsIdenticalBlock c \<longleftrightarrow> Equal (bh_ID (fc_lastHeader c)) (bh_ID (fc_currentHeader c))"

definition isDuplicateBlock :: "forkChoice \<Rightarrow> bool" where
  "isDuplicateBlock c \<longleftrightarrow>
     bh_Height (fc_lastHeader c) = bh_Height (fc_currentHeader c)
     \<and> bh_MaxHeightPrevoted (fc_lastHeader c) = bh_MaxHeightPrevoted (fc_currentHeader c)
     \<and> Equal (bh_PreviousBlockID (fc_lastHeader c)) (bh_PreviousBlockID (fc_currentHeader c))"

definition IsDoubleForging :: "forkChoice \<Rightarrow> bool" where
  "IsDoubleForging c \<longleftrightarrow>
     isDuplicateBlock c
     \<and> Equal (bh_GeneratorAddress (fc_lastHeader c)) (bh_GeneratorAddress (fc_currentHeader c))"

definition receivedBlockWithinForgingSlot :: "forkChoice \<Rightarrow> bool" where
  "receivedBlockWithinForgingSlot c \<longleftrightarrow>
     GetSlotNumber (fc_slot c) (word_of_int (fc_currentBlockReceivedAt c))
     = GetSlotNumber (fc_slot c) (bh_Timestamp (fc_currentHeader c))"

definition receivedLastBlockWithinForgingSlot :: "forkChoice \<Rightarrow> bool" where
  "receivedLastBlockWithinForgingSlot c =
     (case fc_lastBlockReceivedAt c of
        None \<Rightarrow> True
      | Some t \<Rightarrow> GetSlotNumber (fc_slot c) (word_of_int t)
                   = GetSlotNumber (fc_slot c) (bh_Timestamp (fc_lastHeader c)))"

definition IsTieBreak :: "forkChoice \<Rightarrow> bool" where
  "IsTieBreak c \<longleftrightarrow>
     isDuplicateBlock c
     \<and> GetSlotNumber (fc_slot c) (bh_Timestamp (fc_lastHeader c))
       < GetSlotNumber (fc_slot c) (bh_Timestamp (fc_currentHeader c))
     \<and> \<not> receivedLastBlockWithinForgingSlot c
     \<and> receivedBlockWithinForgingSlot c"

definition IsDifferentChain :: "u32 \<Rightarrow> u32 \<Rightarrow> u32 \<Rightarrow> u32 \<Rightarrow> bool" where
  "IsDifferentChain lastMaxHeightPrevoted maxHeightPrevoted lastHeight height \<longleftrightarrow>
     lastMaxHeightPrevoted < maxHeightPrevoted
     \<or> (lastHeight < height \<and> lastMaxHeightPrevoted = maxHeightPrevoted)"

definition forkChoice_IsDifferentChain :: "forkChoice \<Rightarrow> bool" where
  "forkChoice_IsDifferentChain c =
     IsDifferentChain (bh_MaxHeightPrevoted (fc_lastHeader c)) (bh_MaxHeightPrevoted (fc_currentHeader c))
       (bh_Height (fc_lastHeader c)) (bh_Height (fc_currentHeader c))"

text \<open>
  The two results of fork choice that replace the last block: a tie break, and a different chain
  that is synchronised with.
\<close>

definition replaces :: "BlockSlot \<Rightarrow> BlockHeader \<Rightarrow> BlockHeader \<Rightarrow> bool" where
  "replaces slot old new \<longleftrightarrow>
     (\<exists>received now. IsTieBreak (NewForkChoice old new slot received now)
        \<or> forkChoice_IsDifferentChain (NewForkChoice old new slot received now))"

definition priority :: "BlockSlot \<Rightarrow> BlockHeader \<Rightarrow> nat \<times> nat \<times> nat" where
  "priority slot h =
     (2 ^ 32 - unat (bh_MaxHeightPrevoted h), 2 ^ 32 - unat (bh_Height h),
      2 ^ 32 - nat (GetSlotNumber slot (bh_Timestamp h)))"

lemma GetSlotNumber_bounds:
  assumes "sl_blockTime a \<noteq> 0"
  shows "0 \<le> GetSlotNumber a t" "GetSlotNumber a t < 2 ^ 32"
  unfolding GetSlotNumber_eq [OF assms] uint_div_distrib [symmetric]
  using unsigned_less [of "(t - sl_genesisTimestamp a) div sl_blockTime a"] by simp_all

lemma replaces_priority:
  assumes "sl_blockTime slot \<noteq> 0" "replaces slot old new"
  shows "(priority slot new, priority slot old) \<in> less_than <*lex*> less_than <*lex*> less_than"
proof -
  have w: "unat x < 2 ^ 32" for x :: u32 using unsigned_less [of x] by simp
  note facts = w [of "bh_MaxHeightPrevoted old"] w [of "bh_MaxHeightPrevoted new"]
    w [of "bh_Height old"] w [of "bh_Height new"]
    GetSlotNumber_bounds [OF assms(1), of "bh_Timestamp old"] GetSlotNumber_bounds [OF assms(1), of "bh_Timestamp new"]
  from assms(2) consider
    "bh_MaxHeightPrevoted old < bh_MaxHeightPrevoted new"
  | "bh_MaxHeightPrevoted old = bh_MaxHeightPrevoted new" "bh_Height old < bh_Height new"
  | "bh_MaxHeightPrevoted old = bh_MaxHeightPrevoted new" "bh_Height old = bh_Height new"
      "GetSlotNumber slot (bh_Timestamp old) < GetSlotNumber slot (bh_Timestamp new)"
    by (auto simp: replaces_def NewForkChoice_def IsTieBreak_def isDuplicateBlock_def
        forkChoice_IsDifferentChain_def IsDifferentChain_def)
  then show ?thesis
    using facts by cases (auto simp: priority_def word_less_nat_alt)
qed

text \<open>
  C29: fork choice cannot go round in circles: there is no infinite sequence of headers each of which
  replaces the one before, whenever the headers are received.
\<close>

theorem fork_choice_terminates:
  assumes "sl_blockTime slot \<noteq> 0"
  shows "\<nexists>chain. \<forall>i. replaces slot (chain i) (chain (Suc i))"
proof
  let ?r = "inv_image (less_than <*lex*> less_than <*lex*> less_than) (priority slot)"
  assume "\<exists>chain. \<forall>i. replaces slot (chain i) (chain (Suc i))"
  then obtain chain where "\<forall>i. replaces slot (chain i) (chain (Suc i))" by blast
  then have "\<forall>i. (chain (Suc i), chain i) \<in> ?r" using replaces_priority [OF assms] by simp
  moreover have "wf ?r" by (intro wf_inv_image wf_lex_prod wf_less_than)
  ultimately show False unfolding wf_iff_no_infinite_down_chain by blast
qed

theorem fork_choice_terminates_witness:
  "\<nexists>chain. \<forall>i. replaces (NewBlockSlot 0 10) (chain i) (chain (Suc i))"
  using fork_choice_terminates [of "NewBlockSlot 0 10"] by (simp add: NewBlockSlot_def)

end
