(* ===== verification/Db.thy ===== *)
theory Db
  imports Collections "HOL-Library.Sublist"
begin

text \<open>
  The key-value database of \<^verbatim>\<open>pkg/db\<close>, a wrapper of the Pebble store, and the prefixed view of
  \<^verbatim>\<open>pkg/db/batchdb\<close>.

  Pebble is a third-party package; what the wrapper relies on is that it holds key-value pairs in the
  order of their keys.  A \<open>store\<close> is that content: a list of pairs whose keys strictly increase
  (\<open>store_ok\<close>).  An iterator is a position in the list, moved by \<^verbatim>\<open>Next\<close> and \<^verbatim>\<open>Prev\<close>; the bounds
  given to \<^verbatim>\<open>NewIter\<close> cut the list.  A batch is the sequence of its operations, applied in order
  and at once by \<^verbatim>\<open>Write\<close>.  A \<^verbatim>\<open>Reader\<close> is a snapshot: the store at the time it is made.
\<close>

section \<open>Contents\<close>

type_synonym store = "(bytes \<times> bytes) list"

definition store_ok :: "store \<Rightarrow> bool" where
  "store_ok s \<longleftrightarrow> sorted_wrt (<) (map fst s)"

definition DB_Get :: "store \<Rightarrow> bytes \<Rightarrow> bytes option" where
  "DB_Get db key = map_of db key"

definition DB_Exist :: "store \<Rightarrow> bytes \<Rightarrow> bool" where
  "DB_Exist db key \<longleftrightarrow> DB_Get db key \<noteq> None"

fun DB_Set :: "store \<Rightarrow> bytes \<Rightarrow> bytes \<Rightarrow> store" where
  "DB_Set [] key val = [(key, val)]"
| "DB_Set ((k, v) # db) key val =
     (if key < k then (key, val) # (k, v) # db
      else if key = k then (key, val) # db
      else (k, v) # DB_Set db key val)"

definition DB_Del :: "store \<Rightarrow> bytes \<Rightarrow> store" where
  "DB_Del db key = filter (\<lambda>kv. fst kv \<noteq> key) db"

lemma set_keys_Set: "fst ` set (DB_Set db key val) = insert key (fst ` set db)"
  by (induction db key val rule: DB_Set.induct) auto

lemma store_ok_Set [simp]: "store_ok db \<Longrightarrow> store_ok (DB_Set db key val)"
proof (induction db key val rule: DB_Set.induct)
  case (2 k v db key val)
  then show ?case using set_keys_Set [of db key val] by (auto simp: store_ok_def)
qed (simp add: store_ok_def)

lemma store_ok_Del [simp]: "store_ok db \<Longrightarrow> store_ok (DB_Del db key)"
  unfolding store_ok_def DB_Del_def by (induction db) auto

lemma map_of_none: "(\<And>k. k \<in> fst ` set db \<Longrightarrow> key < k) \<Longrightarrow> map_of db key = (None :: 'b option)"
  for key :: "'a :: linorder"
  by (metis imageE less_irrefl map_of_SomeD option.exhaust fst_conv image_eqI)

lemma DB_Get_Set [simp]: "store_ok db \<Longrightarrow> DB_Get (DB_Set db key val) = (DB_Get db)(key \<mapsto> val)"
proof (induction db key val rule: DB_Set.induct)
  case (2 k v db key val)
  then show ?case by (auto simp: DB_Get_def store_ok_def fun_eq_iff)
qed (auto simp: DB_Get_def)

lemma DB_Get_Del [simp]: "DB_Get (DB_Del db key) = (DB_Get db)(key := None)"
  by (induction db) (auto simp: DB_Get_def DB_Del_def fun_eq_iff)

lemma DB_Get_iff: "store_ok db \<Longrightarrow> DB_Get db k = Some v \<longleftrightarrow> (k, v) \<in> set db"
  unfolding DB_Get_def store_ok_def by (simp add: strict_sorted_iff)

lemma store_eqI:
  assumes "store_ok a" "store_ok b" "DB_Get a = DB_Get b"
  shows "a = b"
proof -
  have "set a = set b" using DB_Get_iff [OF assms(1)] DB_Get_iff [OF assms(2)] assms(3) by auto
  moreover have "inj_on fst (set a \<union> set b)"
    using assms(1) calculation by (simp add: store_ok_def strict_sorted_iff distinct_map)
  ultimately show ?thesis
    using assms by (intro map_sorted_distinct_set_unique [of fst]) (simp_all add: store_ok_def strict_sorted_iff)
qed

section \<open>Iteration\<close>

fun upperBound_loop :: "nat \<Rightarrow> bytes \<Rightarrow> bytes option" where
  "upperBound_loop 0 end' = None"
| "upperBound_loop (Suc i) end' =
     (let end' = end'[i := end' ! i + 1]
      in if end' ! i \<noteq> 0 then Some (take (i + 1) end') else upperBound_loop i end')"

definition upperBound :: "bytes \<Rightarrow> bytes option" where
  "upperBound b = upperBound_loop (length b) b"

text \<open>The loops stop after \<^verbatim>\<open>limit\<close> pairs unless it is -1; they test it after a pair is added.\<close>

fun limit_loop :: "int \<Rightarrow> int \<Rightarrow> 'a list \<Rightarrow> 'a list" where
  "limit_loop limit cnt [] = []"
| "limit_loop limit cnt (x # xs) =
     x # (if limit \<noteq> -1 \<and> cnt + 1 \<ge> limit then [] else limit_loop limit (cnt + 1) xs)"

text \<open>The iterator with bounds sees the pairs from the lower bound up to the upper bound.\<close>

definition bounded :: "store \<Rightarrow> bytes \<Rightarrow> bytes option \<Rightarrow> store" where
  "bounded db lower upper =
     filter (\<lambda>kv. lower \<le> fst kv \<and> (case upper of None \<Rightarrow> True | Some u \<Rightarrow> fst kv < u)) db"

definition iteratePrefix :: "store \<Rightarrow> int \<Rightarrow> bool \<Rightarrow> store" where
  "iteratePrefix iter limit reverse = limit_loop limit 0 (if reverse then rev iter else iter)"

definition iterateKeyPrefix :: "store \<Rightarrow> int \<Rightarrow> bool \<Rightarrow> bytes list" where
  "iterateKeyPrefix iter limit reverse = limit_loop limit 0 (map fst (if reverse then rev iter else iter))"

text \<open>\<^verbatim>\<open>SeekLT\<close> of no bound at all is \<^verbatim>\<open>SeekLT\<close> of the empty key, which no key is less than.\<close>

definition iterateRange :: "store \<Rightarrow> bytes \<Rightarrow> bytes \<Rightarrow> int \<Rightarrow> bool \<Rightarrow> store" where
  "iterateRange db start end' limit reverse =
     (if \<not> reverse
      then limit_loop limit 0
             (takeWhile (\<lambda>kv. \<not> fst kv > end') (dropWhile (\<lambda>kv. fst kv < start) db))
      else limit_loop limit 0
             (takeWhile (\<lambda>kv. \<not> fst kv < start)
                (rev (takeWhile (\<lambda>kv. case upperBound end' of None \<Rightarrow> False | Some u \<Rightarrow> fst kv < u) db))))"

definition DB_IterateKey :: "store \<Rightarrow> bytes \<Rightarrow> int \<Rightarrow> bool \<Rightarrow> bytes list" where
  "DB_IterateKey db pre limit reverse = iterateKeyPrefix (bounded db pre (upperBound pre)) limit reverse"

definition DB_Iterate :: "store \<Rightarrow> bytes \<Rightarrow> int \<Rightarrow> bool \<Rightarrow> store" where
  "DB_Iterate db pre limit reverse = iteratePrefix (bounded db pre (upperBound pre)) limit reverse"

definition DB_IterateRange :: "store \<Rightarrow> bytes \<Rightarrow> bytes \<Rightarrow> int \<Rightarrow> bool \<Rightarrow> store" where
  "DB_IterateRange db start end' limit reverse = iterateRange db start end' limit reverse"

section \<open>Batches\<close>

datatype batch_op = BatchSet bytes bytes | BatchDel bytes

type_synonym Batch = "batch_op list"

definition Batch_Set :: "Batch \<Rightarrow> bytes \<Rightarrow> bytes \<Rightarrow> Batch" where
  "Batch_Set b key val = b @ [BatchSet key val]"

definition Batch_Del :: "Batch \<Rightarrow> bytes \<Rightarrow> Batch" where
  "Batch_Del b key = b @ [BatchDel key]"

fun apply_op :: "batch_op \<Rightarrow> store \<Rightarrow> store" where
  "apply_op (BatchSet k v) db = DB_Set db k v"
| "apply_op (BatchDel k) db = DB_Del db k"

definition DB_Write :: "store \<Rightarrow> Batch \<Rightarrow> store" where
  "DB_Write db batch = fold apply_op batch db"

section \<open>Prefixed batches\<close>

record batchDatabase =
  bd_database :: store
  bd_batch :: Batch
  bd_prefix :: bytes

definition batchdb_NewWithPrefix :: "store \<Rightarrow> Batch \<Rightarrow> bytes \<Rightarrow> batchDatabase" where
  "batchdb_NewWithPrefix database batch pre =
     \<lparr>bd_database = database, bd_batch = batch, bd_prefix = pre\<rparr>"

definition batchdb_prefixedKey :: "batchDatabase \<Rightarrow> bytes \<Rightarrow> bytes" where
  "batchdb_prefixedKey b key = JoinSize (length (bd_prefix b) + length key) [bd_prefix b, key]"

definition batchdb_Get :: "batchDatabase \<Rightarrow> bytes \<Rightarrow> bytes option" where
  "batchdb_Get b key = DB_Get (bd_database b) (batchdb_prefixedKey b key)"

definition batchdb_Set :: "batchDatabase \<Rightarrow> bytes \<Rightarrow> bytes \<Rightarrow> batchDatabase" where
  "batchdb_Set b key val = b\<lparr>bd_batch := Batch_Set (bd_batch b) (batchdb_prefixedKey b key) val\<rparr>"

definition batchdb_Del :: "batchDatabase \<Rightarrow> bytes \<Rightarrow> batchDatabase" where
  "batchdb_Del b key = b\<lparr>bd_batch := Batch_Del (bd_batch b) (batchdb_prefixedKey b key)\<rparr>"

section \<open>Properties\<close>

text \<open>The bound of a prefix, by recursion from the front.\<close>

fun next_prefix :: "bytes \<Rightarrow> bytes option" where
  "next_prefix [] = None"
| "next_prefix (x # xs) =
     (case next_prefix xs of
        Some u \<Rightarrow> Some (x # u)
      | None \<Rightarrow> if x = - 1 then None else Some [x + 1])"

lemma next_prefix_snoc:
  "next_prefix (xs @ [x]) = (if x = - 1 then next_prefix xs else Some (xs @ [x + 1]))"
  by (induction xs) (auto split: option.splits)

lemma word_inc_eq_0: "x + 1 = 0 \<longleftrightarrow> x = - 1" for x :: byte
  by (metis add_eq_0_iff2)

lemma upperBound_loop_eq: "i \<le> length e \<Longrightarrow> upperBound_loop i e = next_prefix (take i e)"
proof (induction i arbitrary: e)
  case (Suc i)
  then show ?case
    by (simp add: take_Suc_conv_app_nth next_prefix_snoc word_inc_eq_0 Let_def)
qed simp

lemma upperBound_eq: "upperBound b = next_prefix b"
  by (simp add: upperBound_def upperBound_loop_eq)

lemma between_inc: "x \<noteq> - 1 \<Longrightarrow> y < x + 1 \<longleftrightarrow> y \<le> x" for x y :: byte
  using unatSuc [of x] word_inc_eq_0 [of x] by (simp add: word_less_nat_alt word_le_nat_alt add.commute less_Suc_eq_le)

lemma prefix_bounds:
  "prefix b k \<longleftrightarrow> b \<le> k \<and> (case next_prefix b of None \<Rightarrow> True | Some u \<Rightarrow> k < u)"
proof (induction b arbitrary: k)
  case (Cons x xs)
  show ?case
  proof (cases k)
    case (Cons y ys)
    then show ?thesis using Cons.IH [of ys]
      by (auto simp: between_inc split: option.splits)
  qed (simp split: option.splits)
qed simp

lemma store_ok_filter: "store_ok db \<Longrightarrow> store_ok (filter P db)"
  unfolding store_ok_def by (induction db) auto

lemma limit_loop_all [simp]: "limit_loop (-1) cnt xs = xs"
  by (induction xs arbitrary: cnt) auto

lemma limit_loop_take: "0 < limit - cnt \<Longrightarrow> limit_loop limit cnt xs = take (nat (limit - cnt)) xs" if "0 \<le> cnt"
  using that
proof (induction xs arbitrary: cnt)
  case (Cons x xs)
  then show ?case by (cases "limit - cnt = 1") (auto simp: take_Cons' nat_diff_distrib nat_add_distrib)
qed simp

text \<open>
  C12: iterating over a prefix returns exactly the pairs whose key starts with the prefix, in the order
  of their keys or in the reverse order, cut to the limit when the limit is positive.
\<close>

theorem iterate_prefix:
  assumes "limit = -1 \<or> 0 < limit"
  shows "DB_Iterate db pre limit reverse =
    (let kvs = filter (\<lambda>kv. prefix pre (fst kv)) db;
         kvs = (if reverse then rev kvs else kvs)
     in if limit = -1 then kvs else take (nat limit) kvs)"
proof -
  have "bounded db pre (upperBound pre) = filter (\<lambda>kv. prefix pre (fst kv)) db"
    by (simp add: bounded_def upperBound_eq prefix_bounds)
  then show ?thesis
    using assms limit_loop_take [of 0 limit]
    by (auto simp: DB_Iterate_def iteratePrefix_def Let_def simp del: prefix_bounds)
qed

theorem iterate_prefix_witness:
  "DB_Iterate [([1], [5]), ([1, 7], [6]), ([2], [7])] [1] 1 True = [([1, 7], [6])]"
proof -
  have "prefix [1 :: byte] [1] \<and> prefix [1 :: byte] [1, 7] \<and> \<not> prefix [1 :: byte] [2]" by code_simp
  then show ?thesis
    using iterate_prefix [of 1 "[([1], [5]), ([1, 7], [6]), ([2], [7])]" "[1]" True] by (simp add: Let_def)
qed

lemma takeWhile_filter: "sorted_wrt (\<lambda>x y. P y \<longrightarrow> P x) xs \<Longrightarrow> takeWhile P xs = filter P xs"
proof (induction xs)
  case (Cons x xs)
  then have "\<not> P x \<Longrightarrow> filter P xs = []" by (auto simp: filter_empty_conv)
  then show ?case using Cons by auto
qed simp

lemma dropWhile_filter: "sorted_wrt (\<lambda>x y. P x \<longrightarrow> P y) xs \<Longrightarrow> dropWhile (\<lambda>x. \<not> P x) xs = filter P xs"
proof (induction xs)
  case (Cons x xs)
  then have "P x \<Longrightarrow> filter P xs = xs" by (auto simp: filter_id_conv)
  then show ?case using Cons by auto
qed simp

lemma store_sorted: "store_ok db \<Longrightarrow> (\<And>x y. fst x < fst y \<Longrightarrow> R x y) \<Longrightarrow> sorted_wrt R db"
  unfolding store_ok_def sorted_wrt_map by (erule sorted_wrt_mono_rel [rotated]) simp

lemma takeWhile_store_le: "store_ok db \<Longrightarrow> takeWhile (\<lambda>kv. fst kv \<le> u) db = filter (\<lambda>kv. fst kv \<le> u) db"
  by (rule takeWhile_filter, erule store_sorted) auto

lemma takeWhile_store_less: "store_ok db \<Longrightarrow> takeWhile (\<lambda>kv. fst kv < u) db = filter (\<lambda>kv. fst kv < u) db"
  by (rule takeWhile_filter, erule store_sorted) auto

lemma takeWhile_store_rev:
  "store_ok db \<Longrightarrow> takeWhile (\<lambda>kv. s \<le> fst kv) (rev db) = rev (filter (\<lambda>kv. s \<le> fst kv) db)"
  by (subst takeWhile_filter, unfold sorted_wrt_rev, erule store_sorted) (auto simp: rev_filter)

lemma dropWhile_store: "store_ok db \<Longrightarrow> dropWhile (\<lambda>kv. fst kv < s) db = filter (\<lambda>kv. s \<le> fst kv) db"
proof -
  assume "store_ok db"
  then have "sorted_wrt (\<lambda>x y. s \<le> fst x \<longrightarrow> s \<le> fst y) db" by (rule store_sorted) auto
  then show ?thesis using dropWhile_filter [of "\<lambda>kv. s \<le> fst kv" db] by (simp add: not_le)
qed

text \<open>
  A forward range ends at its end key; a backward range also has the keys that extend the end key.
\<close>

lemma iterateRange_forward:
  "store_ok db \<Longrightarrow>
   DB_IterateRange db start end' (-1) False = filter (\<lambda>kv. start \<le> fst kv \<and> fst kv \<le> end') db"
  by (simp add: DB_IterateRange_def iterateRange_def dropWhile_store takeWhile_store_le store_ok_filter
      not_less conj_commute)

lemma iterateRange_backward:
  "store_ok db \<Longrightarrow> upperBound end' = Some u \<Longrightarrow>
   DB_IterateRange db start end' (-1) True = rev (filter (\<lambda>kv. start \<le> fst kv \<and> fst kv < u) db)"
  by (simp add: DB_IterateRange_def iterateRange_def takeWhile_store_less takeWhile_store_rev
      store_ok_filter not_less conj_commute)

lemma range_directions_differ:
  "DB_IterateRange [([1], [5]), ([1, 7], [6])] [1] [1] (-1) False = [([1], [5])]"
  "DB_IterateRange [([1], [5]), ([1, 7], [6])] [1] [1] (-1) True = [([1, 7], [6]), ([1], [5])]"
  by code_simp+

lemma store_ok_Write [simp]: "store_ok db \<Longrightarrow> store_ok (DB_Write db batch)"
  unfolding DB_Write_def
proof (induction batch arbitrary: db)
  case (Cons x batch)
  then show ?case by (cases x) simp_all
qed simp

lemma DB_Write_append: "DB_Write db (a @ b) = DB_Write (DB_Write db a) b"
  by (simp add: DB_Write_def)

end
