(* ===== verification/Diffdb.thy ===== *)
theory Diffdb
  imports Db Codec_Laws
begin

text \<open>
  The state database of \<^verbatim>\<open>pkg/db/diffdb\<close>: a write cache over a store, committed to a batch
  together with the diff that undoes the commit.

  Databases made by \<^verbatim>\<open>WithPrefix\<close> share the cache of their parent, and \<^verbatim>\<open>RestoreSnapshot\<close>
  redirects one of them to another cache, so the caches live in a heap (\<open>w_caches\<close>) and a
  database holds the address of its cache and the addresses of its snapshots.

  Go iterates over a map in an unspecified order: \<open>order\<close> is that order, a parameter which
  lists the keys of a map (\<open>range_order\<close>).
  A \<^verbatim>\<open>nil\<close> initial value marks a key that the store does not have; it is \<open>None\<close>.
\<close>

section \<open>Messages\<close>

subsection \<open>KV\<close>

record KV =
  kv_Key :: bytes
  kv_Value :: bytes

definition KV_zero :: KV where
  "KV_zero =
     \<lparr>kv_Key = [], kv_Value = []\<rparr>"

definition KV_Encode :: "KV \<Rightarrow> bytes" where
  "KV_Encode e =
     write_all
       [WriteBytes 1 (kv_Key e),
        WriteBytes 2 (kv_Value e)]"

definition KV_read :: "bool \<Rightarrow> KV rd" where
  "KV_read strict = (\<lambda>r.
     obind (ReadBytes 1 strict r) (\<lambda>(v1, r).
     obind (ReadBytes 2 strict r) (\<lambda>(v2, r).
       Return
         (\<lparr>kv_Key = v1, kv_Value = v2\<rparr>, r))))"

interpretation kv_msg: message KV_Encode KV_read "\<lambda>_. True"
proof
  fix strict and e :: KV
  show "forward 0 (KV_read strict)"
    unfolding KV_read_def by (intro reader_rules)
  assume wf: "True"
  show "parses UNIV (KV_read strict) (KV_Encode e) e"
    unfolding KV_Encode_def KV_read_def write_all_eq
    by (rule parses_UNIV) (rule parse_rules | simp)+
qed

subsection \<open>Diff\<close>

record Diff =
  df_Added :: "bytes list"
  df_Updated :: "KV list"
  df_Deleted :: "KV list"

definition Diff_zero :: Diff where
  "Diff_zero =
     \<lparr>df_Added = [], df_Updated = [], df_Deleted = []\<rparr>"

definition Diff_Encode :: "Diff \<Rightarrow> bytes" where
  "Diff_Encode e =
     write_all
       [WriteBytesArray 1 (df_Added e),
        WriteEncodables 2 KV_Encode (df_Updated e),
        WriteEncodables 3 KV_Encode (df_Deleted e)]"

definition Diff_read :: "bool \<Rightarrow> Diff rd" where
  "Diff_read strict = (\<lambda>r.
     obind (ReadBytesArray 1 r) (\<lambda>(v1, r).
     obind (ReadDecodables 2 (KV_read False) r) (\<lambda>(v2, r).
     obind (ReadDecodables 3 (KV_read False) r) (\<lambda>(v3, r).
       Return
         (\<lparr>df_Added = v1, df_Updated = v2, df_Deleted = v3\<rparr>, r)))))"

interpretation df_msg: message Diff_Encode Diff_read "\<lambda>_. True"
proof
  fix strict and e :: Diff
  show "forward 0 (Diff_read strict)"
    unfolding Diff_read_def by (intro reader_rules kv_msg.forward_ReadDecodables)
  assume wf: "True"
  show "parses UNIV (Diff_read strict) (Diff_Encode e) e"
    unfolding Diff_Encode_def Diff_read_def write_all_eq
    by (rule parses_UNIV) (rule parse_rules kv_msg.parses_nested_list | simp add: list.pred_True)+
qed

definition Diff_Decode :: "bytes \<Rightarrow> (codec_error, Diff) outcome" where
  "Diff_Decode buf = decode_with (Diff_read False) buf"

definition Diff_DecodeStrict :: "bytes \<Rightarrow> (codec_error, Diff) outcome" where
  "Diff_DecodeStrict buf = decode_strict_with (Diff_read True) buf"

section \<open>The cache\<close>

record cacheValue =
  cv_init :: "bytes option"
  cv_value :: bytes
  cv_dirty :: bool
  cv_deleted :: bool

type_synonym cacheDB = "bytes \<rightharpoonup> cacheValue"

definition newCacheDB :: cacheDB where
  "newCacheDB = Map.empty"

definition cacheDB_add :: "cacheDB \<Rightarrow> bytes \<Rightarrow> bytes \<Rightarrow> cacheDB" where
  "cacheDB_add c key val =
     c(key \<mapsto> \<lparr>cv_init = None, cv_value = val, cv_dirty = False, cv_deleted = False\<rparr>)"

definition cacheDB_cache :: "cacheDB \<Rightarrow> bytes \<Rightarrow> bytes \<Rightarrow> cacheDB" where
  "cacheDB_cache c key val =
     c(key \<mapsto> \<lparr>cv_init = Some val, cv_value = val, cv_dirty = False, cv_deleted = False\<rparr>)"

definition cacheDB_set :: "cacheDB \<Rightarrow> bytes \<Rightarrow> bytes \<Rightarrow> ('e, cacheDB) outcome" where
  "cacheDB_set c key val =
     (case c key of
        None \<Rightarrow> Panic
      | Some original \<Rightarrow>
          Return (c(key \<mapsto> original\<lparr>cv_deleted := False, cv_dirty := True, cv_value := val\<rparr>)))"

text \<open>The value, whether it exists, and whether it is deleted.\<close>

definition cacheDB_get :: "cacheDB \<Rightarrow> bytes \<Rightarrow> bytes \<times> bool \<times> bool" where
  "cacheDB_get c key =
     (case c key of
        None \<Rightarrow> ([], False, False)
      | Some original \<Rightarrow>
          if cv_deleted original then ([], False, True) else (cv_value original, True, False))"

definition cacheDB_del :: "cacheDB \<Rightarrow> bytes \<Rightarrow> cacheDB" where
  "cacheDB_del c key =
     (case c key of
        None \<Rightarrow> c
      | Some original \<Rightarrow>
          if cv_init original = None then c(key := None)
          else c(key \<mapsto> original\<lparr>cv_deleted := True\<rparr>))"

definition cacheDB_existAny :: "cacheDB \<Rightarrow> bytes \<Rightarrow> bool" where
  "cacheDB_existAny c key \<longleftrightarrow> c key \<noteq> None"

text \<open>A slice from past the end of the key panics.\<close>

fun cacheDB_collect ::
    "cacheDB \<Rightarrow> (bytes \<Rightarrow> bool) \<Rightarrow> nat \<Rightarrow> bytes list \<Rightarrow> ('e, store) outcome" where
  "cacheDB_collect c P prefixLength [] = Return []"
| "cacheDB_collect c P prefixLength (key # ks) =
     (case c key of
        None \<Rightarrow> cacheDB_collect c P prefixLength ks
      | Some v \<Rightarrow>
          if \<not> cv_deleted v \<and> P key
          then if prefixLength \<le> length key
               then omap (\<lambda>r. (drop prefixLength key, cv_value v) # r) (cacheDB_collect c P prefixLength ks)
               else Panic
          else cacheDB_collect c P prefixLength ks)"

definition cacheDB_withPrefix ::
    "(cacheDB \<Rightarrow> bytes list) \<Rightarrow> cacheDB \<Rightarrow> bytes \<Rightarrow> nat \<Rightarrow> ('e, store) outcome" where
  "cacheDB_withPrefix order c pre prefixLength =
     cacheDB_collect c (\<lambda>key. prefix pre key) prefixLength (order c)"

definition cacheDB_dataBetween ::
    "(cacheDB \<Rightarrow> bytes list) \<Rightarrow> cacheDB \<Rightarrow> bytes \<Rightarrow> bytes \<Rightarrow> nat \<Rightarrow> ('e, store) outcome" where
  "cacheDB_dataBetween order c start end' prefixLength =
     cacheDB_collect c (\<lambda>key. start \<le> key \<and> key \<le> end') prefixLength (order c)"

text \<open>One key of the loop of \<^verbatim>\<open>commit\<close>.\<close>

definition commit_step :: "cacheDB \<Rightarrow> bytes \<Rightarrow> Batch \<times> Diff \<Rightarrow> Batch \<times> Diff" where
  "commit_step c key = (\<lambda>(writer, diff).
     case c key of
       None \<Rightarrow> (writer, diff)
     | Some v \<Rightarrow>
         (case cv_init v of
            None \<Rightarrow>
              (Batch_Set writer key (cv_value v), diff\<lparr>df_Added := df_Added diff @ [key]\<rparr>)
          | Some initial \<Rightarrow>
              if cv_deleted v
              then (Batch_Del writer key,
                    diff\<lparr>df_Deleted := df_Deleted diff @ [\<lparr>kv_Key = key, kv_Value = initial\<rparr>]\<rparr>)
              else if cv_dirty v
              then (Batch_Set writer key (cv_value v),
                    diff\<lparr>df_Updated := df_Updated diff @ [\<lparr>kv_Key = key, kv_Value = initial\<rparr>]\<rparr>)
              else (writer, diff)))"

definition cacheDB_commit :: "(cacheDB \<Rightarrow> bytes list) \<Rightarrow> cacheDB \<Rightarrow> Batch \<Rightarrow> Batch \<times> Diff" where
  "cacheDB_commit order c writer = fold (commit_step c) (order c) (writer, Diff_zero)"

section \<open>The database\<close>

record world =
  w_store :: store
  w_caches :: "cacheDB list"

record Database =
  d_prefix :: bytes
  d_cache :: nat
  d_snapshots :: "int \<rightharpoonup> nat"
  d_snapshotCount :: int

definition Database_New :: "world \<Rightarrow> bytes \<Rightarrow> world \<times> Database" where
  "Database_New w pre =
     (w\<lparr>w_caches := w_caches w @ [newCacheDB]\<rparr>,
      \<lparr>d_prefix = pre, d_cache = length (w_caches w), d_snapshots = Map.empty, d_snapshotCount = 0\<rparr>)"

definition Database_WithPrefix :: "Database \<Rightarrow> bytes \<Rightarrow> Database" where
  "Database_WithPrefix s pre =
     \<lparr>d_prefix = Join [d_prefix s, pre], d_cache = d_cache s, d_snapshots = Map.empty,
      d_snapshotCount = 0\<rparr>"

definition Database_getKey :: "Database \<Rightarrow> bytes \<Rightarrow> bytes" where
  "Database_getKey s key = JoinSize (length (d_prefix s) + length key) [d_prefix s, key]"

abbreviation the_cache :: "world \<Rightarrow> Database \<Rightarrow> cacheDB" where
  "the_cache w s \<equiv> w_caches w ! d_cache s"

definition put_cache :: "world \<Rightarrow> Database \<Rightarrow> cacheDB \<Rightarrow> world" where
  "put_cache w s c = w\<lparr>w_caches := (w_caches w)[d_cache s := c]\<rparr>"

definition Database_Get :: "world \<Rightarrow> Database \<Rightarrow> bytes \<Rightarrow> bytes option \<times> world" where
  "Database_Get w s key =
     (let (val, exist, deleted) = cacheDB_get (the_cache w s) (Database_getKey s key)
      in if exist then (Some val, w)
         else if deleted then (None, w)
         else (case DB_Get (w_store w) (Database_getKey s key) of
                 None \<Rightarrow> (None, w)
               | Some val \<Rightarrow>
                   (Some val, put_cache w s (cacheDB_cache (the_cache w s) (Database_getKey s key) val))))"

definition Database_Has :: "world \<Rightarrow> Database \<Rightarrow> bytes \<Rightarrow> bool \<times> world" where
  "Database_Has w s key = (let (val, w) = Database_Get w s key in (val \<noteq> None, w))"

definition ensureCache :: "world \<Rightarrow> Database \<Rightarrow> bytes \<Rightarrow> bool \<times> world" where
  "ensureCache w s key =
     (case DB_Get (w_store w) key of
        None \<Rightarrow> (False, w)
      | Some val \<Rightarrow> (True, put_cache w s (cacheDB_cache (the_cache w s) key val)))"

definition Database_Set :: "world \<Rightarrow> Database \<Rightarrow> bytes \<Rightarrow> bytes \<Rightarrow> ('e, world) outcome" where
  "Database_Set w s key val =
     (let prefixedKey = Database_getKey s key
      in if cacheDB_existAny (the_cache w s) prefixedKey
         then omap (put_cache w s) (cacheDB_set (the_cache w s) prefixedKey val)
         else let (dataExist, w) = ensureCache w s prefixedKey
              in if dataExist
                 then omap (put_cache w s) (cacheDB_set (the_cache w s) prefixedKey val)
                 else Return (put_cache w s (cacheDB_add (the_cache w s) prefixedKey val)))"

definition Database_Del :: "world \<Rightarrow> Database \<Rightarrow> bytes \<Rightarrow> world" where
  "Database_Del w s key =
     (let prefixedKey = Database_getKey s key;
          w = (if cacheDB_existAny (the_cache w s) prefixedKey then w
               else snd (ensureCache w s prefixedKey))
      in put_cache w s (cacheDB_del (the_cache w s) prefixedKey))"

definition Database_Commit ::
    "(cacheDB \<Rightarrow> bytes list) \<Rightarrow> world \<Rightarrow> Database \<Rightarrow> Batch \<Rightarrow> Batch \<times> Diff" where
  "Database_Commit order w s batch = cacheDB_commit order (the_cache w s) batch"

definition Database_RevertDiff :: "Batch \<Rightarrow> Diff \<Rightarrow> Batch" where
  "Database_RevertDiff batch diff =
     (let batch = fold (\<lambda>added b. Batch_Del b added) (df_Added diff) batch;
          batch = fold (\<lambda>kv b. Batch_Set b (kv_Key kv) (kv_Value kv)) (df_Deleted diff) batch
      in fold (\<lambda>kv b. Batch_Set b (kv_Key kv) (kv_Value kv)) (df_Updated diff) batch)"

definition Database_Snapshot :: "world \<Rightarrow> Database \<Rightarrow> int \<times> world \<times> Database" where
  "Database_Snapshot w s =
     (d_snapshotCount s,
      w\<lparr>w_caches := w_caches w @ [the_cache w s]\<rparr>,
      s\<lparr>d_snapshots := (d_snapshots s)(d_snapshotCount s \<mapsto> length (w_caches w)),
        d_snapshotCount := d_snapshotCount s + 1\<rparr>)"

definition Database_DeleteSnapshot :: "Database \<Rightarrow> int \<Rightarrow> Database" where
  "Database_DeleteSnapshot s i = s\<lparr>d_snapshots := (d_snapshots s)(i := None)\<rparr>"

datatype diffdb_error = Err_snapshot_missing | Err_key_missing | Err_diff_decode codec_error

definition Database_RestoreSnapshot :: "Database \<Rightarrow> int \<Rightarrow> (diffdb_error, Database) outcome" where
  "Database_RestoreSnapshot s i =
     (case d_snapshots s i of
        None \<Rightarrow> Error Err_snapshot_missing
      | Some snapshot \<Rightarrow>
          Return (s\<lparr>d_cache := snapshot, d_snapshots := (d_snapshots s)(i := None)\<rparr>))"

text \<open>
  The pairs of the store, without the deleted ones; the pairs that are not cached get cached and are
  listed without their value.
\<close>

fun stored_loop ::
    "world \<Rightarrow> Database \<Rightarrow> store \<Rightarrow> store \<Rightarrow> store \<times> world" where
  "stored_loop w s [] storedValue = (storedValue, w)"
| "stored_loop w s ((key, val) # kv) storedValue =
     (let (cached, exist, deleted) = cacheDB_get (the_cache w s) key
      in if deleted then stored_loop w s kv storedValue
         else stored_loop
                (if exist then w else put_cache w s (cacheDB_cache (the_cache w s) key val))
                s kv (storedValue @ [(drop (length (d_prefix s)) key, cached)]))"

definition mergeSortLimit :: "store \<Rightarrow> store \<Rightarrow> bool \<Rightarrow> int \<Rightarrow> store" where
  "mergeSortLimit cached stored reverse limit =
     (let result = cached @ filter (\<lambda>kv. fst kv \<notin> fst ` set cached) stored;
          result = sort_slice (\<lambda>x y. if reverse then fst x > fst y else fst x < fst y) result
      in if limit > -1 \<and> int (length result) > limit then take (nat limit) result else result)"

definition Database_Range ::
    "(cacheDB \<Rightarrow> bytes list) \<Rightarrow> world \<Rightarrow> Database \<Rightarrow> bytes \<Rightarrow> bytes \<Rightarrow> int \<Rightarrow> bool
     \<Rightarrow> ('e, store \<times> world) outcome" where
  "Database_Range order w s start end' limit reverse =
     (let prefixedStart = Database_getKey s start;
          prefixedEnd = Database_getKey s end';
          kv = DB_IterateRange (w_store w) prefixedStart prefixedEnd limit reverse;
          (storedValue, w) = stored_loop w s kv []
      in omap (\<lambda>cachedValue. (mergeSortLimit cachedValue storedValue reverse limit, w))
           (cacheDB_dataBetween order (the_cache w s) prefixedStart prefixedEnd (length (d_prefix s))))"

definition Database_Iterate ::
    "(cacheDB \<Rightarrow> bytes list) \<Rightarrow> world \<Rightarrow> Database \<Rightarrow> bytes \<Rightarrow> int \<Rightarrow> bool
     \<Rightarrow> ('e, store \<times> world) outcome" where
  "Database_Iterate order w s pre limit reverse =
     (let prefixedKey = Database_getKey s pre;
          kv = DB_Iterate (w_store w) prefixedKey limit reverse;
          (storedValue, w) = stored_loop w s kv []
      in omap (\<lambda>cachedValue. (mergeSortLimit cachedValue storedValue reverse limit, w))
           (cacheDB_withPrefix order (the_cache w s) pre (length (d_prefix s))))"

text \<open>
  \<^verbatim>\<open>GetDecodableOrDefault\<close> compares the error with \<^verbatim>\<open>ErrNotFound\<close>, which \<^verbatim>\<open>GetDecodable\<close>
  never returns; \<open>dflt\<close> is the value before the call.
\<close>

definition GetDecodable ::
    "(bytes \<Rightarrow> (codec_error, 'a) outcome) \<Rightarrow> world \<Rightarrow> Database \<Rightarrow> bytes
     \<Rightarrow> (diffdb_error, 'a) outcome \<times> world" where
  "GetDecodable decode w s key =
     (let (resultBytes, w) = Database_Get w s key
      in (case resultBytes of
            None \<Rightarrow> Error Err_key_missing
          | Some b \<Rightarrow> wrap_error Err_diff_decode (decode b), w))"

definition is_ErrNotFound :: "diffdb_error \<Rightarrow> bool" where
  "is_ErrNotFound e = False"

definition GetDecodableOrDefault ::
    "(bytes \<Rightarrow> (codec_error, 'a) outcome) \<Rightarrow> world \<Rightarrow> Database \<Rightarrow> bytes \<Rightarrow> 'a
     \<Rightarrow> (diffdb_error, 'a) outcome \<times> world" where
  "GetDecodableOrDefault decode w s key dflt =
     (let (res, w) = GetDecodable decode w s key
      in (case res of
            Error e \<Rightarrow> if is_ErrNotFound e then Return dflt else Error e
          | _ \<Rightarrow> res, w))"

definition SetEncodable ::
    "('a \<Rightarrow> bytes) \<Rightarrow> world \<Rightarrow> Database \<Rightarrow> bytes \<Rightarrow> 'a \<Rightarrow> ('e, world) outcome" where
  "SetEncodable encode w s key x = obind (as_slice (encode x)) (Database_Set w s key)"

section \<open>Stores of keys and values\<close>

text \<open>
  What a client of a key-value store relies on (the interfaces \<^verbatim>\<open>Get\<close>, \<^verbatim>\<open>Set\<close> and \<^verbatim>\<open>Del\<close> that
  the packages declare): reading sees the last write.
\<close>

datatype kv_op = Put bytes bytes | Remove bytes

fun kv_apply :: "kv_op \<Rightarrow> (bytes \<rightharpoonup> bytes) \<Rightarrow> (bytes \<rightharpoonup> bytes)" where
  "kv_apply (Put k v) m = m(k \<mapsto> v)"
| "kv_apply (Remove k) m = m(k := None)"

locale kv_store =
  fixes ok :: "'s \<Rightarrow> bool"
    and get :: "'s \<Rightarrow> bytes \<Rightarrow> bytes option"
    and put :: "'s \<Rightarrow> bytes \<Rightarrow> bytes \<Rightarrow> 's"
    and remove :: "'s \<Rightarrow> bytes \<Rightarrow> 's"
  assumes ok_put: "ok s \<Longrightarrow> ok (put s k v)"
    and ok_remove: "ok s \<Longrightarrow> ok (remove s k)"
    and get_put: "ok s \<Longrightarrow> get (put s k v) = (get s)(k \<mapsto> v)"
    and get_remove: "ok s \<Longrightarrow> get (remove s k) = (get s)(k := None)"
begin

definition step :: "kv_op \<Rightarrow> 's \<Rightarrow> 's" where
  "step op s = (case op of Put k v \<Rightarrow> put s k v | Remove k \<Rightarrow> remove s k)"

lemma ok_step: "ok s \<Longrightarrow> ok (step op s)"
  by (cases op) (auto simp: step_def ok_put ok_remove)

lemma get_step: "ok s \<Longrightarrow> get (step op s) = kv_apply op (get s)"
  by (cases op) (auto simp: step_def get_put get_remove)

lemma ok_run: "ok s \<Longrightarrow> ok (fold step ops s)"
  by (induction ops arbitrary: s) (auto simp: ok_step)

lemma get_run: "ok s \<Longrightarrow> get (fold step ops s) = fold kv_apply ops (get s)"
  by (induction ops arbitrary: s) (auto simp: ok_step get_step)

end

interpretation ds: kv_store store_ok DB_Get DB_Set DB_Del
  by unfold_locales simp_all

section \<open>What the database shows\<close>

definition raw :: "store \<Rightarrow> cacheDB \<Rightarrow> bytes \<Rightarrow> bytes option" where
  "raw st c k =
     (case c k of
        None \<Rightarrow> DB_Get st k
      | Some v \<Rightarrow> if cv_deleted v then None else Some (cv_value v))"

definition view :: "world \<Rightarrow> Database \<Rightarrow> bytes \<Rightarrow> bytes option" where
  "view w s k = raw (w_store w) (the_cache w s) (d_prefix s @ k)"

text \<open>
  The cache knows the stored value of every key it has, and an entry that is neither changed nor
  deleted still has it.
\<close>

definition value_ok :: "bytes option \<Rightarrow> cacheValue \<Rightarrow> bool" where
  "value_ok stored v \<longleftrightarrow>
     cv_init v = stored \<and> (stored = None \<longrightarrow> \<not> cv_deleted v)
     \<and> (\<not> cv_dirty v \<and> \<not> cv_deleted v \<and> stored \<noteq> None \<longrightarrow> Some (cv_value v) = stored)"

definition cache_ok :: "store \<Rightarrow> cacheDB \<Rightarrow> bool" where
  "cache_ok st c \<longleftrightarrow> finite (dom c) \<and> (\<forall>k v. c k = Some v \<longrightarrow> value_ok (DB_Get st k) v)"

definition db_ok :: "world \<Rightarrow> Database \<Rightarrow> bool" where
  "db_ok w s \<longleftrightarrow>
     store_ok (w_store w) \<and> d_cache s < length (w_caches w) \<and> cache_ok (w_store w) (the_cache w s)"

lemma getKey_eq [simp]: "Database_getKey s key = d_prefix s @ key"
  by (simp add: Database_getKey_def JoinSize_eq)

lemma cache_ok_upd: "cache_ok st c \<Longrightarrow> value_ok (DB_Get st k) v \<Longrightarrow> cache_ok st (c(k \<mapsto> v))"
  by (auto simp: cache_ok_def)

lemma cache_ok_remove: "cache_ok st c \<Longrightarrow> cache_ok st (c(k := None))"
  by (auto simp: cache_ok_def)

lemma cache_okD: "cache_ok st c \<Longrightarrow> c k = Some v \<Longrightarrow> value_ok (DB_Get st k) v"
  by (simp add: cache_ok_def)

lemma put_cache_sel [simp]:
  "w_store (put_cache w s c) = w_store w"
  "length (w_caches (put_cache w s c)) = length (w_caches w)"
  "d_cache s < length (w_caches w) \<Longrightarrow> the_cache (put_cache w s c) s = c"
  "put_cache (put_cache w s c) s c' = put_cache w s c'"
  by (simp_all add: put_cache_def)

lemma db_ok_put [simp]: "db_ok w s \<Longrightarrow> db_ok (put_cache w s c) s \<longleftrightarrow> cache_ok (w_store w) c"
  by (simp add: db_ok_def)

text \<open>Caching a stored value changes nothing that can be seen.\<close>

lemma cacheDB_cache_ok:
  assumes "cache_ok st c" "c k = None" "DB_Get st k = Some val"
  shows "cache_ok st (cacheDB_cache c k val) \<and> raw st (cacheDB_cache c k val) = raw st c"
  using assms by (auto simp: cacheDB_cache_def value_ok_def raw_def fun_eq_iff intro!: cache_ok_upd)

lemma Database_Get_view:
  assumes "db_ok w s"
  shows "fst (Database_Get w s key) = view w s key
    \<and> db_ok (snd (Database_Get w s key)) s
    \<and> w_store (snd (Database_Get w s key)) = w_store w
    \<and> raw (w_store w) (the_cache (snd (Database_Get w s key)) s) = raw (w_store w) (the_cache w s)"
proof (cases "the_cache w s (d_prefix s @ key)")
  case None
  have c: "d_cache s < length (w_caches w)" "cache_ok (w_store w) (the_cache w s)"
    using assms by (simp_all add: db_ok_def)
  show ?thesis
  proof (cases "DB_Get (w_store w) (d_prefix s @ key)")
    case (Some val)
    then show ?thesis using cacheDB_cache_ok [OF c(2) None Some] assms c(1) None
      by (simp add: Database_Get_def cacheDB_get_def view_def raw_def)
  qed (use assms None in \<open>simp add: Database_Get_def cacheDB_get_def view_def raw_def\<close>)
qed (use assms in \<open>auto simp: Database_Get_def cacheDB_get_def view_def raw_def\<close>)

text \<open>Writing and deleting.\<close>

definition after_set :: "world \<Rightarrow> Database \<Rightarrow> bytes \<Rightarrow> bytes \<Rightarrow> world \<Rightarrow> bool" where
  "after_set w s key val w' \<longleftrightarrow>
     w_store w' = w_store w \<and> db_ok w' s \<and> length (w_caches w') = length (w_caches w)
     \<and> (\<forall>i. i \<noteq> d_cache s \<longrightarrow> w_caches w' ! i = w_caches w ! i)
     \<and> raw (w_store w) (the_cache w' s) = (raw (w_store w) (the_cache w s))(d_prefix s @ key \<mapsto> val)"

lemma Database_Set_view:
  assumes "db_ok w s"
  shows "\<exists>w'. Database_Set w s key val = Return w' \<and> after_set w s key val w'"
proof -
  let ?c = "the_cache w s" and ?k = "d_prefix s @ key"
  have ok: "d_cache s < length (w_caches w)" "cache_ok (w_store w) ?c" using assms by (simp_all add: db_ok_def)
  have put: "after_set w s key val (put_cache w s (?c(?k \<mapsto> v)))"
    if "value_ok (DB_Get (w_store w) ?k) v" "cv_value v = val" "\<not> cv_deleted v" for v
    using that ok assms by (auto simp: after_set_def raw_def fun_eq_iff put_cache_def db_ok_def intro!: cache_ok_upd)
  show ?thesis
  proof (cases "?c ?k")
    case (Some v)
    then have "value_ok (DB_Get (w_store w) ?k) (v\<lparr>cv_deleted := False, cv_dirty := True, cv_value := val\<rparr>)"
      using cache_okD [OF ok(2) Some] by (simp add: value_ok_def)
    then show ?thesis using put Some
      by (simp add: Database_Set_def cacheDB_existAny_def cacheDB_set_def)
  next
    case None
    then show ?thesis
      using put ok(1)
      by (cases "DB_Get (w_store w) ?k")
        (simp_all add: Database_Set_def cacheDB_existAny_def cacheDB_set_def ensureCache_def cacheDB_add_def
          cacheDB_cache_def value_ok_def)
  qed
qed

lemma Database_Del_view:
  assumes "db_ok w s"
  shows "w_store (Database_Del w s key) = w_store w \<and> db_ok (Database_Del w s key) s
    \<and> raw (w_store w) (the_cache (Database_Del w s key) s) = (raw (w_store w) (the_cache w s))(d_prefix s @ key := None)"
proof -
  let ?c = "the_cache w s" and ?k = "d_prefix s @ key"
  have ok: "d_cache s < length (w_caches w)" "cache_ok (w_store w) ?c" using assms by (simp_all add: db_ok_def)
  show ?thesis
  proof (cases "?c ?k")
    case (Some v)
    have v: "value_ok (DB_Get (w_store w) ?k) v" using cache_okD [OF ok(2) Some] .
    show ?thesis
    proof (cases "cv_init v")
      case None
      then have "DB_Get (w_store w) ?k = None" using v by (simp add: value_ok_def)
      then show ?thesis using None Some ok assms
        by (auto simp: Database_Del_def cacheDB_existAny_def cacheDB_del_def raw_def fun_eq_iff intro!: cache_ok_remove)
    next
      case (Some i)
      then have "value_ok (DB_Get (w_store w) ?k) (v\<lparr>cv_deleted := True\<rparr>)"
        using v by (cases "DB_Get (w_store w) ?k") (auto simp: value_ok_def)
      then show ?thesis using Some \<open>?c ?k = Some v\<close> ok assms
        by (auto simp: Database_Del_def cacheDB_existAny_def cacheDB_del_def raw_def fun_eq_iff intro!: cache_ok_upd)
    qed
  next
    case None
    show ?thesis
    proof (cases "DB_Get (w_store w) ?k")
      case None
      then show ?thesis using \<open>?c ?k = None\<close> ok assms
        by (auto simp: Database_Del_def cacheDB_existAny_def cacheDB_del_def ensureCache_def raw_def fun_eq_iff)
    next
      case (Some i)
      then show ?thesis using \<open>?c ?k = None\<close> ok assms
        by (auto simp: Database_Del_def cacheDB_existAny_def cacheDB_del_def ensureCache_def raw_def fun_eq_iff
            cacheDB_cache_def value_ok_def intro!: cache_ok_upd)
    qed
  qed
qed

definition put_db :: "Database \<Rightarrow> world \<Rightarrow> bytes \<Rightarrow> bytes \<Rightarrow> world" where
  "put_db s w k v = (case (Database_Set w s k v :: (unit, world) outcome) of Return w' \<Rightarrow> w' | _ \<Rightarrow> w)"

lemma put_db_after: "db_ok w s \<Longrightarrow> after_set w s k v (put_db s w k v)"
  using Database_Set_view [of w s k v, where ?'a = unit] by (auto simp: put_db_def)

lemma view_fun: "view w s = (\<lambda>k. raw (w_store w) (the_cache w s) (d_prefix s @ k))"
  by (simp add: view_def fun_eq_iff)

interpretation dv: kv_store "\<lambda>w. db_ok w s" "\<lambda>w. view w s" "put_db s" "\<lambda>w. Database_Del w s" for s
proof
  fix w k v assume ok: "db_ok w s"
  show "db_ok (put_db s w k v) s" "view (put_db s w k v) s = (view w s)(k \<mapsto> v)"
    using put_db_after [OF ok, of k v] by (auto simp: after_set_def view_fun fun_eq_iff)
  show "db_ok (Database_Del w s k) s" "view (Database_Del w s k) s = (view w s)(k := None)"
    using Database_Del_view [OF ok, of k] by (auto simp: view_fun fun_eq_iff)
qed

section \<open>Commit and revert\<close>

definition range_order :: "(cacheDB \<Rightarrow> bytes list) \<Rightarrow> bool" where
  "range_order order \<longleftrightarrow> (\<forall>c. finite (dom c) \<longrightarrow> distinct (order c) \<and> set (order c) = dom c)"

fun op_effect :: "batch_op \<Rightarrow> (bytes \<rightharpoonup> bytes) \<Rightarrow> (bytes \<rightharpoonup> bytes)" where
  "op_effect (BatchSet k v) m = m(k \<mapsto> v)"
| "op_effect (BatchDel k) m = m(k := None)"

lemma DB_Get_Write: "store_ok st \<Longrightarrow> DB_Get (DB_Write st b) = fold op_effect b (DB_Get st)"
  unfolding DB_Write_def
proof (induction b arbitrary: st)
  case (Cons op b)
  then show ?case by (cases op) (simp_all add: fun_upd_def)
qed simp

definition key_ops :: "cacheDB \<Rightarrow> bytes \<Rightarrow> Batch" where
  "key_ops c key =
     (case c key of
        None \<Rightarrow> []
      | Some v \<Rightarrow>
          if cv_init v = None then [BatchSet key (cv_value v)]
          else if cv_deleted v then [BatchDel key]
          else if cv_dirty v then [BatchSet key (cv_value v)] else [])"

definition is_added :: "cacheDB \<Rightarrow> bytes \<Rightarrow> bool" where
  "is_added c key \<longleftrightarrow> (\<exists>v. c key = Some v \<and> cv_init v = None)"

definition is_deleted :: "cacheDB \<Rightarrow> bytes \<Rightarrow> bool" where
  "is_deleted c key \<longleftrightarrow> (\<exists>v. c key = Some v \<and> cv_init v \<noteq> None \<and> cv_deleted v)"

definition is_updated :: "cacheDB \<Rightarrow> bytes \<Rightarrow> bool" where
  "is_updated c key \<longleftrightarrow> (\<exists>v. c key = Some v \<and> cv_init v \<noteq> None \<and> \<not> cv_deleted v \<and> cv_dirty v)"

definition init_pair :: "cacheDB \<Rightarrow> bytes \<Rightarrow> KV" where
  "init_pair c key = \<lparr>kv_Key = key, kv_Value = the (cv_init (the (c key)))\<rparr>"

lemma commit_fold:
  "fold (commit_step c) ks (b, d) =
     (b @ concat (map (key_ops c) ks),
      d\<lparr>df_Added := df_Added d @ filter (is_added c) ks,
        df_Updated := df_Updated d @ map (init_pair c) (filter (is_updated c) ks),
        df_Deleted := df_Deleted d @ map (init_pair c) (filter (is_deleted c) ks)\<rparr>)"
proof (induction ks arbitrary: b d)
  case (Cons k ks)
  show ?case
  proof (cases "c k")
    case None
    then show ?thesis using Cons
      by (simp add: commit_step_def key_ops_def is_added_def is_updated_def is_deleted_def)
  next
    case (Some v)
    then show ?thesis using Cons
      by (cases "cv_init v")
        (simp_all add: commit_step_def key_ops_def is_added_def is_updated_def is_deleted_def
          init_pair_def Batch_Set_def Batch_Del_def)
  qed
qed simp

lemma key_ops_effect:
  assumes "cache_ok st c" "m k = DB_Get st k" "c k = Some v"
  shows "fold op_effect (key_ops c k) m = m(k := raw st c k)"
  using cache_okD [OF assms(1,3)] assms(2,3)
  by (auto simp: key_ops_def raw_def value_ok_def fun_eq_iff)

lemma commit_effect:
  "cache_ok st c \<Longrightarrow> distinct ks \<Longrightarrow> set ks \<subseteq> dom c \<Longrightarrow> \<forall>k \<in> set ks. m k = DB_Get st k \<Longrightarrow>
   fold op_effect (concat (map (key_ops c) ks)) m = (\<lambda>k. if k \<in> set ks then raw st c k else m k)"
proof (induction ks arbitrary: m)
  case (Cons k ks)
  then obtain v where v: "c k = Some v" by auto
  have "fold op_effect (key_ops c k) m = m(k := raw st c k)" using Cons.prems v by (intro key_ops_effect) auto
  then show ?case using Cons by (auto simp: fun_eq_iff)
qed simp

lemma raw_outside: "c k = None \<Longrightarrow> raw st c k = DB_Get st k"
  by (simp add: raw_def)

lemma commit_write:
  assumes ord: "range_order order" and ok: "db_ok w s"
  shows "DB_Get (DB_Write (w_store w) (fst (Database_Commit order w s []))) = raw (w_store w) (the_cache w s)"
proof -
  let ?c = "the_cache w s"
  have o: "distinct (order ?c)" "set (order ?c) = dom ?c" using ord ok by (auto simp: range_order_def db_ok_def cache_ok_def)
  have "fst (Database_Commit order w s []) = concat (map (key_ops ?c) (order ?c))"
    by (simp add: Database_Commit_def cacheDB_commit_def commit_fold)
  then show ?thesis
    using commit_effect [of "w_store w" ?c "order ?c" "DB_Get (w_store w)"] o ok
    by (auto simp: DB_Get_Write db_ok_def fun_eq_iff raw_outside domIff)
qed

lemma effect_dels: "fold op_effect (map BatchDel ks) m = (\<lambda>k. if k \<in> set ks then None else m k)"
  by (induction ks arbitrary: m) (auto simp: fun_eq_iff)

lemma effect_sets:
  assumes "\<And>kv. kv \<in> set kvs \<Longrightarrow> f (kv_Key kv) = Some (kv_Value kv)"
  shows "fold op_effect (map (\<lambda>kv. BatchSet (kv_Key kv) (kv_Value kv)) kvs) m
     = (\<lambda>k. if k \<in> kv_Key ` set kvs then f k else m k)"
  using assms by (induction kvs arbitrary: m) (auto simp: fun_eq_iff)

lemma RevertDiff_eq:
  "Database_RevertDiff b d = b @ map BatchDel (df_Added d)
     @ map (\<lambda>kv. BatchSet (kv_Key kv) (kv_Value kv)) (df_Deleted d)
     @ map (\<lambda>kv. BatchSet (kv_Key kv) (kv_Value kv)) (df_Updated d)"
proof -
  have "fold (\<lambda>a b. Batch_Del b a) ks b = b @ map BatchDel ks" for ks b
    by (induction ks arbitrary: b) (auto simp: Batch_Del_def)
  moreover have "fold (\<lambda>kv b. Batch_Set b (kv_Key kv) (kv_Value kv)) kvs b
      = b @ map (\<lambda>kv. BatchSet (kv_Key kv) (kv_Value kv)) kvs" for b and kvs :: "KV list"
    by (induction kvs arbitrary: b) (auto simp: Batch_Set_def)
  ultimately show ?thesis by (simp add: Database_RevertDiff_def Let_def)
qed

lemma init_pair_stored:
  assumes "cache_ok st c" "is_deleted c k \<or> is_updated c k"
  shows "DB_Get st k = Some (kv_Value (init_pair c k))"
proof -
  obtain v where v: "c k = Some v" "cv_init v \<noteq> None" using assms(2) by (auto simp: is_deleted_def is_updated_def)
  then show ?thesis using cache_okD [OF assms(1) v(1)] by (auto simp: init_pair_def value_ok_def)
qed

lemma unchanged_stored:
  assumes "cache_ok st c" "\<not> is_added c k" "\<not> is_deleted c k" "\<not> is_updated c k"
  shows "raw st c k = DB_Get st k"
proof (cases "c k")
  case (Some v)
  then show ?thesis using cache_okD [OF assms(1) Some] assms(2-4)
    by (auto simp: raw_def value_ok_def is_added_def is_deleted_def is_updated_def)
qed (simp add: raw_def)

lemma added_not_stored: "cache_ok st c \<Longrightarrow> is_added c k \<Longrightarrow> DB_Get st k = None"
  by (auto simp: is_added_def value_ok_def dest: cache_okD)

lemma revert_commit:
  assumes ord: "range_order order" and ok: "db_ok w s"
    and commit: "Database_Commit order w s [] = (batch, diff)"
  shows "DB_Write (DB_Write (w_store w) batch) (Database_RevertDiff [] diff) = w_store w"
proof (rule store_eqI)
  let ?c = "the_cache w s" and ?st = "w_store w"
  let ?pair = "\<lambda>kv. BatchSet (kv_Key kv) (kv_Value kv)"
  have c: "cache_ok ?st ?c" and st: "store_ok ?st" and o: "set (order ?c) = dom ?c"
    using ord ok by (auto simp: range_order_def db_ok_def cache_ok_def)
  have d: "diff = Diff_zero\<lparr>df_Added := filter (is_added ?c) (order ?c),
      df_Updated := map (init_pair ?c) (filter (is_updated ?c) (order ?c)),
      df_Deleted := map (init_pair ?c) (filter (is_deleted ?c) (order ?c))\<rparr>"
    using commit by (simp add: Database_Commit_def cacheDB_commit_def commit_fold Diff_zero_def)
  have sets: "fold op_effect (map ?pair (map (init_pair ?c) (filter P (order ?c)))) m
      = (\<lambda>k. if k \<in> set (order ?c) \<and> P k then DB_Get ?st k else m k)"
    if "\<And>k. P k \<Longrightarrow> is_deleted ?c k \<or> is_updated ?c k" for P m
    using that init_pair_stored [OF c] 
    by (subst effect_sets [where f = "DB_Get ?st"]) (auto simp: init_pair_def fun_eq_iff image_iff)
  have is_upd: "is_updated ?c k \<Longrightarrow> is_deleted ?c k \<or> is_updated ?c k" for k by (rule disjI2)
  have is_del: "is_deleted ?c k \<Longrightarrow> is_deleted ?c k \<or> is_updated ?c k" for k by (rule disjI1)
  have dom: "k \<in> set (order ?c)" if "is_added ?c k \<or> is_deleted ?c k \<or> is_updated ?c k" for k
    using that o by (auto simp: is_added_def is_deleted_def is_updated_def)
  have "DB_Get (DB_Write ?st batch) = raw ?st ?c" using commit_write [OF ord ok] commit by simp
  then have "DB_Get (DB_Write (DB_Write ?st batch) (Database_RevertDiff [] diff)) =
      fold op_effect (map ?pair (map (init_pair ?c) (filter (is_updated ?c) (order ?c))))
        (fold op_effect (map ?pair (map (init_pair ?c) (filter (is_deleted ?c) (order ?c))))
          (fold op_effect (map BatchDel (filter (is_added ?c) (order ?c))) (raw ?st ?c)))"
    using st by (simp add: DB_Get_Write [OF store_ok_Write] RevertDiff_eq d Diff_zero_def)
  also have "\<dots> = (\<lambda>k. if k \<in> set (order ?c) \<and> is_updated ?c k then DB_Get ?st k
      else if k \<in> set (order ?c) \<and> is_deleted ?c k then DB_Get ?st k
      else if k \<in> set (order ?c) \<and> is_added ?c k then None else raw ?st ?c k)"
    by (simp only: sets [of "is_updated ?c", OF is_upd] sets [of "is_deleted ?c", OF is_del] effect_dels
        set_filter mem_Collect_eq)
  also have "\<dots> = DB_Get ?st"
  proof (rule ext, goal_cases)
    case (1 k)
    show ?case using dom [of k] unchanged_stored [OF c, of k] added_not_stored [OF c, of k]
      by (cases "is_updated ?c k"; cases "is_deleted ?c k"; cases "is_added ?c k") simp_all
  qed
  finally show "DB_Get (DB_Write (DB_Write ?st batch) (Database_RevertDiff [] diff)) = DB_Get ?st" .
  show "store_ok ?st" "store_ok (DB_Write (DB_Write ?st batch) (Database_RevertDiff [] diff))" using st by simp_all
qed

text \<open>
  C9: reverting the diff of a commit puts the store back exactly as it was before the commit,
  whatever was set, changed and deleted in between and in whatever order the cache is traversed.
\<close>

theorem revert_restores_store:
  assumes "range_order order" "db_ok w s" "Database_Commit order w s [] = (batch, diff)"
  shows "DB_Write (DB_Write (w_store w) batch) (Database_RevertDiff [] diff) = w_store w"
  by (rule revert_commit [OF assms])

section \<open>Working through the cache\<close>

fun db_run :: "Database \<Rightarrow> kv_op list \<Rightarrow> world \<Rightarrow> ('e, world) outcome" where
  "db_run s [] w = Return w"
| "db_run s (Put k v # ops) w = obind (Database_Set w s k v) (db_run s ops)"
| "db_run s (Remove k # ops) w = db_run s ops (Database_Del w s k)"

fun store_run :: "bytes \<Rightarrow> kv_op list \<Rightarrow> store \<Rightarrow> store" where
  "store_run pre [] st = st"
| "store_run pre (Put k v # ops) st = store_run pre ops (DB_Set st (pre @ k) v)"
| "store_run pre (Remove k # ops) st = store_run pre ops (DB_Del st (pre @ k))"

lemma db_run_view:
  assumes "db_ok w s" "store_ok st" "DB_Get st = raw (w_store w) (the_cache w s)"
  shows "\<exists>w'. (db_run s ops w :: ('e, world) outcome) = Return w' \<and> db_ok w' s \<and> w_store w' = w_store w
    \<and> DB_Get (store_run (d_prefix s) ops st) = raw (w_store w') (the_cache w' s)"
  using assms
proof (induction ops arbitrary: w st)
  case (Cons op ops)
  show ?case
  proof (cases op)
    case (Put k v)
    obtain w1 where w1: "(Database_Set w s k v :: ('e, world) outcome) = Return w1" "after_set w s k v w1"
      using Database_Set_view [OF Cons.prems(1), of k v] by blast
    then show ?thesis
      using Cons.IH [of w1 "DB_Set st (d_prefix s @ k) v"] Cons.prems Put
      by (auto simp: after_set_def)
  next
    case (Remove k)
    then show ?thesis
      using Cons.IH [of "Database_Del w s k" "DB_Del st (d_prefix s @ k)"] Cons.prems
        Database_Del_view [OF Cons.prems(1), of k] by auto
  qed
qed auto

lemma store_ok_run [simp]: "store_ok st \<Longrightarrow> store_ok (store_run pre ops st)"
  by (induction pre ops st rule: store_run.induct) auto

lemma New_ok:
  assumes "store_ok (w_store w0)" "Database_New w0 pre = (w, s)"
  shows "db_ok w s \<and> w_store w = w_store w0 \<and> d_prefix s = pre
    \<and> raw (w_store w) (the_cache w s) = DB_Get (w_store w0)"
  using assms by (auto simp: Database_New_def db_ok_def cache_ok_def newCacheDB_def raw_def fun_eq_iff)

text \<open>
  C8: setting and deleting keys through a new database and writing its commit leaves the store in the
  same state as making the same changes directly in the store.
\<close>

theorem commit_equals_direct:
  assumes ord: "range_order order" and st: "store_ok (w_store w0)"
    and new: "Database_New w0 pre = (w, s)"
  shows "\<exists>w'. (db_run s ops w :: ('e, world) outcome) = Return w'
    \<and> DB_Write (w_store w') (fst (Database_Commit order w' s [])) = store_run pre ops (w_store w0)"
proof -
  have n: "db_ok w s" "w_store w = w_store w0" "d_prefix s = pre"
    "DB_Get (w_store w0) = raw (w_store w) (the_cache w s)"
    using New_ok [OF st new] by auto
  obtain w' where w': "(db_run s ops w :: ('e, world) outcome) = Return w'" "db_ok w' s" "w_store w' = w_store w"
    "DB_Get (store_run pre ops (w_store w0)) = raw (w_store w') (the_cache w' s)"
    using db_run_view [OF n(1) st n(4), where ?'e = 'e, of ops] n(3) by blast
  have "DB_Write (w_store w') (fst (Database_Commit order w' s [])) = store_run pre ops (w_store w0)"
    using commit_write [OF ord w'(2)] w' n st by (intro store_eqI) simp_all
  then show ?thesis using w'(1) by blast
qed

text \<open>One order in which a map can be traversed.\<close>

definition key_order :: "cacheDB \<Rightarrow> bytes list" where
  "key_order c = sorted_list_of_set (dom c)"

lemma range_order_key_order: "range_order key_order"
  by (simp add: range_order_def key_order_def)

definition sample_world :: world where
  "sample_world = \<lparr>w_store = [([1, 1], [5]), ([1, 2], [6])], w_caches = []\<rparr>"

lemma sample_world_ok: "store_ok (w_store sample_world)"
  by (simp add: sample_world_def store_ok_def)

definition sample_ops :: "kv_op list" where
  "sample_ops = [Put [1] [7], Remove [2], Put [3] [8]]"

theorem commit_equals_direct_witness:
  "\<exists>w'. (db_run (snd (Database_New sample_world [1])) sample_ops (fst (Database_New sample_world [1])) :: (unit, world) outcome)
        = Return w'
    \<and> DB_Write (w_store w') (fst (Database_Commit key_order w' (snd (Database_New sample_world [1])) []))
      = [([1, 1], [7]), ([1, 3], [8])]"
proof -
  have "store_run [1] sample_ops (w_store sample_world) = [([1, 1], [7]), ([1, 3], [8])]" by code_simp
  moreover have "Database_New sample_world [1] = (fst (Database_New sample_world [1]), snd (Database_New sample_world [1]))"
    by simp
  ultimately show ?thesis
    using commit_equals_direct [OF range_order_key_order sample_world_ok, where ?'e = unit, of "[1]"] by metis
qed

theorem revert_restores_store_witness:
  "\<exists>w' batch diff. (db_run (snd (Database_New sample_world [1])) sample_ops (fst (Database_New sample_world [1])) :: (unit, world) outcome)
        = Return w'
    \<and> Database_Commit key_order w' (snd (Database_New sample_world [1])) [] = (batch, diff)
    \<and> DB_Write (DB_Write (w_store w') batch) (Database_RevertDiff [] diff) = [([1, 1], [5]), ([1, 2], [6])]"
proof -
  let ?w = "fst (Database_New sample_world [1])" and ?s = "snd (Database_New sample_world [1])"
  have n: "db_ok ?w ?s" "w_store ?w = w_store sample_world" "DB_Get (w_store sample_world) = raw (w_store ?w) (the_cache ?w ?s)"
    using New_ok [OF sample_world_ok, of "[1]" ?w ?s] by auto
  obtain w' where w': "(db_run ?s sample_ops ?w :: (unit, world) outcome) = Return w'" "db_ok w' ?s"
    "w_store w' = w_store sample_world"
    using db_run_view [OF n(1) sample_world_ok n(3), where ?'e = unit, of sample_ops] n(2) by auto
  obtain batch diff where "Database_Commit key_order w' ?s [] = (batch, diff)" by fastforce
  then show ?thesis
    using revert_restores_store [OF range_order_key_order w'(2)] w'(1,3) by (simp add: sample_world_def)
qed

section \<open>Ranges\<close>

lemma between_prefix:
  fixes p :: bytes
  assumes "p @ a \<le> k" "k \<le> p @ b"
  shows "\<exists>k'. k = p @ k' \<and> a \<le> k' \<and> k' \<le> b"
  using assms
proof (induction p arbitrary: k)
  case (Cons x p)
  then show ?case by (cases k) (auto dest: Cons.IH)
qed auto

lemma append_le_iff [simp]: "p @ a \<le> p @ b \<longleftrightarrow> a \<le> b" for p :: bytes
  by (induction p) auto

definition shown :: "cacheDB \<Rightarrow> bytes \<Rightarrow> bool" where
  "shown c k \<longleftrightarrow> (\<exists>v. c k = Some v \<and> \<not> cv_deleted v)"

lemma shown_raw:
  "shown c k \<longleftrightarrow> c k \<noteq> None \<and> raw st c k \<noteq> None"
  "shown c k \<Longrightarrow> raw st c k = Some (cv_value (the (c k)))"
  by (auto simp: shown_def raw_def)

lemma collect_eq:
  assumes "\<And>k. k \<in> set ks \<Longrightarrow> P k \<Longrightarrow> n \<le> length k"
  shows "cacheDB_collect c P n ks =
    Return (map (\<lambda>k. (drop n k, cv_value (the (c k)))) (filter (\<lambda>k. shown c k \<and> P k) ks))"
  using assms
proof (induction ks)
  case (Cons k ks)
  then show ?case by (cases "c k") (auto simp: shown_def)
qed simp

text \<open>A later world with more keys in the cache, and nothing else that can be seen.\<close>

definition warmer :: "Database \<Rightarrow> world \<Rightarrow> world \<Rightarrow> bool" where
  "warmer s w w' \<longleftrightarrow>
     db_ok w' s \<and> w_store w' = w_store w
     \<and> raw (w_store w) (the_cache w' s) = raw (w_store w) (the_cache w s)
     \<and> dom (the_cache w s) \<subseteq> dom (the_cache w' s)"

lemma warmer_refl: "db_ok w s \<Longrightarrow> warmer s w w"
  by (simp add: warmer_def)

lemma warmer_trans: "warmer s w w1 \<Longrightarrow> warmer s w1 w2 \<Longrightarrow> warmer s w w2"
  by (auto simp: warmer_def)

lemma warmer_cache:
  assumes "db_ok w s" "the_cache w s key = None" "DB_Get (w_store w) key = Some val"
  shows "warmer s w (put_cache w s (cacheDB_cache (the_cache w s) key val))
    \<and> key \<in> dom (the_cache (put_cache w s (cacheDB_cache (the_cache w s) key val)) s)"
  using assms cacheDB_cache_ok [of "w_store w" "the_cache w s" key val]
  by (auto simp: warmer_def db_ok_def cacheDB_cache_def)

lemma stored_loop_spec:
  assumes "db_ok w s" "\<And>key val. (key, val) \<in> set kv \<Longrightarrow> DB_Get (w_store w) key = Some val"
    "stored_loop w s kv acc = (sv, w')"
  shows "warmer s w w' \<and> fst ` set kv \<subseteq> dom (the_cache w' s)
    \<and> fst ` set sv \<subseteq> fst ` set acc \<union> drop (length (d_prefix s)) ` {k \<in> fst ` set kv. k \<in> dom (raw (w_store w) (the_cache w s))}"
  using assms
proof (induction kv arbitrary: w acc)
  case Nil
  then show ?case by (auto simp: warmer_refl)
next
  case (Cons x kv)
  let ?n = "length (d_prefix s)"
  obtain key val where x: "x = (key, val)" by (cases x)
  have st: "DB_Get (w_store w) key = Some val" using Cons.prems(2) x by simp
  define w1 where "w1 = (if the_cache w s key = None then put_cache w s (cacheDB_cache (the_cache w s) key val) else w)"
  have w1: "warmer s w w1" "key \<in> dom (the_cache w1 s)"
    using warmer_cache [OF Cons.prems(1) _ st] warmer_refl [OF Cons.prems(1)] by (auto simp: w1_def)
  then have 1: "db_ok w1 s" "w_store w1 = w_store w" "raw (w_store w) (the_cache w1 s) = raw (w_store w) (the_cache w s)"
    by (simp_all add: warmer_def)
  have kv: "\<And>k v. (k, v) \<in> set kv \<Longrightarrow> DB_Get (w_store w1) k = Some v" using Cons.prems(2) 1(2) by simp
  obtain acc' where loop: "stored_loop w1 s kv acc' = (sv, w')"
    and acc': "fst ` set acc' \<subseteq> fst ` set acc \<union> drop ?n ` {k. k = key \<and> k \<in> dom (raw (w_store w) (the_cache w s))}"
  proof (cases "the_cache w s key")
    case None
    have "stored_loop w1 s kv (acc @ [(drop ?n key, [])]) = (sv, w')"
      using Cons.prems(3) None x by (simp add: cacheDB_get_def w1_def)
    then show thesis by (rule that) (use None st in \<open>auto simp: raw_def dom_def\<close>)
  next
    case (Some v)
    then have "stored_loop w1 s kv (if cv_deleted v then acc else acc @ [(drop ?n key, cv_value v)]) = (sv, w')"
      using Cons.prems(3) x by (simp add: cacheDB_get_def w1_def split: if_splits)
    then show thesis by (rule that) (use Some in \<open>auto simp: raw_def dom_def\<close>)
  qed
  note IH = Cons.IH [OF 1(1) kv loop]
  have "warmer s w w'" using IH warmer_trans [OF w1(1)] by blast
  moreover have "key \<in> dom (the_cache w' s)" using IH w1(2) by (auto simp: warmer_def)
  moreover have "fst ` set sv \<subseteq> fst ` set acc' \<union> drop ?n ` {k \<in> fst ` set kv. k \<in> dom (raw (w_store w) (the_cache w s))}"
    using IH 1 by simp
  then have "fst ` set sv \<subseteq> fst ` set acc \<union> drop ?n ` {k \<in> fst ` set (x # kv). k \<in> dom (raw (w_store w) (the_cache w s))}"
    by (rule subset_trans) (use acc' x in auto)
  ultimately show ?case using IH x by simp
qed

lemma mergeSortLimit_cached:
  assumes "distinct (map fst cached)" "fst ` set stored \<subseteq> fst ` set cached"
  shows "\<exists>r. mergeSortLimit cached stored reverse (-1) = (if reverse then rev r else r)
    \<and> store_ok r \<and> set r = set cached"
proof -
  let ?s = "sort_slice (\<lambda>x y. if reverse then fst x > fst y else fst x < fst y) cached"
  have "filter (\<lambda>kv. fst kv \<notin> fst ` set cached) stored = []" using assms(2) by (auto simp: filter_empty_conv)
  then have m: "mergeSortLimit cached stored reverse (-1) = ?s" by (simp add: mergeSortLimit_def)
  have d: "distinct (map fst ?s)"
  proof -
    have "mset (map fst ?s) = mset (map fst cached)" by simp
    then show ?thesis using assms(1) mset_eq_imp_distinct_iff by blast
  qed
  show ?thesis
  proof (cases reverse)
    case True
    then have "sorted (map fst (rev ?s))"
      using sorted_sort_slice_desc [of fst cached] by (simp add: rev_map)
    then have "store_ok (rev ?s)" using d by (simp add: store_ok_def strict_sorted_iff flip: rev_map)
    then show ?thesis using m True by (intro exI [of _ "rev ?s"]) simp
  next
    case False
    then have "store_ok ?s"
      using d sorted_sort_slice_asc [of fst cached] by (simp add: store_ok_def strict_sorted_iff)
    then show ?thesis using m False by (intro exI [of _ ?s]) simp
  qed
qed

lemma range_kv:
  assumes st: "store_ok st" and rev: "reverse \<Longrightarrow> upperBound e \<noteq> None
     \<and> (\<forall>k \<in> fst ` set st. prefix e k \<longrightarrow> k = e)"
  shows "set (DB_IterateRange st a e (-1) reverse) = {kv \<in> set st. a \<le> fst kv \<and> fst kv \<le> e}"
proof (cases reverse)
  case True
  then obtain u where u: "upperBound e = Some u" using rev by auto
  have iff: "fst kv < u \<longleftrightarrow> fst kv \<le> e" if "kv \<in> set st" for kv
  proof -
    have "prefix e (fst kv) \<longleftrightarrow> e \<le> fst kv \<and> fst kv < u"
      using prefix_bounds [of e "fst kv"] u by (simp add: upperBound_eq)
    moreover have "prefix e (fst kv) \<longrightarrow> fst kv = e" using rev [OF True] that by auto
    moreover have "e < u" using prefix_bounds [of e e] u by (simp add: upperBound_eq)
    ultimately show ?thesis by (cases "e \<le> fst kv") (auto simp: not_le intro: order_less_trans)
  qed
  then show ?thesis using iterateRange_backward [OF st u] True by auto
qed (use iterateRange_forward [OF st] in auto)

lemma option_eqI: "(\<And>v. x = Some v \<longleftrightarrow> y = Some v) \<Longrightarrow> x = y"
  by (cases x; cases y) auto

lemma in_range_iff:
  fixes p :: bytes
  shows "p @ a \<le> q \<and> q \<le> p @ e \<longleftrightarrow> (\<exists>k. q = p @ k \<and> a \<le> k \<and> k \<le> e)"
  using between_prefix [of p a q e] by auto

lemma dataBetween_view:
  assumes ord: "range_order order" and ok: "cache_ok st c" "store_ok st"
    and warm: "\<And>k. a \<le> k \<Longrightarrow> k \<le> e \<Longrightarrow> DB_Get st (p @ k) \<noteq> None \<Longrightarrow> c (p @ k) \<noteq> None"
  shows "\<exists>cached. (cacheDB_dataBetween order c (p @ a) (p @ e) (length p) :: ('e, store) outcome) = Return cached
    \<and> distinct (map fst cached)
    \<and> (\<forall>k v. (k, v) \<in> set cached \<longleftrightarrow> a \<le> k \<and> k \<le> e \<and> raw st c (p @ k) = Some v)"
proof -
  define ks where "ks = filter (\<lambda>k. shown c k \<and> (p @ a \<le> k \<and> k \<le> p @ e)) (order c)"
  define cached where "cached = map (\<lambda>k. (drop (length p) k, cv_value (the (c k)))) ks"
  have o: "distinct (order c)" "set (order c) = dom c" using ord ok(1) by (auto simp: range_order_def cache_ok_def)
  have ks: "set ks = {p @ k | k. a \<le> k \<and> k \<le> e \<and> shown c (p @ k)}"
    unfolding ks_def in_range_iff using o(2) by (auto simp: shown_def)
  have coll: "(cacheDB_dataBetween order c (p @ a) (p @ e) (length p) :: ('e, store) outcome) = Return cached"
    unfolding cacheDB_dataBetween_def cached_def ks_def by (rule collect_eq) (auto simp: in_range_iff)
  have "inj_on (drop (length p)) (set ks)" unfolding ks by (auto simp: inj_on_def)
  then have d: "distinct (map fst cached)"
    using o(1) by (simp add: cached_def comp_def distinct_map ks_def)
  have set_cached: "set cached = {(k, cv_value (the (c (p @ k)))) | k. a \<le> k \<and> k \<le> e \<and> shown c (p @ k)}"
    by (force simp: cached_def ks)
  have "shown c (p @ k) \<longleftrightarrow> raw st c (p @ k) \<noteq> None" if "a \<le> k" "k \<le> e" for k
    using warm [OF that] shown_raw(1) [of c "p @ k" st] by (cases "c (p @ k)"; cases "DB_Get st (p @ k)") (auto simp: raw_def)
  then have "(k, v) \<in> set cached \<longleftrightarrow> a \<le> k \<and> k \<le> e \<and> raw st c (p @ k) = Some v" for k v
    using shown_raw(2) [of c "p @ k" st] by (auto simp: set_cached)
  then show ?thesis using coll d by blast
qed

lemma range_all:
  assumes ord: "range_order order" and ok: "db_ok w s"
    and rev: "reverse \<Longrightarrow> upperBound (d_prefix s @ end') \<noteq> None
      \<and> (\<forall>k \<in> fst ` set (w_store w). prefix (d_prefix s @ end') k \<longrightarrow> k = d_prefix s @ end')"
  shows "\<exists>r w'. (Database_Range order w s start end' (-1) reverse :: ('e, store \<times> world) outcome)
      = Return (if reverse then rev r else r, w')
    \<and> store_ok r \<and> (\<forall>k. DB_Get r k = (if start \<le> k \<and> k \<le> end' then view w s k else None))
    \<and> warmer s w w'"
proof -
  let ?p = "d_prefix s" and ?st = "w_store w"
  let ?kv = "DB_IterateRange ?st (?p @ start) (?p @ end') (-1) reverse"
  have st: "store_ok ?st" using ok by (simp add: db_ok_def)
  have kv: "set ?kv = {kv \<in> set ?st. ?p @ start \<le> fst kv \<and> fst kv \<le> ?p @ end'}"
    by (rule range_kv [OF st]) (rule rev)
  obtain sv w' where loop: "stored_loop w s ?kv [] = (sv, w')" by fastforce
  have "\<And>k v. (k, v) \<in> set ?kv \<Longrightarrow> DB_Get ?st k = Some v" using kv DB_Get_iff [OF st] by simp
  note sp = stored_loop_spec [OF ok this loop]
  let ?c = "the_cache w' s"
  have w': "db_ok w' s" "w_store w' = ?st" "raw ?st ?c = raw ?st (the_cache w s)" using sp by (simp_all add: warmer_def)
  then have c: "cache_ok ?st ?c" by (simp add: db_ok_def)
  have warm: "?c (?p @ k) \<noteq> None" if k: "start \<le> k" "k \<le> end'" "DB_Get ?st (?p @ k) \<noteq> None" for k
  proof -
    obtain v where "(?p @ k, v) \<in> set ?kv" using k kv DB_Get_iff [OF st] by auto
    then have "?p @ k \<in> fst ` set ?kv" by force
    then show ?thesis using sp by blast
  qed
  obtain cached where cd: "(cacheDB_dataBetween order ?c (?p @ start) (?p @ end') (length ?p) :: ('e, store) outcome) = Return cached"
    "distinct (map fst cached)"
    "\<And>k v. (k, v) \<in> set cached \<longleftrightarrow> start \<le> k \<and> k \<le> end' \<and> raw ?st (the_cache w s) (?p @ k) = Some v"
    using dataBetween_view [OF ord c st, of start end' ?p, where ?'e = 'e] warm w'(3) by auto
  have "fst ` set sv \<subseteq> fst ` set cached"
  proof
    fix k assume "k \<in> fst ` set sv"
    moreover have "fst ` set sv \<subseteq> drop (length ?p) ` {k \<in> fst ` set ?kv. k \<in> dom (raw ?st (the_cache w s))}"
      using sp by simp
    ultimately obtain q where q: "k = drop (length ?p) q" "q \<in> fst ` set ?kv" "q \<in> dom (raw ?st (the_cache w s))"
      by blast
    then obtain v where "q = ?p @ k" "start \<le> k" "k \<le> end'" "raw ?st (the_cache w s) q = Some v"
      using kv in_range_iff [of ?p start q end'] by auto
    then show "k \<in> fst ` set cached" using cd(3) by force
  qed
  then obtain r where r: "mergeSortLimit cached sv reverse (-1) = (if reverse then rev r else r)" "store_ok r" "set r = set cached"
    using mergeSortLimit_cached [OF cd(2)] by blast
  have "DB_Get r k = (if start \<le> k \<and> k \<le> end' then view w s k else None)" for k
    by (rule option_eqI) (auto simp: DB_Get_iff [OF r(2)] r(3) cd(3) view_def)
  moreover have "warmer s w w'" using sp by blast
  ultimately show ?thesis using r(1,2) cd(1) loop by (auto simp: Database_Range_def)
qed

lemma warmer_view: "warmer s w w' \<Longrightarrow> db_ok w' s \<and> view w' s = view w s"
  by (simp add: warmer_def view_fun)


definition range_world :: "world \<times> Database" where
  "range_world = Database_New \<lparr>w_store = [([1, 1], [5]), ([1, 2], [6]), ([2], [7])], w_caches = []\<rparr> [1]"


text \<open>
  The highest key of a range, as \<^verbatim>\<open>Range\<close> with limit 1 backwards finds it.  The limit is applied to the
  store before the cache is looked at, so the highest stored key must not be deleted in the cache.
\<close>

lemma limit_one: "limit_loop 1 0 xs = take 1 xs"
  by (cases xs) simp_all

lemma dataBetween_cached:
  assumes ord: "range_order order" and ok: "cache_ok st c"
  shows "\<exists>cached. (cacheDB_dataBetween order c (p @ a) (p @ e) (length p) :: ('e, store) outcome) = Return cached
    \<and> (\<forall>k v. (k, v) \<in> set cached \<longleftrightarrow> a \<le> k \<and> k \<le> e \<and> c (p @ k) \<noteq> None \<and> raw st c (p @ k) = Some v)"
proof -
  define ks where "ks = filter (\<lambda>k. shown c k \<and> (p @ a \<le> k \<and> k \<le> p @ e)) (order c)"
  define cached where "cached = map (\<lambda>k. (drop (length p) k, cv_value (the (c k)))) ks"
  have o: "set (order c) = dom c" using ord ok by (auto simp: range_order_def cache_ok_def)
  have ks: "set ks = {p @ k | k. a \<le> k \<and> k \<le> e \<and> shown c (p @ k)}"
    unfolding ks_def in_range_iff using o by (auto simp: shown_def)
  have coll: "(cacheDB_dataBetween order c (p @ a) (p @ e) (length p) :: ('e, store) outcome) = Return cached"
    unfolding cacheDB_dataBetween_def cached_def ks_def by (rule collect_eq) (auto simp: in_range_iff)
  have set_cached: "set cached = {(k, cv_value (the (c (p @ k)))) | k. a \<le> k \<and> k \<le> e \<and> shown c (p @ k)}"
    by (force simp: cached_def ks)
  have "(k, v) \<in> set cached \<longleftrightarrow> a \<le> k \<and> k \<le> e \<and> c (p @ k) \<noteq> None \<and> raw st c (p @ k) = Some v" for k v
    by (cases "c (p @ k)") (auto simp: set_cached shown_def raw_def)
  then show ?thesis using coll by blast
qed

definition highest :: "(bytes \<rightharpoonup> bytes) \<Rightarrow> bytes \<Rightarrow> bytes \<Rightarrow> store \<Rightarrow> bool" where
  "highest m a e kv \<longleftrightarrow>
     kv = [] \<and> (\<forall>k. a \<le> k \<and> k \<le> e \<longrightarrow> m k = None)
     \<or> (\<exists>k v. kv = [(k, v)] \<and> a \<le> k \<and> k \<le> e \<and> m k = Some v \<and> (\<forall>k'. k < k' \<and> k' \<le> e \<longrightarrow> m k' = None))"

lemma merge_one:
  assumes "fst ` set stored \<subseteq> fst ` set cached"
  shows "mergeSortLimit cached stored True 1 = [] \<and> cached = []
    \<or> (\<exists>x. mergeSortLimit cached stored True 1 = [x] \<and> x \<in> set cached \<and> (\<forall>y \<in> set cached. fst y \<le> fst x))"
proof -
  let ?s = "sort_slice (\<lambda>x y. fst x > fst y) cached"
  have "filter (\<lambda>kv. fst kv \<notin> fst ` set cached) stored = []" using assms by (auto simp: filter_empty_conv)
  then have m: "mergeSortLimit cached stored True 1 = take 1 ?s" by (auto simp: mergeSortLimit_def Let_def)
  show ?thesis
  proof (cases ?s)
    case Nil
    then show ?thesis using m by simp
  next
    case (Cons x xs)
    then have "x \<in> set cached" by (metis list.set_intros(1) set_sort_slice)
    moreover have "\<forall>y \<in> set cached. fst y \<le> fst x"
      using desc.head_least [OF Cons] by (simp add: not_less)
    ultimately show ?thesis using m Cons by simp
  qed
qed

lemma range_all_top:
  assumes st: "store_ok st" and e: "upperBound e \<noteq> None" and k: "k \<in> fst ` set (DB_IterateRange st a e (-1) True)"
  shows "\<exists>x. take 1 (DB_IterateRange st a e (-1) True) = [x] \<and> (\<forall>y \<in> set (DB_IterateRange st a e (-1) True). fst y \<le> fst x)"
proof -
  obtain u where u: "upperBound e = Some u" using e by auto
  let ?f = "filter (\<lambda>kv. a \<le> fst kv \<and> fst kv < u) st"
  have all: "DB_IterateRange st a e (-1) True = rev ?f" using iterateRange_backward [OF st u] by simp
  have "?f \<noteq> []" using k unfolding all by (cases "?f = []") (simp_all only: rev.simps list.set image_empty empty_iff simp_thms)
  then obtain ys x where f: "?f = ys @ [x]" by (cases ?f rule: rev_cases) blast+
  have "store_ok ?f" by (rule store_ok_filter [OF st])
  then have "\<forall>y \<in> set ?f. fst y \<le> fst x" unfolding f store_ok_def by (auto simp: sorted_wrt_append)
  then show ?thesis unfolding all f by simp
qed

lemma range_highest:
  assumes ord: "range_order order" and ok: "db_ok w s"
    and e: "upperBound (d_prefix s @ e) \<noteq> None"
      "\<forall>k \<in> fst ` set (w_store w). prefix (d_prefix s @ e) k \<longrightarrow> k = d_prefix s @ e"
    and top: "\<And>q. q \<in> fst ` set (w_store w) \<Longrightarrow> d_prefix s @ a \<le> q \<Longrightarrow> q \<le> d_prefix s @ e \<Longrightarrow>
      (\<forall>q' \<in> fst ` set (w_store w). q' \<le> d_prefix s @ e \<longrightarrow> q' \<le> q) \<Longrightarrow> raw (w_store w) (the_cache w s) q \<noteq> None"
  shows "\<exists>kv w'. (Database_Range order w s a e 1 True :: ('e, store \<times> world) outcome) = Return (kv, w')
    \<and> warmer s w w' \<and> highest (view w s) a e kv"
proof -
  let ?p = "d_prefix s" and ?st = "w_store w"
  let ?all = "DB_IterateRange ?st (?p @ a) (?p @ e) (-1) True" and ?kv = "DB_IterateRange ?st (?p @ a) (?p @ e) 1 True"
  have st: "store_ok ?st" using ok by (simp add: db_ok_def)
  have one: "?kv = take 1 ?all" by (simp add: DB_IterateRange_def iterateRange_def limit_one)
  have all: "set ?all = {kv \<in> set ?st. ?p @ a \<le> fst kv \<and> fst kv \<le> ?p @ e}"
    by (rule range_kv [OF st]) (use e in blast)
  obtain sv w' where loop: "stored_loop w s ?kv [] = (sv, w')" by fastforce
  have kv: "set ?kv \<subseteq> set ?all" using one set_take_subset [of 1 ?all] by simp
  then have "\<And>k v. (k, v) \<in> set ?kv \<Longrightarrow> DB_Get ?st k = Some v" using all DB_Get_iff [OF st] by auto
  note sp = stored_loop_spec [OF ok this loop]
  let ?c = "the_cache w' s" and ?r = "raw ?st (the_cache w s)"
  have w': "warmer s w w'" "cache_ok ?st ?c" "raw ?st ?c = ?r" using sp by (auto simp: warmer_def db_ok_def)
  obtain cached where cd: "(cacheDB_dataBetween order ?c (?p @ a) (?p @ e) (length ?p) :: ('e, store) outcome) = Return cached"
    "\<And>k v. (k, v) \<in> set cached \<longleftrightarrow> a \<le> k \<and> k \<le> e \<and> ?c (?p @ k) \<noteq> None \<and> ?r (?p @ k) = Some v"
    using dataBetween_cached [OF ord w'(2), of ?p a e, where ?'e = 'e] w'(3) by auto
  have in_kv: "\<exists>k. q = ?p @ k \<and> a \<le> k \<and> k \<le> e" if "q \<in> fst ` set ?kv" for q
    using that kv all in_range_iff [of ?p a q e] by auto
  have warm: "k \<in> fst ` set cached" if k: "?p @ k \<in> fst ` set ?kv" "?r (?p @ k) \<noteq> None" for k
  proof -
    have "?c (?p @ k) \<noteq> None" using sp k(1) by (metis (no_types, lifting) conjunct1 conjunct2 domIff subsetD)
    moreover have "a \<le> k \<and> k \<le> e" using in_kv [OF k(1)] by simp
    ultimately have "(k, the (?r (?p @ k))) \<in> set cached" using cd(2) k(2) by auto
    then show ?thesis by force
  qed
  have sv: "fst ` set sv \<subseteq> fst ` set cached"
  proof
    fix k assume "k \<in> fst ` set sv"
    moreover have "fst ` set sv \<subseteq> drop (length ?p) ` {k \<in> fst ` set ?kv. k \<in> dom ?r}" using sp by simp
    ultimately obtain q where q: "k = drop (length ?p) q" "q \<in> fst ` set ?kv" "?r q \<noteq> None" by blast
    have "q = ?p @ k" using in_kv [OF q(2)] q(1) by auto
    then show "k \<in> fst ` set cached" using warm [of k] q(2,3) by (simp only: simp_thms)
  qed
  have above: "\<exists>k' \<in> fst ` set cached. k \<le> k'" if k: "a \<le> k" "k \<le> e" "view w s k = Some v" for k v
  proof (cases "?c (?p @ k)")
    case None
    then have "raw ?st ?c (?p @ k) = DB_Get ?st (?p @ k)" by (rule raw_outside)
    then have "DB_Get ?st (?p @ k) = Some v" using k(3) w'(3) by (simp add: view_def)
    then have k_all: "(?p @ k, v) \<in> set ?all" using all k DB_Get_iff [OF st] by simp
    then obtain x where x: "?kv = [x]" "\<forall>y \<in> set ?all. fst y \<le> fst x"
      using range_all_top [OF st e(1), of "?p @ k" "?p @ a"] one by force
    then have "x \<in> set ?all" using kv by simp
    then have "?r (fst x) \<noteq> None" using top [of "fst x"] x(2) all by force
    moreover obtain k' where "fst x = ?p @ k'" using in_kv [of "fst x"] x(1) by auto
    moreover have "?p @ k \<le> fst x" using x(2) k_all by force
    ultimately have "k' \<in> fst ` set cached" "k \<le> k'" using warm [of k'] x(1) by simp_all
    then show ?thesis by blast
  next
    case (Some cv)
    then have "(k, v) \<in> set cached" using cd(2) k by (simp add: view_def)
    then show ?thesis by force
  qed
  have "highest (view w s) a e (mergeSortLimit cached sv True 1)"
    using merge_one [OF sv]
  proof (elim disjE exE conjE)
    assume "mergeSortLimit cached sv True 1 = []" "cached = []"
    then show ?thesis using above unfolding highest_def by (metis empty_iff image_empty list.set(1) not_Some_eq)
  next
    fix x assume x: "mergeSortLimit cached sv True 1 = [x]" "x \<in> set cached" "\<forall>y \<in> set cached. fst y \<le> fst x"
    have "view w s k' = None" if k': "fst x < k'" "k' \<le> e" for k'
      using above [of k'] x(2,3) k' cd(2) [of "fst x" "snd x"] by force
    then show ?thesis unfolding highest_def using x cd(2) [of "fst x" "snd x"]
      by (intro disjI2 exI [of _ "fst x"] exI [of _ "snd x"]) (simp add: view_def)
  qed
  then show ?thesis using w'(1) cd(1) loop by (auto simp: Database_Range_def)
qed

section \<open>Snapshots and iteration\<close>

lemma Database_Del_frame:
  "length (w_caches (Database_Del w s key)) = length (w_caches w)
   \<and> (\<forall>i. i \<noteq> d_cache s \<longrightarrow> w_caches (Database_Del w s key) ! i = w_caches w ! i)"
  by (auto simp: Database_Del_def ensureCache_def put_cache_def Let_def split: option.splits)

lemma db_run_frame:
  assumes "db_ok w s" "(db_run s ops w :: ('e, world) outcome) = Return w'"
  shows "w_store w' = w_store w \<and> (\<forall>i. i \<noteq> d_cache s \<longrightarrow> w_caches w' ! i = w_caches w ! i)"
  using assms
proof (induction ops arbitrary: w)
  case (Cons op ops)
  show ?case
  proof (cases op)
    case (Put k v)
    obtain w1 where w1: "(Database_Set w s k v :: ('e, world) outcome) = Return w1" "after_set w s k v w1"
      using Database_Set_view [OF Cons.prems(1), of k v] by blast
    then show ?thesis using Cons.IH [of w1] Cons.prems(2) Put by (auto simp: after_set_def)
  next
    case (Remove k)
    then show ?thesis
      using Cons.IH [of "Database_Del w s k"] Cons.prems Database_Del_view [OF Cons.prems(1), of k]
        Database_Del_frame [of w s k] by auto
  qed
qed simp



text \<open>
  With a prefix, iteration looks for cached keys under the wrong prefix: a stored pair that
  is not cached yet comes back without its value.
\<close>

lemma iterate_loses_value:
  "\<exists>w'. (Database_Iterate key_order (fst range_world) (snd range_world) [2] (-1) False :: (unit, _) outcome)
     = Return ([([2], [])], w') \<and> view (fst range_world) (snd range_world) [2] = Some [6]"
proof -
  have "DB_Iterate [([1, 1], [5]), ([1, 2], [6]), ([2], [7])] [1, 2] (-1) False = [([1, 2], [6])]" by code_simp
  then show ?thesis
    by (simp add: Database_Iterate_def range_world_def Database_New_def newCacheDB_def cacheDB_get_def put_cache_def
        cacheDB_cache_def cacheDB_withPrefix_def key_order_def mergeSortLimit_def sort_slice_def
        view_def raw_def DB_Get_def)
qed

text \<open>A missing key is an error also where a default is asked for.\<close>

lemma GetDecodableOrDefault_missing:
  "view w s key = None \<Longrightarrow> db_ok w s \<Longrightarrow>
   fst (GetDecodableOrDefault decode w s key dflt) = Error Err_key_missing"
  using Database_Get_view [of w s key]
  by (auto simp: GetDecodableOrDefault_def GetDecodable_def is_ErrNotFound_def split: prod.splits)

end
