(* ===== verification/Liskbft.thy ===== *)
theory Liskbft
  imports Consensus_Rules Diffdb
begin

text \<open>
  The voting state of the consensus protocol (\<^verbatim>\<open>pkg/consensus/liskbft\<close>): the weights of the prevotes
  and precommits that block headers imply, the heights they justify, and the parameters of the
  validators, all kept in the state database under the prefixes of the module.
\<close>

section \<open>Calls that read and change the database\<close>

text \<open>
  An operation takes the database as it is and returns the database it leaves behind, also where
  it fails; a read fills the cache of the database.
\<close>

datatype bft_error =
    Err_diffdb diffdb_error
  | Err_bft_decode codec_error
  | ErrBFTParamsNotFound
  | ErrGeneratorKeysNotFound
  | ErrNotFound
  | Err_params_should_exist
  | Err_validator_not_in_params
  | Err_validators_size
  | Err_bft_weight
  | Err_precommit_threshold
  | Err_certificate_threshold
  | Err_reward_height
  | Err_invalid_heights
  | Err_not_validator

type_synonym ('e, 'a) db_call = "world \<Rightarrow> ('e, 'a) outcome \<times> world"

definition db_return :: "'a \<Rightarrow> ('e, 'a) db_call" where
  "db_return x = (\<lambda>w. (Return x, w))"

definition db_error :: "'e \<Rightarrow> ('e, 'a) db_call" where
  "db_error e = (\<lambda>w. (Error e, w))"

definition db_bind :: "('e, 'a) db_call \<Rightarrow> ('a \<Rightarrow> ('e, 'b) db_call) \<Rightarrow> ('e, 'b) db_call" where
  "db_bind m f = (\<lambda>w.
     case m w of
       (Return x, w) \<Rightarrow> f x w
     | (Error e, w) \<Rightarrow> (Error e, w)
     | (Panic, w) \<Rightarrow> (Panic, w))"

definition db_lift :: "('e, 'a) outcome \<Rightarrow> ('e, 'a) db_call" where
  "db_lift m = (\<lambda>w. (m, w))"

definition db_range ::
    "(cacheDB \<Rightarrow> bytes list) \<Rightarrow> Database \<Rightarrow> bytes \<Rightarrow> bytes \<Rightarrow> int \<Rightarrow> bool \<Rightarrow> ('e, store) db_call" where
  "db_range order s start end' limit reverse = (\<lambda>w.
     case Database_Range order w s start end' limit reverse of
       Return (kv, w) \<Rightarrow> (Return kv, w)
     | Error e \<Rightarrow> (Error e, w)
     | Panic \<Rightarrow> (Panic, w))"

definition db_set :: "('a \<Rightarrow> bytes) \<Rightarrow> Database \<Rightarrow> bytes \<Rightarrow> 'a \<Rightarrow> ('e, unit) db_call" where
  "db_set encode s key x = (\<lambda>w.
     case SetEncodable encode w s key x of
       Return w \<Rightarrow> (Return (), w)
     | Error e \<Rightarrow> (Error e, w)
     | Panic \<Rightarrow> (Panic, w))"

definition db_del :: "Database \<Rightarrow> bytes \<Rightarrow> ('e, unit) db_call" where
  "db_del s key = (\<lambda>w. (Return (), Database_Del w s key))"

definition db_get :: "Database \<Rightarrow> bytes \<Rightarrow> ('e, bytes option) db_call" where
  "db_get s key = (\<lambda>w. let (v, w) = Database_Get w s key in (Return v, w))"

definition db_decode ::
    "(bytes \<Rightarrow> (codec_error, 'a) outcome) \<Rightarrow> Database \<Rightarrow> bytes \<Rightarrow> (bft_error, 'a) db_call" where
  "db_decode decode s key = (\<lambda>w.
     let (x, w) = GetDecodable decode w s key in (wrap_error Err_diffdb x, w))"

lemma db_bind_return [simp]: "db_bind (db_return x) f = f x"
  by (simp add: db_bind_def db_return_def)

lemma db_bind_error [simp]: "db_bind (db_error e) f = db_error e"
  by (simp add: db_bind_def db_error_def)

section \<open>Store prefixes\<close>

abbreviation ModuleID :: u32 where
  "ModuleID \<equiv> 11"

abbreviation storePrefixBFTParams :: u16 where
  "storePrefixBFTParams \<equiv> 0x0000"

abbreviation storePrefixGeneratorKeys :: u16 where
  "storePrefixGeneratorKeys \<equiv> 0x4000"

abbreviation storePrefixBFTVotes :: u16 where
  "storePrefixBFTVotes \<equiv> 0x8000"

definition emptyKey :: bytes where
  "emptyKey = []"

definition dbPrefix :: "u16 \<Rightarrow> bytes" where
  "dbPrefix storePrefix = Join [FromUint32 ModuleID, FromUint16 storePrefix]"

abbreviation params_store :: "Database \<Rightarrow> Database" where
  "params_store s \<equiv> Database_WithPrefix s (dbPrefix storePrefixBFTParams)"

abbreviation votes_store :: "Database \<Rightarrow> Database" where
  "votes_store s \<equiv> Database_WithPrefix s (dbPrefix storePrefixBFTVotes)"

abbreviation keys_store :: "Database \<Rightarrow> Database" where
  "keys_store s \<equiv> Database_WithPrefix s (dbPrefix storePrefixGeneratorKeys)"

section \<open>Validators\<close>

definition ActiveValidators_sort :: "ActiveValidator list \<Rightarrow> ActiveValidator list" where
  "ActiveValidators_sort c = sort_slice (\<lambda>x y. av_address x > av_address y) c"

fun ActiveValidators_get :: "ActiveValidator list \<Rightarrow> bytes \<Rightarrow> ActiveValidator option" where
  "ActiveValidators_get [] address = None"
| "ActiveValidators_get (validator # c) address =
     (if Equal (av_address validator) address then Some validator else ActiveValidators_get c address)"

definition NewValidator :: "bytes \<Rightarrow> u64 \<Rightarrow> bytes \<Rightarrow> BFTValidator" where
  "NewValidator address bftWeight blsKey = \<lparr>bv_address = address, bv_bftWeight = bftWeight, bv_blsKey = blsKey\<rparr>"

fun BFTValidators_Get :: "BFTValidator list \<Rightarrow> bytes \<Rightarrow> BFTValidator option" where
  "BFTValidators_Get [] address = None"
| "BFTValidators_Get (state # vs) address =
     (if Equal (bv_address state) address then Some state else BFTValidators_Get vs address)"

fun BFTValidators_Find :: "BFTValidator list \<Rightarrow> bytes \<Rightarrow> BFTValidator option" where
  "BFTValidators_Find [] address = None"
| "BFTValidators_Find (v # vs) address =
     (if Equal (bv_address v) address then Some v else BFTValidators_Find vs address)"

fun BFTValidators_Equal :: "BFTValidator list \<Rightarrow> BFTValidator list \<Rightarrow> bool" where
  "BFTValidators_Equal [] [] = True"
| "BFTValidators_Equal (v # vs) (validator # validators) =
     (if \<not> Equal (bv_address v) (bv_address validator) then False
      else if bv_bftWeight v \<noteq> bv_bftWeight validator then False
      else BFTValidators_Equal vs validators)"
| "BFTValidators_Equal _ _ = False"

definition BFTValidators_Sort :: "BFTValidator list \<Rightarrow> BFTValidator list" where
  "BFTValidators_Sort vs = sort_slice (\<lambda>x y. bv_address x > bv_address y) vs"

definition NewGenerator :: "bytes \<Rightarrow> bytes \<Rightarrow> Generator" where
  "NewGenerator address generatorKey = \<lparr>gn_address = address, gn_generatorKey = generatorKey\<rparr>"

definition AtTimestamp :: "Generator list \<Rightarrow> BlockSlot \<Rightarrow> u32 \<Rightarrow> ('e, Generator) outcome" where
  "AtTimestamp vs slot timestamp =
     (let currentSlot = GetSlotNumber slot timestamp
      in if vs = [] then Panic else Return (vs ! nat (currentSlot mod int (length vs))))"

section \<open>Reading the parameters\<close>

definition getBFTParams ::
    "(cacheDB \<Rightarrow> bytes list) \<Rightarrow> Database \<Rightarrow> u32 \<Rightarrow> (bft_error, BFTParams) db_call" where
  "getBFTParams order paramsStore height =
     db_bind (db_range order paramsStore (FromUint32 0) (FromUint32 height) 1 True) (\<lambda>kv.
       if length kv \<noteq> 1 then db_error ErrBFTParamsNotFound
       else db_lift (wrap_error Err_bft_decode (BFTParams_Decode (snd (hd kv)))))"

definition getGeneratorKeys ::
    "(cacheDB \<Rightarrow> bytes list) \<Rightarrow> Database \<Rightarrow> u32 \<Rightarrow> (bft_error, GeneratorKeys) db_call" where
  "getGeneratorKeys order keysStore height =
     db_bind (db_range order keysStore (FromUint32 0) (FromUint32 height) 1 True) (\<lambda>kv.
       if length kv \<noteq> 1 then db_error ErrGeneratorKeysNotFound
       else db_lift (wrap_error Err_bft_decode (GeneratorKeys_Decode (snd (hd kv)))))"

fun del_all :: "Database \<Rightarrow> store \<Rightarrow> ('e, unit) db_call" where
  "del_all s [] = db_return ()"
| "del_all s (kv # kvs) = db_bind (db_del s (fst kv)) (\<lambda>_. del_all s kvs)"

definition deleteBFTParams ::
    "(cacheDB \<Rightarrow> bytes list) \<Rightarrow> Database \<Rightarrow> u32 \<Rightarrow> ('e, unit) db_call" where
  "deleteBFTParams order paramsStore height =
     db_bind (db_range order paramsStore (FromUint32 0) (FromUint32 height) (-1) False) (\<lambda>kv.
       if length kv \<le> 1 then db_return () else del_all paramsStore (take (length kv - 1) kv))"

definition deleteGeneratorKeys ::
    "(cacheDB \<Rightarrow> bytes list) \<Rightarrow> Database \<Rightarrow> u32 \<Rightarrow> ('e, unit) db_call" where
  "deleteGeneratorKeys order keysStore height =
     db_bind (db_range order keysStore (FromUint32 0) (FromUint32 height) (-1) False) (\<lambda>kv.
       if length kv \<le> 1 then db_return () else del_all keysStore (take (length kv - 1) kv))"

record bftParamsCache =
  pc_paramsStore :: Database
  pc_data :: "u32 \<rightharpoonup> BFTParams"

definition newBFTParamsCache :: "Database \<Rightarrow> bftParamsCache" where
  "newBFTParamsCache paramsStore = \<lparr>pc_paramsStore = paramsStore, pc_data = Map.empty\<rparr>"

text \<open>
  The value of the first pair whose key is not above the height; the keys are read as 32-bit
  numbers, which panics on shorter keys.  The loop over the heights never ends when its upper
  bound is the largest 32-bit number, because the counter wraps around; not returning is
  \<^const>\<open>None\<close>.
\<close>

fun lowest_before :: "store \<Rightarrow> u32 \<Rightarrow> ('e, bytes option) outcome" where
  "lowest_before [] height = Return None"
| "lowest_before (element # kv) height =
     obind (ToUint32 (fst element)) (\<lambda>keyHeight.
       if keyHeight \<le> height then Return (Some (snd element)) else lowest_before kv height)"

partial_function (option) cache_loop ::
    "store \<Rightarrow> u32 \<Rightarrow> u32 \<Rightarrow> (u32 \<rightharpoonup> BFTParams) \<Rightarrow> (bft_error, u32 \<rightharpoonup> BFTParams) outcome option" where
  "cache_loop kv height to data =
     (if \<not> height \<le> to then Some (Return data)
      else case lowest_before kv height of
             Return None \<Rightarrow> Some (Error Err_params_should_exist)
           | Return (Some val) \<Rightarrow>
               (case BFTParams_Decode val of
                  Return params \<Rightarrow> cache_loop kv (height + 1) to (data(height \<mapsto> params))
                | Error e \<Rightarrow> Some (Error (Err_bft_decode e))
                | Panic \<Rightarrow> Some Panic)
           | Error e \<Rightarrow> Some (Error e)
           | Panic \<Rightarrow> Some Panic)"

definition cache_kv ::
    "(cacheDB \<Rightarrow> bytes list) \<Rightarrow> Database \<Rightarrow> u32 \<Rightarrow> u32 \<Rightarrow> (bft_error, store) db_call" where
  "cache_kv order paramsStore from to =
     db_bind (db_range order paramsStore (FromUint32 from) (FromUint32 to) (-1) True) (\<lambda>kv.
       if from > 0
       then db_bind (getBFTParams order paramsStore from) (\<lambda>nextLowest.
              db_return (kv @ [(FromUint32 from, BFTParams_Encode nextLowest)]))
       else db_return kv)"

definition cache ::
    "(cacheDB \<Rightarrow> bytes list) \<Rightarrow> bftParamsCache \<Rightarrow> u32 \<Rightarrow> u32 \<Rightarrow> world
     \<Rightarrow> ((bft_error, bftParamsCache) outcome \<times> world) option" where
  "cache order c from to w =
     (case cache_kv order (pc_paramsStore c) from to w of
        (Return kv, w) \<Rightarrow>
          map_option (\<lambda>res. (omap (\<lambda>data. c\<lparr>pc_data := data\<rparr>) res, w)) (cache_loop kv from to (pc_data c))
      | (Error e, w) \<Rightarrow> Some (Error e, w)
      | (Panic, w) \<Rightarrow> Some (Panic, w))"

definition GetParameters ::
    "(cacheDB \<Rightarrow> bytes list) \<Rightarrow> bftParamsCache \<Rightarrow> u32 \<Rightarrow> (bft_error, BFTParams \<times> bftParamsCache) db_call" where
  "GetParameters order c height =
     (case pc_data c height of
        Some cached \<Rightarrow> db_return (cached, c)
      | None \<Rightarrow>
          db_bind (getBFTParams order (pc_paramsStore c) height) (\<lambda>params.
            db_return (params, c\<lparr>pc_data := (pc_data c)(height \<mapsto> params)\<rparr>)))"

section \<open>Votes\<close>

definition insertBlockBFTInfo :: "BFTVotes \<Rightarrow> BlockHeader \<Rightarrow> int \<Rightarrow> ('e, BFTVotes) outcome" where
  "insertBlockBFTInfo v header maxLength =
     (if min (int (length (vt_blockBFTInfos v)) + 1) maxLength \<le> 0 then Panic
      else let new =
             \<lparr>bb_height = bh_Height header, bb_generatorAddress = bh_GeneratorAddress header,
              bb_maxHeightGenerated = bh_MaxHeightGenerated header,
              bb_maxHeightPrevoted = bh_MaxHeightPrevoted header, bb_prevoteWeight = 0, bb_precommitWeight = 0\<rparr>
           in Return (v\<lparr>vt_blockBFTInfos := new # take (nat maxLength - 1) (vt_blockBFTInfos v)\<rparr>))"

text \<open>
  The loop of \<^verbatim>\<open>getHeightNotPrevoted\<close> follows the heights a generator announces back from block to
  block; every round lowers the height, so the loop ends.
\<close>

function heightNotPrevoted_loop ::
    "BFTBlockHeader list \<Rightarrow> u32 \<Rightarrow> bytes \<Rightarrow> u32 \<Rightarrow> ('e, u32) outcome" where
  "heightNotPrevoted_loop infos currentHeight generator heightPreviousBlock =
     (if uint currentHeight - uint heightPreviousBlock < int (length infos)
      then let index = unat (currentHeight - heightPreviousBlock)
           in if length infos \<le> index then Panic
              else let blockBFTInfo = infos ! index
                   in if \<not> Equal (bb_generatorAddress blockBFTInfo) generator
                         \<or> bb_maxHeightGenerated blockBFTInfo \<ge> heightPreviousBlock
                      then Return heightPreviousBlock
                      else heightNotPrevoted_loop infos currentHeight generator
                             (bb_maxHeightGenerated blockBFTInfo)
      else Return (bb_height (last infos) - 1))"
  by pat_completeness auto
termination
  by (relation "measure (\<lambda>(_, _, _, h). unat h)") (auto simp: word_less_nat_alt not_le)

declare heightNotPrevoted_loop.simps [simp del]

definition getHeightNotPrevoted :: "BFTVotes \<Rightarrow> ('e, u32) outcome" where
  "getHeightNotPrevoted v =
     (case vt_blockBFTInfos v of
        [] \<Rightarrow> Panic
      | newBlockBFTInfo # _ \<Rightarrow>
          heightNotPrevoted_loop (vt_blockBFTInfos v) (bb_height newBlockBFTInfo)
            (bb_generatorAddress newBlockBFTInfo) (bb_maxHeightGenerated newBlockBFTInfo))"

text \<open>
  The first active validator with the address is updated; the later ones, if any, are left alone.
\<close>

fun set_largestHeightPrecommit :: "ActiveValidator list \<Rightarrow> bytes \<Rightarrow> u32 \<Rightarrow> ActiveValidator list" where
  "set_largestHeightPrecommit [] address height = []"
| "set_largestHeightPrecommit (v # vs) address height =
     (if Equal (av_address v) address then v\<lparr>av_largestHeightPrecommit := height\<rparr> # vs
      else v # set_largestHeightPrecommit vs address height)"

fun precommit_loop ::
    "(cacheDB \<Rightarrow> bytes list) \<Rightarrow> bytes \<Rightarrow> u32 \<Rightarrow> bool \<Rightarrow> BFTBlockHeader list \<Rightarrow> ActiveValidator list \<Rightarrow> bftParamsCache
     \<Rightarrow> (bft_error, BFTBlockHeader list \<times> ActiveValidator list \<times> bftParamsCache) db_call" where
  "precommit_loop order generator minHeight hasPrecommitted [] active c = db_return ([], active, c)"
| "precommit_loop order generator minHeight hasPrecommitted (blockBFTInfo # infos) active c =
     (if bb_height blockBFTInfo < minHeight then db_return (blockBFTInfo # infos, active, c)
      else db_bind (GetParameters order c (bb_height blockBFTInfo)) (\<lambda>(params, c).
        if bb_prevoteWeight blockBFTInfo \<ge> bp_prevoteThreshold params
        then case BFTValidators_Get (bp_validators params) generator of
               None \<Rightarrow> db_error Err_validator_not_in_params
             | Some bftValidator \<Rightarrow>
                 db_bind
                   (precommit_loop order generator minHeight True infos
                      (if hasPrecommitted then active
                       else set_largestHeightPrecommit active generator (bb_height blockBFTInfo)) c)
                   (\<lambda>(infos, active, c).
                      db_return
                        (blockBFTInfo\<lparr>bb_precommitWeight := bb_precommitWeight blockBFTInfo + bv_bftWeight bftValidator\<rparr>
                           # infos, active, c))
        else db_bind (precommit_loop order generator minHeight hasPrecommitted infos active c)
               (\<lambda>(infos, active, c). db_return (blockBFTInfo # infos, active, c))))"

fun prevote_loop ::
    "(cacheDB \<Rightarrow> bytes list) \<Rightarrow> bytes \<Rightarrow> u32 \<Rightarrow> BFTBlockHeader list \<Rightarrow> bftParamsCache
     \<Rightarrow> (bft_error, BFTBlockHeader list \<times> bftParamsCache) db_call" where
  "prevote_loop order generator minHeight [] c = db_return ([], c)"
| "prevote_loop order generator minHeight (blockBFTInfo # infos) c =
     (if bb_height blockBFTInfo < minHeight then db_return (blockBFTInfo # infos, c)
      else db_bind (GetParameters order c (bb_height blockBFTInfo)) (\<lambda>(params, c).
        case BFTValidators_Get (bp_validators params) generator of
          None \<Rightarrow> db_error Err_validator_not_in_params
        | Some bftValidator \<Rightarrow>
            db_bind (prevote_loop order generator minHeight infos c) (\<lambda>(infos, c).
              db_return
                (blockBFTInfo\<lparr>bb_prevoteWeight := bb_prevoteWeight blockBFTInfo + bv_bftWeight bftValidator\<rparr>
                   # infos, c))))"

definition updatePrevotesPrecommits ::
    "(cacheDB \<Rightarrow> bytes list) \<Rightarrow> BFTVotes \<Rightarrow> bftParamsCache \<Rightarrow> (bft_error, BFTVotes \<times> bftParamsCache) db_call" where
  "updatePrevotesPrecommits order v c =
     (case vt_blockBFTInfos v of
        [] \<Rightarrow> db_return (v, c)
      | newBlockBFTInfo # _ \<Rightarrow>
          if bb_maxHeightGenerated newBlockBFTInfo \<ge> bb_height newBlockBFTInfo then db_return (v, c)
          else case ActiveValidators_get (vt_activeValidatorsVoteInfo v) (bb_generatorAddress newBlockBFTInfo) of
                 None \<Rightarrow> db_return (v, c)
               | Some validatorInfo \<Rightarrow>
                   db_bind (db_lift (getHeightNotPrevoted v)) (\<lambda>heightNotPrevoted.
                   db_bind (db_lift (ints_Max [av_minActiveHeight validatorInfo, heightNotPrevoted + 1,
                              av_largestHeightPrecommit validatorInfo + 1])) (\<lambda>minPrecommitHeight.
                   db_bind (precommit_loop order (bb_generatorAddress newBlockBFTInfo) minPrecommitHeight False
                              (vt_blockBFTInfos v) (vt_activeValidatorsVoteInfo v) c) (\<lambda>(infos, active, c).
                   db_bind (db_lift (ints_Max [bb_maxHeightGenerated newBlockBFTInfo + 1,
                              av_minActiveHeight validatorInfo])) (\<lambda>minPrevoteHeight.
                   db_bind (prevote_loop order (bb_generatorAddress newBlockBFTInfo) minPrevoteHeight infos c)
                     (\<lambda>(infos, c).
                     db_return (v\<lparr>vt_blockBFTInfos := infos, vt_activeValidatorsVoteInfo := active\<rparr>, c)))))))"

fun updateMaxHeightPrevoted_loop ::
    "(cacheDB \<Rightarrow> bytes list) \<Rightarrow> BFTVotes \<Rightarrow> BFTBlockHeader list \<Rightarrow> bftParamsCache
     \<Rightarrow> (bft_error, BFTVotes \<times> bftParamsCache) db_call" where
  "updateMaxHeightPrevoted_loop order v [] c = db_return (v, c)"
| "updateMaxHeightPrevoted_loop order v (blockBFTInfo # infos) c =
     db_bind (GetParameters order c (bb_height blockBFTInfo)) (\<lambda>(params, c).
       if bb_prevoteWeight blockBFTInfo \<ge> bp_prevoteThreshold params
       then db_return (v\<lparr>vt_maxHeightPrevoted := bb_height blockBFTInfo\<rparr>, c)
       else updateMaxHeightPrevoted_loop order v infos c)"

definition updateMaxHeightPrevoted ::
    "(cacheDB \<Rightarrow> bytes list) \<Rightarrow> BFTVotes \<Rightarrow> bftParamsCache \<Rightarrow> (bft_error, BFTVotes \<times> bftParamsCache) db_call" where
  "updateMaxHeightPrevoted order v c = updateMaxHeightPrevoted_loop order v (vt_blockBFTInfos v) c"

fun updateMaxHeightPrecommitted_loop ::
    "(cacheDB \<Rightarrow> bytes list) \<Rightarrow> BFTVotes \<Rightarrow> BFTBlockHeader list \<Rightarrow> bftParamsCache
     \<Rightarrow> (bft_error, BFTVotes \<times> bftParamsCache) db_call" where
  "updateMaxHeightPrecommitted_loop order v [] c = db_return (v, c)"
| "updateMaxHeightPrecommitted_loop order v (blockBFTInfo # infos) c =
     db_bind (GetParameters order c (bb_height blockBFTInfo)) (\<lambda>(params, c).
       if bb_precommitWeight blockBFTInfo \<ge> bp_precommitThreshold params
       then db_return (v\<lparr>vt_maxHeightPrecommited := bb_height blockBFTInfo\<rparr>, c)
       else updateMaxHeightPrecommitted_loop order v infos c)"

definition updateMaxHeightPrecommitted ::
    "(cacheDB \<Rightarrow> bytes list) \<Rightarrow> BFTVotes \<Rightarrow> bftParamsCache \<Rightarrow> (bft_error, BFTVotes \<times> bftParamsCache) db_call" where
  "updateMaxHeightPrecommitted order v c = updateMaxHeightPrecommitted_loop order v (vt_blockBFTInfos v) c"

text \<open>The header of a block has an aggregate commit; reading a missing one panics.\<close>

definition updateMaxHeightCertified :: "BFTVotes \<Rightarrow> BlockHeader \<Rightarrow> ('e, BFTVotes) outcome" where
  "updateMaxHeightCertified v header =
     (case bh_AggregateCommit header of
        None \<Rightarrow> Panic
      | Some a \<Rightarrow>
          if ac_AggregationBits a = [] \<and> ac_CertificateSignature a = [] then Return v
          else Return (v\<lparr>vt_maxHeightCertified := ac_Height a\<rparr>))"

definition as_partial :: "BFTBlockHeader \<Rightarrow> bftBlockHeader" where
  "as_partial b =
     \<lparr>ch_id = [], ch_height = bb_height b, ch_generatorAddress = bb_generatorAddress b,
      ch_maxHeightGenerated = bb_maxHeightGenerated b, ch_maxHeightPrevoted = bb_maxHeightPrevoted b\<rparr>"

fun contradicting_loop :: "BFTBlockHeader list \<Rightarrow> bftBlockHeader \<Rightarrow> bool" where
  "contradicting_loop [] header = False"
| "contradicting_loop (bftBlock # infos) header =
     (if Equal (bb_generatorAddress bftBlock) (ch_generatorAddress header)
      then AreDistinctHeadersContradicting (as_partial bftBlock) header
      else contradicting_loop infos header)"

definition contradicting :: "BFTVotes \<Rightarrow> bftBlockHeader \<Rightarrow> bool" where
  "contradicting v header =
     (if vt_blockBFTInfos v = [] then False else contradicting_loop (vt_blockBFTInfos v) header)"

section \<open>The module\<close>

record bftModule =
  bm_batchSize :: int
  bm_maxLengthBlock :: int

definition Module_Init :: "int \<Rightarrow> bftModule" where
  "Module_Init batchSize = \<lparr>bm_batchSize = batchSize, bm_maxLengthBlock = wrap_int (3 * batchSize)\<rparr>"

definition InitGenesisState :: "BlockHeader \<Rightarrow> Database \<Rightarrow> (bft_error, unit) db_call" where
  "InitGenesisState blockHeader diffStore =
     (let voteStore = votes_store diffStore;
          bftVotes =
            \<lparr>vt_maxHeightPrevoted = bh_Height blockHeader, vt_maxHeightPrecommited = bh_Height blockHeader,
             vt_maxHeightCertified = bh_Height blockHeader, vt_blockBFTInfos = [],
             vt_activeValidatorsVoteInfo = []\<rparr>
      in db_set BFTVotes_Encode voteStore emptyKey bftVotes)"

text \<open>
  \<^verbatim>\<open>BeforeTransactionsExecute\<close> in two parts: up to the call that fills the parameter cache, which
  may not return, and from there on.
\<close>

definition insert_header :: "bftModule \<Rightarrow> BlockHeader \<Rightarrow> Database \<Rightarrow> (bft_error, BFTVotes) db_call" where
  "insert_header m blockHeader diffStore =
     db_bind (db_decode BFTVotes_Decode (votes_store diffStore) emptyKey) (\<lambda>bftVotes.
       db_lift (insertBlockBFTInfo bftVotes blockHeader (bm_maxLengthBlock m)))"

definition update_votes ::
    "(cacheDB \<Rightarrow> bytes list) \<Rightarrow> BlockHeader \<Rightarrow> Database \<Rightarrow> BFTVotes \<Rightarrow> bftParamsCache \<Rightarrow> (bft_error, unit) db_call" where
  "update_votes order blockHeader diffStore bftVotes paramsCache =
     db_bind (updatePrevotesPrecommits order bftVotes paramsCache) (\<lambda>(bftVotes, paramsCache).
     db_bind (updateMaxHeightPrevoted order bftVotes paramsCache) (\<lambda>(bftVotes, paramsCache).
     db_bind (updateMaxHeightPrecommitted order bftVotes paramsCache) (\<lambda>(bftVotes, paramsCache).
     db_bind (db_lift (updateMaxHeightCertified bftVotes blockHeader)) (\<lambda>bftVotes.
     db_bind (db_set BFTVotes_Encode (votes_store diffStore) emptyKey bftVotes) (\<lambda>_.
     db_bind (db_lift (ints_Min [bb_height (last (vt_blockBFTInfos bftVotes)), vt_maxHeightCertified bftVotes + 1]))
       (\<lambda>minHeightBFTParamsRequired.
     db_bind (deleteBFTParams order (params_store diffStore) minHeightBFTParamsRequired) (\<lambda>_.
     deleteGeneratorKeys order (keys_store diffStore) minHeightBFTParamsRequired)))))))"

definition BeforeTransactionsExecute ::
    "(cacheDB \<Rightarrow> bytes list) \<Rightarrow> bftModule \<Rightarrow> BlockHeader \<Rightarrow> Database \<Rightarrow> world
     \<Rightarrow> ((bft_error, unit) outcome \<times> world) option" where
  "BeforeTransactionsExecute order m blockHeader diffStore w =
     (case insert_header m blockHeader diffStore w of
        (Return bftVotes, w) \<Rightarrow>
          (case cache order (newBFTParamsCache (params_store diffStore))
                  (bb_height (last (vt_blockBFTInfos bftVotes))) (bb_height (hd (vt_blockBFTInfos bftVotes))) w of
             None \<Rightarrow> None
           | Some (Return paramsCache, w) \<Rightarrow> Some (update_votes order blockHeader diffStore bftVotes paramsCache w)
           | Some (Error e, w) \<Rightarrow> Some (Error e, w)
           | Some (Panic, w) \<Rightarrow> Some (Panic, w))
      | (Error e, w) \<Rightarrow> Some (Error e, w)
      | (Panic, w) \<Rightarrow> Some (Panic, w))"

section \<open>The interface to the other packages\<close>

definition AreHeadersContradicting :: "BlockHeader \<Rightarrow> BlockHeader \<Rightarrow> bool" where
  "AreHeadersContradicting header1 header2 =
     (if Equal (bh_ID header1) (bh_ID header2) then False
      else AreDistinctHeadersContradicting (NewBFTBlockHeader header1) (NewBFTBlockHeader header2))"

definition IsHeaderContradictingChain :: "Database \<Rightarrow> BlockHeader \<Rightarrow> (bft_error, bool) db_call" where
  "IsHeaderContradictingChain context header =
     db_bind (db_decode BFTVotes_Decode (votes_store context) emptyKey) (\<lambda>bftVotes.
       db_return (contradicting bftVotes (NewBFTBlockHeader header)))"

definition ExistBFTParameters :: "Database \<Rightarrow> u32 \<Rightarrow> ('e, bool) db_call" where
  "ExistBFTParameters diffStore height =
     db_bind (db_get (params_store diffStore) (FromUint32 height)) (\<lambda>v. db_return (v \<noteq> None))"

definition GetBFTParameters ::
    "(cacheDB \<Rightarrow> bytes list) \<Rightarrow> Database \<Rightarrow> u32 \<Rightarrow> (bft_error, BFTParams) db_call" where
  "GetBFTParameters order diffStore height = getBFTParams order (params_store diffStore) height"

definition GetBFTHeights :: "Database \<Rightarrow> (bft_error, u32 \<times> u32 \<times> u32) db_call" where
  "GetBFTHeights diffStore =
     db_bind (db_decode BFTVotes_Decode (votes_store diffStore) emptyKey) (\<lambda>bftVotes.
       db_return (vt_maxHeightPrevoted bftVotes, vt_maxHeightPrecommited bftVotes, vt_maxHeightCertified bftVotes))"

definition ImpliesMaximalPrevotes :: "Database \<Rightarrow> BlockHeader \<Rightarrow> (bft_error, bool) db_call" where
  "ImpliesMaximalPrevotes context blockHeader =
     db_bind (db_decode BFTVotes_Decode (votes_store context) emptyKey) (\<lambda>bftVotes.
       case vt_blockBFTInfos bftVotes of
         [] \<Rightarrow> db_lift Panic
       | latest # _ \<Rightarrow>
           let currentHeight = bb_height latest;
               previousHeight = bh_MaxHeightGenerated blockHeader
           in if bh_Height blockHeader \<noteq> currentHeight then db_error Err_reward_height
              else if previousHeight \<ge> bh_Height blockHeader then db_return False
              else if currentHeight < previousHeight then db_error Err_invalid_heights
              else let offset = currentHeight - previousHeight - 1
                   in if unat offset \<ge> length (vt_blockBFTInfos bftVotes) then db_return True
                      else let bftInfo = vt_blockBFTInfos bftVotes ! unat offset
                           in db_return (Equal (bb_generatorAddress bftInfo) (bh_GeneratorAddress blockHeader)))"

definition NextHeightBFTParameters ::
    "(cacheDB \<Rightarrow> bytes list) \<Rightarrow> Database \<Rightarrow> u32 \<Rightarrow> (bft_error, u32) db_call" where
  "NextHeightBFTParameters order context height =
     db_bind (db_range order (params_store context) (FromUint32 (height + 1)) (FromUint32 (- 1)) 1 False) (\<lambda>kv.
       if length kv \<noteq> 1 then db_error ErrNotFound else db_lift (ToUint32 (fst (hd kv))))"

text \<open>The checks of \<^verbatim>\<open>SetBFTParameters\<close> and the sum of the weights, which wraps around.\<close>

fun aggregate_weight :: "BFTValidator list \<Rightarrow> u64 \<Rightarrow> (bft_error, u64) outcome" where
  "aggregate_weight [] aggregateBFTWeight = Return aggregateBFTWeight"
| "aggregate_weight (validator # validators) aggregateBFTWeight =
     (if bv_bftWeight validator \<le> 0 then Error Err_bft_weight
      else aggregate_weight validators (aggregateBFTWeight + bv_bftWeight validator))"

definition check_parameters ::
    "bftModule \<Rightarrow> u64 \<Rightarrow> u64 \<Rightarrow> BFTValidator list \<Rightarrow> (bft_error, u64) outcome" where
  "check_parameters a precommitThreshold certificateThreshold validators =
     (if int (length validators) > bm_batchSize a then Error Err_validators_size
      else obind (aggregate_weight validators 0) (\<lambda>aggregateBFTWeight.
        if aggregateBFTWeight div 3 + 1 > precommitThreshold \<or> precommitThreshold > aggregateBFTWeight
        then Error Err_precommit_threshold
        else if aggregateBFTWeight div 3 + 1 > certificateThreshold \<or> certificateThreshold > aggregateBFTWeight
        then Error Err_certificate_threshold
        else Return aggregateBFTWeight))"

definition new_params :: "u64 \<Rightarrow> u64 \<Rightarrow> u64 \<Rightarrow> BFTValidator list \<Rightarrow> BFTParams" where
  "new_params aggregateBFTWeight precommitThreshold certificateThreshold validators =
     \<lparr>bp_prevoteThreshold = aggregateBFTWeight * 2 div 3 + 1,
      bp_precommitThreshold = precommitThreshold,
      bp_certificateThreshold = certificateThreshold,
      bp_validators = validators,
      bp_validatorsHash =
        ComputeValidatorsHash (map (\<lambda>v. (bv_blsKey v, bv_bftWeight v)) validators) certificateThreshold\<rparr>"

text \<open>No weight is zero at this point, so every validator gets an entry.\<close>

definition new_active :: "ActiveValidator list \<Rightarrow> u32 \<Rightarrow> BFTValidator list \<Rightarrow> ActiveValidator list" where
  "new_active currentActiveValidators nextHeight validators =
     ActiveValidators_sort
       (map (\<lambda>validator.
          case ActiveValidators_get currentActiveValidators (bv_address validator) of
            Some originalConsenter \<Rightarrow> originalConsenter
          | None \<Rightarrow> \<lparr>av_address = bv_address validator, av_minActiveHeight = nextHeight,
                     av_largestHeightPrecommit = nextHeight - 1\<rparr>) validators)"

definition current_height :: "BFTVotes \<Rightarrow> u32" where
  "current_height bftVotes =
     (case vt_blockBFTInfos bftVotes of [] \<Rightarrow> vt_maxHeightPrevoted bftVotes | b # _ \<Rightarrow> bb_height b)"

definition current_params ::
    "(cacheDB \<Rightarrow> bytes list) \<Rightarrow> Database \<Rightarrow> u32 \<Rightarrow> (bft_error, BFTParams option) db_call" where
  "current_params order paramsStore height = (\<lambda>w.
     case getBFTParams order paramsStore height w of
       (Return p, w) \<Rightarrow> (Return (Some p), w)
     | (Error e, w) \<Rightarrow> (if e = ErrBFTParamsNotFound then Return None else Error e, w)
     | (Panic, w) \<Rightarrow> (Panic, w))"

definition same_params :: "BFTParams option \<Rightarrow> u64 \<Rightarrow> u64 \<Rightarrow> BFTValidator list \<Rightarrow> bool" where
  "same_params currentParams precommitThreshold certificateThreshold validators =
     (case currentParams of
        None \<Rightarrow> False
      | Some p \<Rightarrow> BFTValidators_Equal (bp_validators p) validators
                   \<and> bp_precommitThreshold p = precommitThreshold
                   \<and> bp_certificateThreshold p = certificateThreshold)"

definition SetBFTParameters ::
    "(cacheDB \<Rightarrow> bytes list) \<Rightarrow> bftModule \<Rightarrow> Database \<Rightarrow> u64 \<Rightarrow> u64 \<Rightarrow> BFTValidator list
     \<Rightarrow> (bft_error, unit) db_call" where
  "SetBFTParameters order a diffStore precommitThreshold certificateThreshold validators =
     db_bind (db_lift (check_parameters a precommitThreshold certificateThreshold validators))
       (\<lambda>aggregateBFTWeight.
     let validators = BFTValidators_Sort validators in
     db_bind (db_decode BFTVotes_Decode (votes_store diffStore) emptyKey) (\<lambda>bftVotes.
     let currentHeight = current_height bftVotes; nextHeight = currentHeight + 1 in
     db_bind (current_params order (params_store diffStore) currentHeight) (\<lambda>currentParams.
     if same_params currentParams precommitThreshold certificateThreshold validators then db_return ()
     else db_bind (db_set BFTParams_Encode (params_store diffStore) (FromUint32 nextHeight)
                     (new_params aggregateBFTWeight precommitThreshold certificateThreshold validators)) (\<lambda>_.
          db_set BFTVotes_Encode (votes_store diffStore) emptyKey
            (bftVotes\<lparr>vt_activeValidatorsVoteInfo :=
                new_active (vt_activeValidatorsVoteInfo bftVotes) nextHeight validators\<rparr>)))))"

definition SetGeneratorKeys :: "Database \<Rightarrow> Generator list \<Rightarrow> (bft_error, unit) db_call" where
  "SetGeneratorKeys diffStore generators =
     db_bind (db_decode BFTVotes_Decode (votes_store diffStore) emptyKey) (\<lambda>bftVotes.
       let nextHeight = current_height bftVotes + 1
       in db_set GeneratorKeys_Encode (keys_store diffStore) (FromUint32 nextHeight)
            \<lparr>gk_Generators = generators\<rparr>)"

definition GetGeneratorKeys ::
    "(cacheDB \<Rightarrow> bytes list) \<Rightarrow> Database \<Rightarrow> u32 \<Rightarrow> (bft_error, Generator list) db_call" where
  "GetGeneratorKeys order diffStore height =
     db_bind (getGeneratorKeys order (keys_store diffStore) height) (\<lambda>keys. db_return (gk_Generators keys))"

definition HeaderHasPriority :: "BlockHeader \<Rightarrow> u32 \<Rightarrow> u32 \<Rightarrow> u32 \<Rightarrow> bool" where
  "HeaderHasPriority header height maxHeightPrevoted maxHeightPreviouslyForged =
     (if bh_Version header = 0 then height \<le> bh_Height header \<and> maxHeightPrevoted \<le> bh_Height header
      else maxHeightPrevoted < bh_MaxHeightPrevoted header
           \<or> (maxHeightPrevoted = bh_MaxHeightPrevoted header \<and> height < bh_Height header))"

definition GetValidator ::
    "(cacheDB \<Rightarrow> bytes list) \<Rightarrow> Database \<Rightarrow> bytes \<Rightarrow> u32 \<Rightarrow> (bft_error, BFTValidator) db_call" where
  "GetValidator order context address height =
     db_bind (getBFTParams order (params_store context) height) (\<lambda>params.
       case find (\<lambda>validator. Equal (bv_address validator) address) (bp_validators params) of
         Some validator \<Rightarrow> db_return validator
       | None \<Rightarrow> db_error Err_not_validator)"

definition GetCurrentValidators ::
    "(cacheDB \<Rightarrow> bytes list) \<Rightarrow> Database \<Rightarrow> (bft_error, BFTValidator list) db_call" where
  "GetCurrentValidators order context =
     db_bind (db_decode BFTVotes_Decode (votes_store context) emptyKey) (\<lambda>bftVotes.
       case vt_blockBFTInfos bftVotes of
         [] \<Rightarrow> db_error ErrBFTParamsNotFound
       | latest # _ \<Rightarrow>
           db_bind (getBFTParams order (params_store context) (bb_height latest)) (\<lambda>params.
             db_return (bp_validators params)))"

section \<open>What a block header votes for\<close>

lemma ints_Max2: "(ints_Max [a, b] :: ('e, 'a :: linorder) outcome) = Return (max a b)"
  by (auto simp: ints_Max_def sort_slice_def max_def)

lemma ints_Max3: "(ints_Max [a, b, c] :: ('e, 'a :: linorder) outcome) = Return (max a (max b c))"
  by (auto simp: ints_Max_def sort_slice_def max_def)

lemma db_lift_Return [simp]: "db_lift (Return x) = db_return x"
  by (simp add: db_lift_def db_return_def)

lemma BFTValidators_Get_eq: "BFTValidators_Get vs address = find (\<lambda>v. bv_address v = address) vs"
  by (induction vs) auto

lemma BFTValidators_Find_eq: "BFTValidators_Find vs address = find (\<lambda>v. bv_address v = address) vs"
  by (induction vs) auto

lemma ActiveValidators_get_eq: "ActiveValidators_get vs address = find (\<lambda>v. av_address v = address) vs"
  by (induction vs) auto

text \<open>The parameters of every height the votes look at are cached; \<open>p\<close> gives them by height.\<close>

definition cached :: "bftParamsCache \<Rightarrow> (u32 \<Rightarrow> BFTParams) \<Rightarrow> BFTBlockHeader list \<Rightarrow> bool" where
  "cached c p infos \<longleftrightarrow> (\<forall>b \<in> set infos. pc_data c (bb_height b) = Some (p (bb_height b)))"

lemma cached_Cons: "cached c p (b # infos) \<longleftrightarrow> pc_data c (bb_height b) = Some (p (bb_height b)) \<and> cached c p infos"
  by (auto simp: cached_def)

lemma cached_heights: "map bb_height xs = map bb_height ys \<Longrightarrow> cached c p xs \<longleftrightarrow> cached c p ys"
proof -
  assume "map bb_height xs = map bb_height ys"
  then have "bb_height ` set xs = bb_height ` set ys" by (metis list.set_map)
  moreover have "cached c p zs \<longleftrightarrow> (\<forall>h \<in> bb_height ` set zs. pc_data c h = Some (p h))" for zs
    by (auto simp: cached_def)
  ultimately show ?thesis by (simp only:)
qed

lemma GetParameters_cached: "pc_data c h = Some q \<Longrightarrow> GetParameters order c h = db_return (q, c)"
  by (simp add: GetParameters_def)

definition descending :: "BFTBlockHeader list \<Rightarrow> bool" where
  "descending infos \<longleftrightarrow> sorted_wrt (\<lambda>x y. bb_height y < bb_height x) infos"

definition weight_at :: "(u32 \<Rightarrow> BFTParams) \<Rightarrow> bytes \<Rightarrow> u32 \<Rightarrow> u64" where
  "weight_at p generator h =
     (case BFTValidators_Get (bp_validators (p h)) generator of None \<Rightarrow> 0 | Some v \<Rightarrow> bv_bftWeight v)"

definition prevoted :: "(u32 \<Rightarrow> BFTParams) \<Rightarrow> BFTBlockHeader \<Rightarrow> bool" where
  "prevoted p b \<longleftrightarrow> bp_prevoteThreshold (p (bb_height b)) \<le> bb_prevoteWeight b"

definition precommitted :: "(u32 \<Rightarrow> BFTParams) \<Rightarrow> BFTBlockHeader \<Rightarrow> bool" where
  "precommitted p b \<longleftrightarrow> bp_precommitThreshold (p (bb_height b)) \<le> bb_precommitWeight b"

definition add_prevote :: "(u32 \<Rightarrow> BFTParams) \<Rightarrow> bytes \<Rightarrow> u32 \<Rightarrow> BFTBlockHeader \<Rightarrow> BFTBlockHeader" where
  "add_prevote p generator lo b =
     (if lo \<le> bb_height b
      then b\<lparr>bb_prevoteWeight := bb_prevoteWeight b + weight_at p generator (bb_height b)\<rparr> else b)"

definition add_precommit :: "(u32 \<Rightarrow> BFTParams) \<Rightarrow> bytes \<Rightarrow> u32 \<Rightarrow> BFTBlockHeader \<Rightarrow> BFTBlockHeader" where
  "add_precommit p generator lo b =
     (if lo \<le> bb_height b \<and> prevoted p b
      then b\<lparr>bb_precommitWeight := bb_precommitWeight b + weight_at p generator (bb_height b)\<rparr> else b)"

lemma add_prevote_simps [simp]:
  "bb_height (add_prevote p g lo b) = bb_height b"
  "bb_generatorAddress (add_prevote p g lo b) = bb_generatorAddress b"
  "bb_maxHeightGenerated (add_prevote p g lo b) = bb_maxHeightGenerated b"
  "bb_maxHeightPrevoted (add_prevote p g lo b) = bb_maxHeightPrevoted b"
  "bb_precommitWeight (add_prevote p g lo b) = bb_precommitWeight b"
  by (simp_all add: add_prevote_def)

lemma add_precommit_simps [simp]:
  "bb_height (add_precommit p g lo b) = bb_height b"
  "bb_generatorAddress (add_precommit p g lo b) = bb_generatorAddress b"
  "bb_maxHeightGenerated (add_precommit p g lo b) = bb_maxHeightGenerated b"
  "bb_maxHeightPrevoted (add_precommit p g lo b) = bb_maxHeightPrevoted b"
  "bb_prevoteWeight (add_precommit p g lo b) = bb_prevoteWeight b"
  by (simp_all add: add_precommit_def)

lemma add_below: "\<forall>b \<in> set infos. bb_height b < lo \<Longrightarrow>
    map (add_prevote p g lo) infos = infos \<and> map (add_precommit p g lo) infos = infos"
  by (induction infos) (auto simp: add_prevote_def add_precommit_def)

lemma descending_Cons:
  "descending (b # infos) \<longleftrightarrow> (\<forall>x \<in> set infos. bb_height x < bb_height b) \<and> descending infos"
  by (simp add: descending_def)

text \<open>The validator is in the parameters of every block it votes for.\<close>

definition known_validator ::
    "(u32 \<Rightarrow> BFTParams) \<Rightarrow> bytes \<Rightarrow> (BFTBlockHeader \<Rightarrow> bool) \<Rightarrow> BFTBlockHeader list \<Rightarrow> bool" where
  "known_validator p generator votes infos \<longleftrightarrow>
     (\<forall>b \<in> set infos. votes b \<longrightarrow> BFTValidators_Get (bp_validators (p (bb_height b))) generator \<noteq> None)"

lemma known_validator_Cons:
  "known_validator p g votes (b # infos) \<longleftrightarrow>
   (votes b \<longrightarrow> BFTValidators_Get (bp_validators (p (bb_height b))) g \<noteq> None) \<and> known_validator p g votes infos"
  by (auto simp: known_validator_def)

lemma known_validator_none: "\<forall>b \<in> set infos. \<not> votes b \<Longrightarrow> known_validator p g votes infos"
  by (simp add: known_validator_def)

lemma descending_below:
  "descending (b # infos) \<Longrightarrow> bb_height b < lo \<Longrightarrow> \<forall>x \<in> set (b # infos). bb_height x < lo"
  by (auto simp: descending_Cons)

lemma prevote_loop_eq:
  assumes "cached c p infos" "descending infos"
  shows "prevote_loop order generator lo infos c =
    (if known_validator p generator (\<lambda>b. lo \<le> bb_height b) infos
     then db_return (map (add_prevote p generator lo) infos, c) else db_error Err_validator_not_in_params)"
  using assms
proof (induction infos)
  case (Cons b infos)
  show ?case
  proof (cases "bb_height b < lo")
    case True
    then have below: "\<forall>x \<in> set (b # infos). bb_height x < lo" using Cons.prems(2) by (rule descending_below [rotated])
    then have "known_validator p generator (\<lambda>b. lo \<le> bb_height b) (b # infos)"
      by (intro known_validator_none) (simp add: not_le)
    then show ?thesis using add_below [OF below, of p generator] True by simp
  next
    case False
    then have le: "lo \<le> bb_height b" by (simp add: not_less)
    have IH: "prevote_loop order generator lo infos c =
        (if known_validator p generator (\<lambda>b. lo \<le> bb_height b) infos
         then db_return (map (add_prevote p generator lo) infos, c) else db_error Err_validator_not_in_params)"
      using Cons by (simp add: cached_Cons descending_Cons)
    have "add_prevote p generator lo b = b\<lparr>bb_prevoteWeight := bb_prevoteWeight b + bv_bftWeight v\<rparr>"
      if "BFTValidators_Get (bp_validators (p (bb_height b))) generator = Some v" for v
      using False that by (simp add: add_prevote_def weight_at_def)
    then show ?thesis using False le Cons.prems(1) IH
      by (simp add: cached_Cons GetParameters_cached known_validator_Cons split: option.split)
  qed
qed (simp add: known_validator_def)

definition largest_precommit ::
    "(u32 \<Rightarrow> BFTParams) \<Rightarrow> bytes \<Rightarrow> u32 \<Rightarrow> BFTBlockHeader list \<Rightarrow> ActiveValidator list \<Rightarrow> ActiveValidator list" where
  "largest_precommit p generator lo infos active =
     (case find (\<lambda>b. lo \<le> bb_height b \<and> prevoted p b) infos of
        None \<Rightarrow> active
      | Some b \<Rightarrow> set_largestHeightPrecommit active generator (bb_height b))"

lemma precommit_loop_eq:
  assumes "cached c p infos" "descending infos"
  shows "precommit_loop order generator lo has infos active c =
    (if known_validator p generator (\<lambda>b. lo \<le> bb_height b \<and> prevoted p b) infos
     then db_return (map (add_precommit p generator lo) infos,
            if has then active else largest_precommit p generator lo infos active, c)
     else db_error Err_validator_not_in_params)"
  using assms
proof (induction infos arbitrary: has active)
  case (Cons b infos)
  let ?votes = "\<lambda>b. lo \<le> bb_height b \<and> prevoted p b"
  show ?case
  proof (cases "bb_height b < lo")
    case True
    then have below: "\<forall>x \<in> set (b # infos). bb_height x < lo" using Cons.prems(2) by (rule descending_below [rotated])
    then have none: "\<forall>x \<in> set (b # infos). \<not> ?votes x" by (simp add: not_le)
    then have "find ?votes (b # infos) = None" unfolding find_None_iff by blast
    then show ?thesis using add_below [OF below, of p generator] known_validator_none [OF none] True
      by (simp add: largest_precommit_def)
  next
    case False
    then have le: "lo \<le> bb_height b" by (simp add: not_less)
    have IH: "precommit_loop order generator lo has' infos active' c =
        (if known_validator p generator ?votes infos
         then db_return (map (add_precommit p generator lo) infos,
            if has' then active' else largest_precommit p generator lo infos active', c)
         else db_error Err_validator_not_in_params)" for has' active'
      using Cons by (simp add: cached_Cons descending_Cons)
    have "add_precommit p generator lo b =
        (if prevoted p b then b\<lparr>bb_precommitWeight := bb_precommitWeight b + bv_bftWeight v\<rparr> else b)"
      if "BFTValidators_Get (bp_validators (p (bb_height b))) generator = Some v" for v
      using False that by (simp add: add_precommit_def weight_at_def)
    moreover have "\<not> prevoted p b \<Longrightarrow> add_precommit p generator lo b = b" by (simp add: add_precommit_def)
    moreover have "largest_precommit p generator lo (b # infos) active =
        (if prevoted p b then set_largestHeightPrecommit active generator (bb_height b)
         else largest_precommit p generator lo infos active)"
      using False by (simp add: largest_precommit_def not_less)
    ultimately show ?thesis
      using False le Cons.prems(1)
      by (simp add: cached_Cons GetParameters_cached IH known_validator_Cons flip: prevoted_def split: option.split)
  qed
qed (simp add: largest_precommit_def known_validator_def)

text \<open>The window of the last block headers: the heights go down one by one.\<close>

definition consecutive :: "BFTBlockHeader list \<Rightarrow> bool" where
  "consecutive infos \<longleftrightarrow>
     (\<forall>i < length infos. unat (bb_height (infos ! i)) + i = unat (bb_height (hd infos)))"

lemma consecutive_descending: "consecutive infos \<Longrightarrow> descending infos"
  unfolding descending_def sorted_wrt_iff_nth_less word_less_nat_alt
proof (intro allI impI)
  fix i j assume "consecutive infos" "i < j" "j < length infos"
  then have "unat (bb_height (infos ! i)) + i = unat (bb_height (infos ! j)) + j" by (simp add: consecutive_def)
  then show "unat (bb_height (infos ! j)) < unat (bb_height (infos ! i))" using \<open>i < j\<close> by linarith
qed

lemma consecutive_latest: "consecutive infos \<Longrightarrow> b \<in> set infos \<Longrightarrow> bb_height b \<le> bb_height (hd infos)"
  unfolding consecutive_def word_le_nat_alt in_set_conv_nth by (auto intro: le_add1 dest: spec)

lemma consecutive_map:
  "consecutive infos \<longleftrightarrow>
   (let hs = map bb_height infos in \<forall>i < length hs. unat (hs ! i) + i = unat (hd hs))"
  by (cases infos) (auto simp: consecutive_def Let_def nth_Cons split: nat.splits)

lemma consecutive_heights: "map bb_height xs = map bb_height ys \<Longrightarrow> consecutive xs \<longleftrightarrow> consecutive ys"
  by (simp only: consecutive_map)

text \<open>A header prevotes for the heights above the one it announces and up to its own.\<close>

definition prevotes_for :: "BFTBlockHeader \<Rightarrow> u32 \<Rightarrow> bool" where
  "prevotes_for b k \<longleftrightarrow> bb_maxHeightGenerated b < k \<and> k \<le> bb_height b"

definition covered :: "BFTBlockHeader list \<Rightarrow> bytes \<Rightarrow> u32 \<Rightarrow> bool" where
  "covered infos generator k \<longleftrightarrow> (\<exists>b \<in> set infos. bb_generatorAddress b = generator \<and> prevotes_for b k)"

lemma heightNotPrevoted_loop_covers:
  assumes "consecutive infos" "infos \<noteq> []" "current = bb_height (hd infos)" "hp < current"
    and "\<forall>k. hp < k \<and> k \<le> current \<longrightarrow> covered infos g k"
  shows "\<exists>h. (heightNotPrevoted_loop infos current g hp :: ('e, u32) outcome) = Return h
    \<and> (\<forall>b \<in> set infos. h + 1 \<le> bb_height b \<longrightarrow> covered infos g (bb_height b))"
  using assms
proof (induction infos current g hp rule: heightNotPrevoted_loop.induct)
  case (1 infos current g hp)
  let ?i = "unat (current - hp)"
  have hp: "unat hp < unat current" using "1.prems"(4) by (simp only: word_less_nat_alt)
  have u: "uint current = int (unat current)" "uint hp = int (unat hp)" by simp_all
  have i: "?i = unat current - unat hp" using hp by (simp add: unat_sub word_le_nat_alt)
  show ?case
  proof (cases "uint current - uint hp < int (length infos)")
    case True
    then have len: "?i < length infos" using i hp u by linarith
    let ?b = "infos ! ?i"
    have "unat (bb_height ?b) + ?i = unat current" using "1.prems"(1,3) len by (simp add: consecutive_def)
    then have b: "bb_height ?b = hp" using i hp by (simp add: word_unat_eq_iff)
    show ?thesis
    proof (cases "\<not> Equal (bb_generatorAddress ?b) g \<or> bb_maxHeightGenerated ?b \<ge> hp")
      case stop: True
      have "hp + 1 \<le> k \<Longrightarrow> hp < k" for k using "1.prems"(4) by uint_arith
      then have "\<forall>b \<in> set infos. hp + 1 \<le> bb_height b \<longrightarrow> covered infos g (bb_height b)"
        using "1.prems"(3,5) consecutive_latest [OF "1.prems"(1)] by blast
      moreover have "(heightNotPrevoted_loop infos current g hp :: ('e, u32) outcome) = Return hp"
        using True stop len by (subst heightNotPrevoted_loop.simps) simp
      ultimately show ?thesis by blast
    next
      case go: False
      let ?h = "bb_maxHeightGenerated ?b"
      have "covered infos g k" if "?h < k" "k \<le> current" for k
      proof (cases "hp < k")
        case False
        then have "prevotes_for ?b k" using that b by (simp add: prevotes_for_def)
        then show ?thesis using go len unfolding covered_def by auto
      qed (use that "1.prems"(5) in blast)
      then have "\<exists>h. (heightNotPrevoted_loop infos current g ?h :: ('e, u32) outcome) = Return h
          \<and> (\<forall>b \<in> set infos. h + 1 \<le> bb_height b \<longrightarrow> covered infos g (bb_height b))"
        using "1.IH" [OF True refl _ refl go] "1.prems"(1,2,3) order_less_trans [OF _ "1.prems"(4), of ?h] go len
        by (simp add: not_le)
      moreover have "(heightNotPrevoted_loop infos current g hp :: ('e, u32) outcome)
          = heightNotPrevoted_loop infos current g ?h"
        using True go len by (subst heightNotPrevoted_loop.simps) simp
      ultimately show ?thesis by (simp only:)
    qed
  next
    case False
    have "covered infos g (bb_height b)" if b: "b \<in> set infos" for b
    proof -
      obtain j where j: "j < length infos" "b = infos ! j" using b by (auto simp: in_set_conv_nth)
      then have "unat (bb_height b) + j = unat current" using "1.prems"(1,3) by (simp add: consecutive_def)
      moreover have "length infos \<le> unat current - unat hp" using False hp u by linarith
      ultimately have "hp < bb_height b" "bb_height b \<le> current"
        using j(1) hp by (simp_all add: word_less_nat_alt word_le_nat_alt)
      then show ?thesis using "1.prems"(5) by blast
    qed
    moreover have "(heightNotPrevoted_loop infos current g hp :: ('e, u32) outcome) = Return (bb_height (last infos) - 1)"
      using False by (subst heightNotPrevoted_loop.simps) simp
    ultimately show ?thesis by blast
  qed
qed

lemma getHeightNotPrevoted_covers:
  assumes "vt_blockBFTInfos v = new # rest" "consecutive (new # rest)" "bb_maxHeightGenerated new < bb_height new"
  shows "\<exists>h. (getHeightNotPrevoted v :: ('e, u32) outcome) = Return h
    \<and> (\<forall>b \<in> set (new # rest). h + 1 \<le> bb_height b
        \<longrightarrow> covered (new # rest) (bb_generatorAddress new) (bb_height b))"
proof -
  have "\<forall>k. bb_maxHeightGenerated new < k \<and> k \<le> bb_height new
      \<longrightarrow> covered (new # rest) (bb_generatorAddress new) k"
    by (auto simp: covered_def prevotes_for_def)
  then show ?thesis
    using heightNotPrevoted_loop_covers [OF assms(2), of "bb_height new" "bb_maxHeightGenerated new"] assms(1,3)
    by (auto simp: getHeightNotPrevoted_def)
qed


text \<open>The first height a header precommits to, and the first one it prevotes for.\<close>

definition min_precommit :: "ActiveValidator \<Rightarrow> u32 \<Rightarrow> u32" where
  "min_precommit info h = max (av_minActiveHeight info) (max (h + 1) (av_largestHeightPrecommit info + 1))"

definition min_prevote :: "BFTBlockHeader \<Rightarrow> ActiveValidator \<Rightarrow> u32" where
  "min_prevote new info = max (bb_maxHeightGenerated new + 1) (av_minActiveHeight info)"

lemma known_validator_map:
  assumes "\<And>b. bb_height (f b) = bb_height b" "\<And>b. votes (f b) = votes b"
  shows "known_validator p g votes (map f infos) \<longleftrightarrow> known_validator p g votes infos"
  by (simp add: known_validator_def assms)

lemma descending_heights: "map bb_height xs = map bb_height ys \<Longrightarrow> descending xs \<longleftrightarrow> descending ys"
  unfolding descending_def by (simp flip: sorted_wrt_map [of "\<lambda>x y. y < x" bb_height])

lemma updatePrevotesPrecommits_eq:
  assumes "vt_blockBFTInfos v = new # rest" "bb_maxHeightGenerated new < bb_height new"
    and "ActiveValidators_get (vt_activeValidatorsVoteInfo v) (bb_generatorAddress new) = Some info"
    and "getHeightNotPrevoted v = (Return h :: (bft_error, u32) outcome)"
    and "cached c p (new # rest)" "descending (new # rest)"
  shows "updatePrevotesPrecommits order v c =
    (if known_validator p (bb_generatorAddress new) (\<lambda>b. min_precommit info h \<le> bb_height b \<and> prevoted p b
          \<or> min_prevote new info \<le> bb_height b) (new # rest)
     then db_return (v\<lparr>vt_blockBFTInfos := map (add_prevote p (bb_generatorAddress new) (min_prevote new info)
        \<circ> add_precommit p (bb_generatorAddress new) (min_precommit info h)) (new # rest),
      vt_activeValidatorsVoteInfo := largest_precommit p (bb_generatorAddress new) (min_precommit info h)
        (new # rest) (vt_activeValidatorsVoteInfo v)\<rparr>, c)
     else db_error Err_validator_not_in_params)"
proof -
  let ?g = "bb_generatorAddress new" and ?lo = "min_precommit info h" and ?lo' = "min_prevote new info"
  let ?infos = "map (add_precommit p ?g ?lo) (new # rest)"
  have hs: "map bb_height ?infos = map bb_height (new # rest)" by simp
  have nle: "\<not> bb_height new \<le> bb_maxHeightGenerated new" using assms(2) by simp
  note pre = precommit_loop_eq [OF assms(5,6), of order ?g ?lo False "vt_activeValidatorsVoteInfo v"]
  have "prevote_loop order ?g ?lo' ?infos c =
      (if known_validator p ?g (\<lambda>b. ?lo' \<le> bb_height b) (new # rest)
       then db_return (map (add_prevote p ?g ?lo') ?infos, c) else db_error Err_validator_not_in_params)"
    using prevote_loop_eq [of c p ?infos order ?g ?lo'] assms(5,6)
      cached_heights [OF hs] descending_heights [OF hs]
      known_validator_map [of "add_precommit p ?g ?lo" "\<lambda>b. ?lo' \<le> bb_height b"]
    by (simp del: prevote_loop.simps list.map)
  moreover have "known_validator p ?g (\<lambda>b. ?lo \<le> bb_height b \<and> prevoted p b \<or> ?lo' \<le> bb_height b) (new # rest) \<longleftrightarrow>
      known_validator p ?g (\<lambda>b. ?lo \<le> bb_height b \<and> prevoted p b) (new # rest)
      \<and> known_validator p ?g (\<lambda>b. ?lo' \<le> bb_height b) (new # rest)"
    by (auto simp: known_validator_def)
  ultimately show ?thesis
    using assms(1,3,4) nle pre
    by (simp add: updatePrevotesPrecommits_def ints_Max2 ints_Max3 del: precommit_loop.simps prevote_loop.simps list.map
        flip: min_precommit_def min_prevote_def)
qed


definition sample_info :: "u32 \<Rightarrow> bytes \<Rightarrow> u32 \<Rightarrow> u64 \<Rightarrow> BFTBlockHeader" where
  "sample_info height generator generated prevotes =
     \<lparr>bb_height = height, bb_generatorAddress = generator, bb_maxHeightGenerated = generated,
      bb_maxHeightPrevoted = 0, bb_prevoteWeight = prevotes, bb_precommitWeight = 0\<rparr>"

definition sample_votes :: BFTVotes where
  "sample_votes =
     \<lparr>vt_maxHeightPrevoted = 1, vt_maxHeightPrecommited = 0, vt_maxHeightCertified = 0,
      vt_blockBFTInfos = [sample_info 3 [1] 1 0, sample_info 2 [2] 0 5, sample_info 1 [1] 0 5],
      vt_activeValidatorsVoteInfo =
        [\<lparr>av_address = [1], av_minActiveHeight = 1, av_largestHeightPrecommit = 0\<rparr>]\<rparr>"

definition sample_params :: BFTParams where
  "sample_params =
     \<lparr>bp_prevoteThreshold = 5, bp_precommitThreshold = 5, bp_certificateThreshold = 5,
      bp_validators = [\<lparr>bv_address = [1], bv_bftWeight = 4, bv_blsKey = []\<rparr>,
                       \<lparr>bv_address = [2], bv_bftWeight = 3, bv_blsKey = []\<rparr>],
      bp_validatorsHash = []\<rparr>"

definition sample_cache :: bftParamsCache where
  "sample_cache =
     \<lparr>pc_paramsStore = \<lparr>d_prefix = [], d_cache = 0, d_snapshots = Map.empty, d_snapshotCount = 0\<rparr>,
      pc_data = (\<lambda>_. Some sample_params)\<rparr>"

lemma sample_infos: "consecutive [sample_info 3 [1] 1 0, sample_info 2 [2] 0 5, sample_info 1 [1] 0 5]"
  by (auto simp: consecutive_def sample_info_def nth_Cons split: nat.splits)


section \<open>The heights that votes justify\<close>

lemma updateMaxHeightPrevoted_eq:
  assumes "cached c p (vt_blockBFTInfos v)"
  shows "updateMaxHeightPrevoted order v c =
    db_return (case find (prevoted p) (vt_blockBFTInfos v) of
        None \<Rightarrow> v | Some b \<Rightarrow> v\<lparr>vt_maxHeightPrevoted := bb_height b\<rparr>, c)"
proof -
  have "cached c p infos \<Longrightarrow> updateMaxHeightPrevoted_loop order v infos c =
    db_return (case find (prevoted p) infos of None \<Rightarrow> v | Some b \<Rightarrow> v\<lparr>vt_maxHeightPrevoted := bb_height b\<rparr>, c)" for infos
    by (induction infos) (auto simp: cached_Cons GetParameters_cached prevoted_def)
  then show ?thesis using assms by (simp add: updateMaxHeightPrevoted_def)
qed

lemma updateMaxHeightPrecommitted_eq:
  assumes "cached c p (vt_blockBFTInfos v)"
  shows "updateMaxHeightPrecommitted order v c =
    db_return (case find (precommitted p) (vt_blockBFTInfos v) of
        None \<Rightarrow> v | Some b \<Rightarrow> v\<lparr>vt_maxHeightPrecommited := bb_height b\<rparr>, c)"
proof -
  have "cached c p infos \<Longrightarrow> updateMaxHeightPrecommitted_loop order v infos c =
    db_return (case find (precommitted p) infos of None \<Rightarrow> v | Some b \<Rightarrow> v\<lparr>vt_maxHeightPrecommited := bb_height b\<rparr>, c)" for infos
    by (induction infos) (auto simp: cached_Cons GetParameters_cached precommitted_def)
  then show ?thesis using assms by (simp add: updateMaxHeightPrecommitted_def)
qed

text \<open>
  A recorded height \<open>m\<close> is not above the last block, and the block of the window at that height
  has the votes \<open>P\<close> asks for.
\<close>

definition recorded :: "(BFTBlockHeader \<Rightarrow> bool) \<Rightarrow> u32 \<Rightarrow> BFTVotes \<Rightarrow> bool" where
  "recorded P m v \<longleftrightarrow> m \<le> current_height v \<and> (\<forall>b \<in> set (vt_blockBFTInfos v). bb_height b = m \<longrightarrow> P b)"

definition votes_inv :: "nat \<Rightarrow> (u32 \<Rightarrow> BFTParams) \<Rightarrow> BFTVotes \<Rightarrow> bool" where
  "votes_inv n p v \<longleftrightarrow>
     consecutive (vt_blockBFTInfos v) \<and> length (vt_blockBFTInfos v) \<le> n
     \<and> recorded (prevoted p) (vt_maxHeightPrevoted v) v
     \<and> recorded (precommitted p) (vt_maxHeightPrecommited v) v"

definition grown :: "BFTBlockHeader \<Rightarrow> BFTBlockHeader \<Rightarrow> bool" where
  "grown b b' \<longleftrightarrow>
     bb_height b' = bb_height b \<and> bb_prevoteWeight b \<le> bb_prevoteWeight b'
     \<and> bb_precommitWeight b \<le> bb_precommitWeight b'"

lemma grown_refl [simp]: "grown b b"
  by (simp add: grown_def)

lemma grown_heights: "list_all2 grown xs ys \<Longrightarrow> map bb_height ys = map bb_height xs"
  by (induction rule: list_all2_induct) (auto simp: grown_def)

text \<open>No weight of the window wraps around when a validator votes once more.\<close>

definition no_overflow :: "(u32 \<Rightarrow> BFTParams) \<Rightarrow> bytes \<Rightarrow> BFTBlockHeader list \<Rightarrow> bool" where
  "no_overflow p g infos \<longleftrightarrow>
     (\<forall>b \<in> set infos. unat (bb_prevoteWeight b) + unat (weight_at p g (bb_height b)) < 2 ^ 64
        \<and> unat (bb_precommitWeight b) + unat (weight_at p g (bb_height b)) < 2 ^ 64)"

lemma word_le_add: "unat a + unat b < 2 ^ 64 \<Longrightarrow> a \<le> a + b" for a b :: u64
  by (simp add: word_le_nat_alt unat_word_ariths)

lemma grown_votes:
  "no_overflow p g infos \<Longrightarrow> list_all2 grown infos (map (add_prevote p g lo \<circ> add_precommit p g lo') infos)"
  by (auto simp: list.rel_map no_overflow_def grown_def add_prevote_def add_precommit_def word_le_add
      intro!: list.rel_refl_strong)

lemma updatePrevotesPrecommits_grown:
  assumes "cached c p (vt_blockBFTInfos v)" "consecutive (vt_blockBFTInfos v)"
    and "\<forall>b \<in> set (vt_blockBFTInfos v). no_overflow p (bb_generatorAddress b) (vt_blockBFTInfos v)"
    and "updatePrevotesPrecommits order v c w = (Return (v', c'), w')"
  shows "list_all2 grown (vt_blockBFTInfos v) (vt_blockBFTInfos v') \<and> c' = c \<and> w' = w
    \<and> vt_maxHeightPrevoted v' = vt_maxHeightPrevoted v \<and> vt_maxHeightPrecommited v' = vt_maxHeightPrecommited v"
proof (cases "vt_blockBFTInfos v")
  case Nil
  then show ?thesis using assms(4) by (simp add: updatePrevotesPrecommits_def db_return_def)
next
  case (Cons new rest)
  let ?get = "ActiveValidators_get (vt_activeValidatorsVoteInfo v) (bb_generatorAddress new)"
  have refl: "list_all2 grown xs xs" for xs by (simp add: list_all2_refl)
  show ?thesis
  proof (cases "bb_maxHeightGenerated new \<ge> bb_height new \<or> ?get = None")
    case True
    then have "updatePrevotesPrecommits order v c = db_return (v, c)"
      by (cases ?get) (auto simp: updatePrevotesPrecommits_def Cons)
    then show ?thesis using assms(4) refl by (simp add: db_return_def)
  next
    case False
    then obtain info where info: "?get = Some info" and lt: "bb_maxHeightGenerated new < bb_height new" by auto
    obtain h where h: "getHeightNotPrevoted v = (Return h :: (bft_error, u32) outcome)"
      using getHeightNotPrevoted_covers [OF Cons _ lt] assms(2) Cons by auto
    note eq = updatePrevotesPrecommits_eq [OF Cons lt info h assms(1) [unfolded Cons]
        consecutive_descending [OF assms(2) [unfolded Cons]], of order]
    show ?thesis
      using assms(3,4) eq grown_votes [of p "bb_generatorAddress new" "new # rest"]
      by (auto simp: Cons db_return_def db_error_def split: if_splits)
  qed
qed

lemma descending_unique:
  assumes "descending infos" "b \<in> set infos" "b' \<in> set infos" "bb_height b = bb_height b'"
  shows "b = b'"
  using assms by (induction infos) (auto simp: descending_Cons)

lemma consecutive_between:
  assumes "consecutive infos" "b \<in> set infos" "bb_height b \<le> m" "m \<le> bb_height (hd infos)"
  shows "\<exists>b' \<in> set infos. bb_height b' = m"
proof -
  obtain i where i: "i < length infos" "b = infos ! i" using assms(2) by (auto simp: in_set_conv_nth)
  let ?j = "unat (bb_height (hd infos)) - unat m"
  have le: "unat (bb_height b) \<le> unat m" "unat m \<le> unat (bb_height (hd infos))"
    using assms(3,4) by (simp_all only: word_le_nat_alt)
  have "unat (bb_height b) + i = unat (bb_height (hd infos))" using assms(1) i by (simp add: consecutive_def)
  then have j: "?j < length infos" using i(1) le by linarith
  then have "unat (bb_height (infos ! ?j)) + ?j = unat (bb_height (hd infos))" using assms(1) by (simp add: consecutive_def)
  then have "bb_height (infos ! ?j) = m" using le by (simp add: word_unat_eq_iff)
  then show ?thesis using j by force
qed

lemma find_highest:
  assumes "descending infos" "find P infos = Some b" "b' \<in> set infos" "P b'"
  shows "bb_height b' \<le> bb_height b"
  using assms by (induction infos) (auto simp: descending_Cons split: if_splits)

text \<open>Recording the highest justified block of the window keeps the record and never lowers it.\<close>

lemma record_highest:
  assumes con: "consecutive infos" "infos \<noteq> []"
    and old: "m \<le> bb_height (hd infos)" "\<forall>b \<in> set infos. bb_height b = m \<longrightarrow> P b"
    and m': "m' = (case find P infos of None \<Rightarrow> m | Some b \<Rightarrow> bb_height b)"
  shows "m \<le> m' \<and> m' \<le> bb_height (hd infos) \<and> (\<forall>b \<in> set infos. bb_height b = m' \<longrightarrow> P b)"
proof (cases "find P infos")
  case None
  then show ?thesis using old m' by simp
next
  case (Some b)
  have b: "b \<in> set infos" "P b" using Some by (auto simp: find_Some_iff)
  have m: "m' = bb_height b" using Some m' by simp
  note desc = consecutive_descending [OF con(1)]
  have "m \<le> m'"
  proof (rule ccontr)
    assume "\<not> m \<le> m'"
    then obtain b' where "b' \<in> set infos" "bb_height b' = m"
      using consecutive_between [OF con(1) b(1), of m] old(1) m by (auto simp: not_le order_less_imp_le)
    then show False using find_highest [OF desc Some, of b'] old(2) m \<open>\<not> m \<le> m'\<close> by simp
  qed
  moreover have "P b'" if "b' \<in> set infos" "bb_height b' = m'" for b'
    using descending_unique [OF desc that(1) b(1)] that(2) m b(2) by simp
  ultimately show ?thesis using consecutive_latest [OF con(1) b(1)] m by simp
qed

lemma unat_next: "x < x + 1 \<Longrightarrow> unat (x + 1) = unat x + 1" for x :: u32
  by unat_arith

lemma insert_consecutive:
  assumes "consecutive (vt_blockBFTInfos v)" "bh_Height header = current_height v + 1" "current_height v < bh_Height header"
    and "(insertBlockBFTInfo v header (int n) :: ('e, BFTVotes) outcome) = Return v1" "0 < n"
  shows "\<exists>new. vt_blockBFTInfos v1 = new # take (n - 1) (vt_blockBFTInfos v) \<and> consecutive (vt_blockBFTInfos v1)
    \<and> bb_height new = bh_Height header \<and> bb_generatorAddress new = bh_GeneratorAddress header
    \<and> v1 = v\<lparr>vt_blockBFTInfos := vt_blockBFTInfos v1\<rparr>"
proof -
  obtain new where v1: "v1 = v\<lparr>vt_blockBFTInfos := new # take (n - 1) (vt_blockBFTInfos v)\<rparr>"
    "bb_height new = bh_Height header" "bb_generatorAddress new = bh_GeneratorAddress header"
    using assms(4,5) by (auto simp: insertBlockBFTInfo_def Let_def split: if_splits)
  have up: "unat (bh_Height header) = unat (current_height v) + 1"
    using assms(2,3) unat_next by simp
  have "consecutive (new # take (n - 1) (vt_blockBFTInfos v))"
  proof (cases "vt_blockBFTInfos v")
    case (Cons b bs)
    then have old: "unat (bb_height ((b # bs) ! i)) + i = unat (current_height v)" if "i < length (b # bs)" for i
      using assms(1) that by (simp add: consecutive_def current_height_def)
    have "unat (bb_height ((new # take (n - 1) (b # bs)) ! i)) + i = unat (bb_height new)"
      if "i < length (new # take (n - 1) (b # bs))" for i
      using that old [of "i - 1"] up v1(2) by (cases i) auto
    then show ?thesis unfolding consecutive_def Cons by simp
  qed (simp add: consecutive_def)
  then show ?thesis using v1 by simp
qed

lemma old_record:
  assumes "recorded P m v" "\<And>b b'. grown b b' \<Longrightarrow> P b \<Longrightarrow> P b'"
    and "list_all2 grown infos1 infos2" "infos1 = new # take k (vt_blockBFTInfos v)" "m < bb_height new"
  shows "\<forall>b \<in> set infos2. bb_height b = m \<longrightarrow> P b"
proof (intro ballI impI)
  fix b' assume b': "b' \<in> set infos2" "bb_height b' = m"
  obtain i where "i < length infos2" "b' = infos2 ! i" using b'(1) by (auto simp: in_set_conv_nth)
  then have "infos1 ! i \<in> set infos1" "grown (infos1 ! i) b'" using assms(3)
    by (simp_all add: list_all2_conv_all_nth)
  then obtain b where b: "b \<in> set infos1" "grown b b'" by blast
  then have "b \<in> set (vt_blockBFTInfos v)" "bb_height b = m"
    using assms(4,5) b'(2) in_set_takeD by (fastforce simp: grown_def)+
  then show "P b'" using assms(1,2) b(2) by (auto simp: recorded_def)
qed

lemma update_max_heights:
  assumes "cached c p (vt_blockBFTInfos v2)" "updateMaxHeightPrevoted order v2 c w2 = (Return (v3, c3), w3)"
    and "updateMaxHeightPrecommitted order v3 c3 w3 = (Return (v4, c4), w4)"
  shows "vt_blockBFTInfos v4 = vt_blockBFTInfos v2
    \<and> vt_maxHeightPrevoted v4 =
        (case find (prevoted p) (vt_blockBFTInfos v2) of None \<Rightarrow> vt_maxHeightPrevoted v2 | Some b \<Rightarrow> bb_height b)
    \<and> vt_maxHeightPrecommited v4 =
        (case find (precommitted p) (vt_blockBFTInfos v2) of None \<Rightarrow> vt_maxHeightPrecommited v2 | Some b \<Rightarrow> bb_height b)"
proof -
  have v3: "c3 = c" "v3 = (case find (prevoted p) (vt_blockBFTInfos v2) of None \<Rightarrow> v2 | Some b \<Rightarrow> v2\<lparr>vt_maxHeightPrevoted := bb_height b\<rparr>)"
    using assms(2) updateMaxHeightPrevoted_eq [OF assms(1), of order] by (simp_all add: db_return_def)
  then have i3: "vt_blockBFTInfos v3 = vt_blockBFTInfos v2" by (simp split: option.splits)
  then have "v4 = (case find (precommitted p) (vt_blockBFTInfos v2) of None \<Rightarrow> v3 | Some b \<Rightarrow> v3\<lparr>vt_maxHeightPrecommited := bb_height b\<rparr>)"
    using assms(1,3) updateMaxHeightPrecommitted_eq [of c p v3 order] v3(1) by (simp add: db_return_def)
  then show ?thesis using v3(2) by (auto split: option.splits)
qed

text \<open>
  C23: the heights that count as prevoted and as finalised never go down.  Processing the header of the
  next height keeps the window of the last headers consecutive and within its length, and keeps
  the invariant that a recorded height has the votes it needs; the new recorded heights are at
  least the old ones.
\<close>

theorem recorded_heights_increase:
  assumes inv: "votes_inv n p v" and n: "0 < n"
    and "next": "bh_Height header = current_height v + 1" "current_height v < bh_Height header"
    and steps: "insertBlockBFTInfo v header (int n) = (Return v1 :: (bft_error, _) outcome)"
      "updatePrevotesPrecommits order v1 c w = (Return (v2, c2), w2)"
      "updateMaxHeightPrevoted order v2 c2 w2 = (Return (v3, c3), w3)"
      "updateMaxHeightPrecommitted order v3 c3 w3 = (Return (v4, c4), w4)"
    and params: "cached c p (vt_blockBFTInfos v1)"
    and weights: "\<forall>b \<in> set (vt_blockBFTInfos v1). no_overflow p (bb_generatorAddress b) (vt_blockBFTInfos v1)"
  shows "votes_inv n p v4 \<and> vt_maxHeightPrevoted v \<le> vt_maxHeightPrevoted v4
    \<and> vt_maxHeightPrecommited v \<le> vt_maxHeightPrecommited v4"
proof -
  have con: "consecutive (vt_blockBFTInfos v)" using inv by (simp add: votes_inv_def)
  obtain new where v1: "vt_blockBFTInfos v1 = new # take (n - 1) (vt_blockBFTInfos v)" "consecutive (vt_blockBFTInfos v1)"
    "bb_height new = bh_Height header" "v1 = v\<lparr>vt_blockBFTInfos := vt_blockBFTInfos v1\<rparr>"
    using insert_consecutive [OF con "next" steps(1) n] by blast
  have g: "list_all2 grown (vt_blockBFTInfos v1) (vt_blockBFTInfos v2)" "c2 = c"
    "vt_maxHeightPrevoted v2 = vt_maxHeightPrevoted v1" "vt_maxHeightPrecommited v2 = vt_maxHeightPrecommited v1"
    using updatePrevotesPrecommits_grown [OF params v1(2) weights steps(2)] by blast+
  have hs: "map bb_height (vt_blockBFTInfos v2) = map bb_height (vt_blockBFTInfos v1)" using grown_heights [OF g(1)] .
  have i2: "consecutive (vt_blockBFTInfos v2)" "vt_blockBFTInfos v2 \<noteq> []" "cached c p (vt_blockBFTInfos v2)"
    using consecutive_heights [OF hs] cached_heights [OF hs] v1 params hs by auto
  let ?H = "bb_height (hd (vt_blockBFTInfos v2))"
  have H: "?H = bh_Height header" using hs v1(1,3) i2(2) by (cases "vt_blockBFTInfos v2") auto
  have old: "m \<le> ?H \<and> (\<forall>b \<in> set (vt_blockBFTInfos v2). bb_height b = m \<longrightarrow> P b)"
    if rec: "recorded P m v" and mono: "\<And>b b'. grown b b' \<Longrightarrow> P b \<Longrightarrow> P b'" for P m
    using old_record [OF rec mono g(1) v1(1)] "next"(2) v1(3) H rec by (auto simp: recorded_def)
  have pv: "recorded (prevoted p) (vt_maxHeightPrevoted v) v" "recorded (precommitted p) (vt_maxHeightPrecommited v) v"
    using inv by (simp_all add: votes_inv_def)
  have "grown b b' \<Longrightarrow> prevoted p b \<Longrightarrow> prevoted p b'" "grown b b' \<Longrightarrow> precommitted p b \<Longrightarrow> precommitted p b'" for b b'
    by (auto simp: grown_def prevoted_def precommitted_def)
  note o = old [OF pv(1) this(1)] old [OF pv(2) this(2)]
  have max: "vt_maxHeightPrevoted v1 = vt_maxHeightPrevoted v" "vt_maxHeightPrecommited v1 = vt_maxHeightPrecommited v"
    by (subst v1(4), simp)+
  have i4: "vt_blockBFTInfos v4 = vt_blockBFTInfos v2"
    using update_max_heights [OF i2(3) steps(3) [unfolded g(2)] steps(4)] by blast
  have "vt_maxHeightPrevoted v4 = (case find (prevoted p) (vt_blockBFTInfos v2) of None \<Rightarrow> vt_maxHeightPrevoted v | Some b \<Rightarrow> bb_height b)"
    "vt_maxHeightPrecommited v4 = (case find (precommitted p) (vt_blockBFTInfos v2) of None \<Rightarrow> vt_maxHeightPrecommited v | Some b \<Rightarrow> bb_height b)"
    using update_max_heights [OF i2(3) steps(3) [unfolded g(2)] steps(4)] g(3,4) max by (simp_all split: option.split)
  note r = record_highest [OF i2(1,2) conjunct1 [OF o(1)] conjunct2 [OF o(1)] this(1)]
    record_highest [OF i2(1,2) conjunct1 [OF o(2)] conjunct2 [OF o(2)] this(2)]
  have "current_height v4 = ?H" using i4 i2(2) by (cases "vt_blockBFTInfos v2") (simp_all add: current_height_def)
  moreover have "length (vt_blockBFTInfos v2) \<le> n" using arg_cong [OF hs, of length] v1(1) n by simp
  ultimately show ?thesis using r i2(1) i4 by (simp add: votes_inv_def recorded_def)
qed

definition sample_header :: BlockHeader where
  "sample_header = BlockHeader_zero\<lparr>bh_Height := 3, bh_GeneratorAddress := [1], bh_MaxHeightGenerated := 1\<rparr>"

definition sample_before :: BFTVotes where
  "sample_before =
     sample_votes\<lparr>vt_maxHeightPrevoted := 2, vt_blockBFTInfos := [sample_info 2 [2] 0 5, sample_info 1 [1] 0 5]\<rparr>"

theorem recorded_heights_increase_witness:
  "\<exists>v4. votes_inv 3 (\<lambda>_. sample_params) v4 \<and> 2 \<le> vt_maxHeightPrevoted v4"
proof -
  let ?p = "\<lambda>_ :: u32. sample_params" and ?new = "sample_info 3 [1] 1 0"
  let ?rest = "[sample_info 2 [2] 0 5, sample_info 1 [1] 0 5]"
  let ?v1 = "sample_before\<lparr>vt_blockBFTInfos := ?new # ?rest\<rparr>"
  have cur: "current_height sample_before = 2" by (simp add: current_height_def sample_before_def sample_info_def)
  have "consecutive ?rest" by (auto simp: consecutive_def sample_info_def nth_Cons split: nat.splits)
  then have inv: "votes_inv 3 ?p sample_before"
    using cur by (auto simp: votes_inv_def recorded_def prevoted_def sample_before_def sample_votes_def
        sample_info_def sample_params_def)
  have "next": "bh_Height sample_header = current_height sample_before + 1" "current_height sample_before < bh_Height sample_header"
    by (simp_all add: cur sample_header_def)
  have ins: "insertBlockBFTInfo sample_before sample_header (int 3) = (Return ?v1 :: (bft_error, _) outcome)"
    by (simp add: insertBlockBFTInfo_def sample_before_def sample_votes_def sample_header_def sample_info_def BlockHeader_zero_def)
  have v1: "vt_blockBFTInfos ?v1 = ?new # ?rest" by simp
  have c: "cached sample_cache ?p (vt_blockBFTInfos ?v1)" by (simp add: cached_def sample_cache_def)
  have lt: "bb_maxHeightGenerated ?new < bb_height ?new" by (simp add: sample_info_def)
  have act: "ActiveValidators_get (vt_activeValidatorsVoteInfo ?v1) (bb_generatorAddress ?new) =
      Some \<lparr>av_address = [1], av_minActiveHeight = 1, av_largestHeightPrecommit = 0\<rparr>"
    by (simp add: sample_before_def sample_votes_def sample_info_def)
  obtain h where h: "getHeightNotPrevoted ?v1 = (Return h :: (bft_error, u32) outcome)"
    using getHeightNotPrevoted_covers [OF v1 sample_infos lt] by blast
  have "known_validator ?p (bb_generatorAddress ?new) votes (?new # ?rest)" for votes
    by (simp add: known_validator_def sample_params_def sample_info_def)
  then obtain v2 where v2: "updatePrevotesPrecommits key_order ?v1 sample_cache sample_world = (Return (v2, sample_cache), sample_world)"
    using updatePrevotesPrecommits_eq [OF v1 lt act h c [unfolded v1] consecutive_descending [OF sample_infos], of key_order]
    by (simp add: db_return_def)
  have w: "\<forall>b \<in> set (vt_blockBFTInfos ?v1). no_overflow ?p (bb_generatorAddress b) (vt_blockBFTInfos ?v1)"
    by (simp add: no_overflow_def weight_at_def sample_params_def sample_info_def)
  have c2: "cached sample_cache ?p infos" for infos by (simp add: cached_def sample_cache_def)
  obtain v3 v4 where "updateMaxHeightPrevoted key_order v2 sample_cache sample_world = (Return (v3, sample_cache), sample_world)"
    "updateMaxHeightPrecommitted key_order v3 sample_cache sample_world = (Return (v4, sample_cache), sample_world)"
    using updateMaxHeightPrevoted_eq [OF c2] updateMaxHeightPrecommitted_eq [OF c2] by (simp add: db_return_def)
  then have "votes_inv 3 ?p v4 \<and> vt_maxHeightPrevoted sample_before \<le> vt_maxHeightPrevoted v4"
    using recorded_heights_increase [OF inv _ "next" ins v2 _ _ c w] by simp
  then show ?thesis by (auto simp: sample_before_def)
qed

section \<open>The parameters of a height\<close>

text \<open>
  A store indexed by heights: the keys under its prefix are 32-bit numbers, and its prefix has an
  upper bound.
\<close>

definition height_store :: "world \<Rightarrow> Database \<Rightarrow> bool" where
  "height_store w d \<longleftrightarrow>
     db_ok w d \<and> (\<exists>b \<in> set (d_prefix d). b \<noteq> - 1)
     \<and> (\<forall>k. DB_Get (w_store w) (d_prefix d @ k) \<noteq> None \<or> view w d k \<noteq> None \<longrightarrow> length k = 4)"

abbreviation at_height :: "world \<Rightarrow> Database \<Rightarrow> u32 \<Rightarrow> bytes option" where
  "at_height w d h \<equiv> view w d (FromUint32 h)"

text \<open>The entry in force at a height is the one of the greatest height that is not above it.\<close>

definition latest :: "(u32 \<Rightarrow> bytes option) \<Rightarrow> u32 \<Rightarrow> bytes option" where
  "latest m h =
     (if \<exists>h' \<le> h. m h' \<noteq> None then m (Max {h'. h' \<le> h \<and> m h' \<noteq> None}) else None)"

lemma latest_eqI:
  assumes "h' \<le> h" "m h' = Some b" "\<And>h''. h' < h'' \<Longrightarrow> h'' \<le> h \<Longrightarrow> m h'' = None"
  shows "latest m h = Some b"
proof -
  have "Max {h'. h' \<le> h \<and> m h' \<noteq> None} = h'"
    using assms by (intro Max_eqI) (auto simp: not_less [symmetric])
  then show ?thesis using assms(1,2) by (auto simp: latest_def)
qed

lemma latest_None: "\<forall>h' \<le> h. m h' = None \<Longrightarrow> latest m h = None"
  by (auto simp: latest_def)

lemma latest_cases:
  obtains "latest m h = None" "\<forall>h' \<le> h. m h' = None"
  | h' b where "latest m h = Some b" "h' \<le> h" "m h' = Some b" "\<forall>h''. h' < h'' \<and> h'' \<le> h \<longrightarrow> m h'' = None"
proof (cases "\<exists>h' \<le> h. m h' \<noteq> None")
  case True
  let ?H = "{h'. h' \<le> h \<and> m h' \<noteq> None}"
  have "Max ?H \<in> ?H" using True by (intro Max_in) auto
  then obtain b where b: "Max ?H \<le> h" "m (Max ?H) = Some b" by auto
  have "m h'' = None" if "Max ?H < h''" "h'' \<le> h" for h''
    using Max_ge [of ?H h''] that by fastforce
  then have "\<forall>h''. Max ?H < h'' \<and> h'' \<le> h \<longrightarrow> m h'' = None" by blast
  moreover have "latest m h = Some b" unfolding latest_def using True b(2) by (simp only: if_True)
  ultimately show thesis using that(2) [OF _ b] by blast
next
  case False
  then have "\<forall>h' \<le> h. m h' = None" by simp
  then show thesis using that(1) [OF latest_None] by simp
qed

lemma FromUint32_le [simp]: "FromUint32 v \<le> FromUint32 w \<longleftrightarrow> v \<le> w"
  by (meson FromUint32_less linorder_not_less)

lemma FromUint32_0: "FromUint32 0 = [0, 0, 0, 0]"
  by (simp add: FromUint32_def)

lemma range_FromUint32: "range FromUint32 = {k. set k \<subseteq> UNIV \<and> length k = 4}"
proof (rule card_subset_eq)
  show "finite {k :: bytes. set k \<subseteq> UNIV \<and> length k = 4}" by (rule finite_lists_length_eq) simp
  show "range FromUint32 \<subseteq> {k. set k \<subseteq> UNIV \<and> length k = 4}" by auto
  have "inj FromUint32" by (rule injI) simp
  then show "card (range FromUint32) = card {k :: bytes. set k \<subseteq> UNIV \<and> length k = 4}"
    using card_lists_length_eq [of "UNIV :: byte set" 4] by (simp only: card_image card_word finite) simp
qed

lemma height_key:
  assumes "length k = 4"
  obtains h where "k = FromUint32 h"
  using assms range_FromUint32 by blast

lemma next_prefix_not_None: "b \<in> set xs \<Longrightarrow> b \<noteq> - 1 \<Longrightarrow> next_prefix (xs @ ys) \<noteq> None"
  by (induction xs) (auto split: option.splits)

text \<open>
  The lookup with limit 1 looks at the highest stored entry only, so that one must not be deleted
  in the cache.
\<close>

definition top_shown :: "world \<Rightarrow> Database \<Rightarrow> u32 \<Rightarrow> bool" where
  "top_shown w d h \<longleftrightarrow>
     (\<forall>h' \<le> h. DB_Get (w_store w) (d_prefix d @ FromUint32 h') \<noteq> None
        \<and> (\<forall>h'' \<le> h. DB_Get (w_store w) (d_prefix d @ FromUint32 h'') \<noteq> None \<longrightarrow> h'' \<le> h')
        \<longrightarrow> at_height w d h' \<noteq> None)"

lemma stored_iff: "store_ok st \<Longrightarrow> q \<in> fst ` set st \<longleftrightarrow> DB_Get st q \<noteq> None"
proof -
  assume st: "store_ok st"
  have "q \<in> fst ` set st \<longleftrightarrow> (\<exists>v. (q, v) \<in> set st)" by force
  then show ?thesis using DB_Get_iff [OF st, of q] by auto
qed

lemma stored_height:
  assumes "height_store w d" "DB_Get (w_store w) (d_prefix d @ k) \<noteq> None \<or> view w d k \<noteq> None"
  obtains h where "k = FromUint32 h"
proof -
  have "length k = 4" using assms unfolding height_store_def by blast
  then show thesis using height_key that by blast
qed

lemma highest_latest:
  assumes hs: "height_store w d" and kv: "highest (view w d) (FromUint32 0) (FromUint32 h) kv"
  shows "case latest (at_height w d) h of None \<Rightarrow> kv = [] | Some b \<Rightarrow> map snd kv = [b]"
  using kv unfolding highest_def
proof (elim disjE exE conjE)
  assume "kv = []" "\<forall>k. FromUint32 0 \<le> k \<and> k \<le> FromUint32 h \<longrightarrow> view w d k = None"
  then show ?thesis by (simp add: latest_None)
next
  fix k v assume k: "kv = [(k, v)]" "k \<le> FromUint32 h" "view w d k = Some v"
    "\<forall>k'. k < k' \<and> k' \<le> FromUint32 h \<longrightarrow> view w d k' = None"
  obtain h' where "k = FromUint32 h'" using stored_height [OF hs, of k] k(3) by blast
  then have "latest (at_height w d) h = Some v" using k by (intro latest_eqI [of h']) auto
  then show ?thesis using k(1) by simp
qed

lemma height_bounds:
  assumes hs: "height_store w d"
  shows "upperBound (d_prefix d @ FromUint32 h) \<noteq> None
    \<and> (\<forall>k \<in> fst ` set (w_store w). prefix (d_prefix d @ FromUint32 h) k \<longrightarrow> k = d_prefix d @ FromUint32 h)"
proof (intro conjI ballI impI)
  show "upperBound (d_prefix d @ FromUint32 h) \<noteq> None"
    using hs next_prefix_not_None by (auto simp: height_store_def upperBound_eq)
  fix k assume k: "k \<in> fst ` set (w_store w)" "prefix (d_prefix d @ FromUint32 h) k"
  have st: "store_ok (w_store w)" using hs by (simp add: height_store_def db_ok_def)
  from k obtain r where r: "k = d_prefix d @ FromUint32 h @ r" by (auto simp: prefix_def)
  then have "length (FromUint32 h @ r) = 4"
    using hs k(1) stored_iff [OF st, of k] by (simp only: height_store_def) blast
  then show "k = d_prefix d @ FromUint32 h" using r by simp
qed

lemma lookup_highest:
  assumes ord: "range_order order" and hs: "height_store w d" and top: "top_shown w d h"
  shows "\<exists>kv w'. (Database_Range order w d (FromUint32 0) (FromUint32 h) 1 True :: ('e, store \<times> world) outcome) = Return (kv, w')
    \<and> warmer d w w' \<and> (case latest (at_height w d) h of None \<Rightarrow> kv = [] | Some b \<Rightarrow> map snd kv = [b])"
proof -
  let ?p = "d_prefix d" and ?st = "w_store w"
  have ok: "db_ok w d" "store_ok ?st" using hs by (simp_all add: height_store_def db_ok_def)
  note bounds = height_bounds [OF hs, of h]
  have shown: "raw ?st (the_cache w d) q \<noteq> None"
    if q: "q \<in> fst ` set ?st" "?p @ FromUint32 0 \<le> q" "q \<le> ?p @ FromUint32 h"
      "\<forall>q' \<in> fst ` set ?st. q' \<le> ?p @ FromUint32 h \<longrightarrow> q' \<le> q" for q
  proof -
    obtain k where k: "q = ?p @ k" using in_range_iff q(2,3) by blast
    then obtain h' where h': "k = FromUint32 h'" using stored_height [OF hs, of k] q(1) stored_iff [OF ok(2), of q] by blast
    have "h'' \<le> h'" if "h'' \<le> h" "DB_Get ?st (?p @ FromUint32 h'') \<noteq> None" for h''
    proof -
      have "?p @ FromUint32 h'' \<in> fst ` set ?st" using that(2) stored_iff [OF ok(2)] by blast
      then have "?p @ FromUint32 h'' \<le> q" using bspec [OF q(4)] that(1) by simp
      then show ?thesis by (simp add: k h')
    qed
    moreover have "h' \<le> h" using q(3) by (simp add: k h')
    moreover have "DB_Get ?st q \<noteq> None" using q(1) stored_iff [OF ok(2), of q] by blast
    then have "DB_Get ?st (?p @ FromUint32 h') \<noteq> None" by (simp only: k h' simp_thms)
    ultimately have "at_height w d h' \<noteq> None" using top unfolding top_shown_def by blast
    then show ?thesis by (simp add: view_def k h')
  qed
  obtain kv w' where r: "(Database_Range order w d (FromUint32 0) (FromUint32 h) 1 True :: ('e, store \<times> world) outcome) = Return (kv, w')"
    "warmer d w w'" "highest (view w d) (FromUint32 0) (FromUint32 h) kv"
    using range_highest [OF ord ok(1) conjunct1 [OF bounds] conjunct2 [OF bounds] shown] by blast
  then show ?thesis using highest_latest [OF hs r(3)] by blast
qed

lemma getBFTParams_latest:
  assumes "range_order order" "height_store w d" "top_shown w d h"
  shows "\<exists>w'. warmer d w w' \<and> getBFTParams order d h w =
    (case latest (at_height w d) h of
       None \<Rightarrow> Error ErrBFTParamsNotFound
     | Some b \<Rightarrow> wrap_error Err_bft_decode (BFTParams_Decode b), w')"
proof -
  obtain kv w' where r: "(Database_Range order w d (FromUint32 0) (FromUint32 h) 1 True :: (bft_error, store \<times> world) outcome) = Return (kv, w')"
    "warmer d w w'" "case latest (at_height w d) h of None \<Rightarrow> kv = [] | Some b \<Rightarrow> map snd kv = [b]"
    using lookup_highest [OF assms] by blast
  have "getBFTParams order d h w = (case latest (at_height w d) h of
      None \<Rightarrow> Error ErrBFTParamsNotFound | Some b \<Rightarrow> wrap_error Err_bft_decode (BFTParams_Decode b), w')"
    using r(1,3)
    by (auto simp: getBFTParams_def db_bind_def db_range_def db_error_def db_lift_def split: option.splits)
  then show ?thesis using r(2) by blast
qed

text \<open>
  C27: the parameters read for a height are those of the greatest height that is not above it, also when
  they are in the cache only; without one the result is the error of missing parameters.  Reading
  changes nothing that can be seen.
\<close>

theorem get_params_latest:
  assumes "range_order order" "height_store w d" "top_shown w d h"
  shows "\<exists>w'. getBFTParams order d h w =
      (case latest (at_height w d) h of
         None \<Rightarrow> Error ErrBFTParamsNotFound
       | Some b \<Rightarrow> wrap_error Err_bft_decode (BFTParams_Decode b), w')
    \<and> view w' d = view w d"
  using getBFTParams_latest [OF assms] warmer_view by blast

definition bft_world :: "world \<times> Database" where
  "bft_world =
     Database_New \<lparr>w_store = [([7, 0, 0, 0, 1], BFTParams_Encode sample_params)], w_caches = []\<rparr> [7]"

lemma bft_world_view:
  "view (fst bft_world) (snd bft_world) k = (if k = [0, 0, 0, 1] then Some (BFTParams_Encode sample_params) else None)"
  "DB_Get (w_store (fst bft_world)) (d_prefix (snd bft_world) @ k) = view (fst bft_world) (snd bft_world) k"
  by (simp_all add: bft_world_def Database_New_def view_def raw_def newCacheDB_def DB_Get_def)

lemma bft_world_heights: "height_store (fst bft_world) (snd bft_world)" "top_shown (fst bft_world) (snd bft_world) h"
proof -
  have "db_ok (fst bft_world) (snd bft_world)" "d_prefix (snd bft_world) = [7]"
    by (simp_all add: bft_world_def Database_New_def db_ok_def cache_ok_def newCacheDB_def store_ok_def)
  then show "height_store (fst bft_world) (snd bft_world)" "top_shown (fst bft_world) (snd bft_world) h"
    using bft_world_view by (simp_all add: height_store_def top_shown_def)
qed

lemma bft_world_latest: "1 \<le> h \<Longrightarrow>
    latest (at_height (fst bft_world) (snd bft_world)) h = Some (BFTParams_Encode sample_params)"
proof (rule latest_eqI [of 1])
  have one: "FromUint32 h = [0, 0, 0, 1] \<longleftrightarrow> h = 1" for h
    using FromUint32_eq [of h 1] by (simp add: FromUint32_def)
  show "at_height (fst bft_world) (snd bft_world) 1 = Some (BFTParams_Encode sample_params)"
    by (simp add: bft_world_view one)
  show "at_height (fst bft_world) (snd bft_world) h'' = None" if "1 < h''" for h''
    using that by (simp add: bft_world_view one)
qed

lemma sample_params_decode:
  "length (BFTParams_Encode sample_params) < 2 ^ 63" "BFTParams_Decode (BFTParams_Encode sample_params) = Return sample_params"
proof -
  have "length (BFTParams_Encode sample_params) \<le> 100" by code_simp
  then show "length (BFTParams_Encode sample_params) < 2 ^ 63" by simp
  then show "BFTParams_Decode (BFTParams_Encode sample_params) = Return sample_params"
    using bp_msg.decode_encode [of sample_params] by (simp add: BFTParams_Decode_def)
qed

theorem get_params_latest_witness:
  "\<exists>w'. getBFTParams key_order (snd bft_world) 5 (fst bft_world) = (Return sample_params, w')"
  using get_params_latest [OF range_order_key_order bft_world_heights, of 5] bft_world_latest [of 5] sample_params_decode
  by (auto simp: wrap_error_def)

subsection \<open>Filling the cache\<close>

lemma lowest_before_find:
  assumes "\<forall>x \<in> set kv. \<exists>h. fst x = FromUint32 h"
  shows "(lowest_before kv h :: ('e, bytes option) outcome) = Return (map_option snd (find (\<lambda>x. fst x \<le> FromUint32 h) kv))"
  using assms
proof (induction kv)
  case (Cons x kv)
  then obtain k where k: "fst x = FromUint32 k" by auto
  have "(ToUint32 (FromUint32 k) :: ('e, u32) outcome) = Return k" using ToUint32_FromUint32 [of k "[]"] by simp
  then show ?case using Cons by (simp add: k)
qed simp

lemma find_append: "find P (xs @ ys) = (case find P xs of None \<Rightarrow> find P ys | Some x \<Rightarrow> Some x)"
  by (induction xs) auto

lemma find_greatest:
  assumes "store_ok r" "x \<in> set r" "P x" "\<And>y. y \<in> set r \<Longrightarrow> fst x < fst y \<Longrightarrow> \<not> P y"
  shows "find P (rev r) = Some x"
  using assms
proof (induction r rule: rev_induct)
  case (snoc y r)
  have "store_ok r" "\<forall>z \<in> set r. fst z < fst y" using snoc.prems(1) by (auto simp: store_ok_def sorted_wrt_append)
  then show ?case using snoc by (cases "x = y") (auto simp: store_ok_def)
qed simp

lemma cache_loop_eq:
  assumes kv: "\<And>h. from \<le> h \<Longrightarrow> h \<le> to \<Longrightarrow> lowest_before kv h = (Return (Some (b h)) :: (bft_error, _) outcome)
      \<and> BFTParams_Decode (b h) = Return (q h)"
    and to: "to < - 1"
  shows "from \<le> h \<Longrightarrow> unat h \<le> unat to + 1 \<Longrightarrow>
    cache_loop kv h to data = Some (Return (\<lambda>h'. if h \<le> h' \<and> h' \<le> to then Some (q h') else data h'))"
proof (induction "unat to + 1 - unat h" arbitrary: h data)
  case 0
  then have "\<not> h \<le> to" by (simp add: word_le_nat_alt)
  then show ?case by (subst cache_loop.simps) (auto simp: fun_eq_iff)
next
  case (Suc n)
  then have h: "h \<le> to" by (simp add: word_le_nat_alt)
  have nx: "unat (h + 1) = unat h + 1" using h to by (intro unat_next) uint_arith
  have "cache_loop kv (h + 1) to (data(h \<mapsto> q h)) =
      Some (Return (\<lambda>h'. if h + 1 \<le> h' \<and> h' \<le> to then Some (q h') else (data(h \<mapsto> q h)) h'))"
    using Suc.hyps(2) Suc.prems nx by (intro Suc.hyps(1)) (simp_all add: word_le_nat_alt)
  also have "(\<lambda>h'. if h + 1 \<le> h' \<and> h' \<le> to then Some (q h') else (data(h \<mapsto> q h)) h') =
      (\<lambda>h'. if h \<le> h' \<and> h' \<le> to then Some (q h') else data h')"
  proof
    fix h'
    have "h + 1 \<le> h' \<longleftrightarrow> h \<le> h' \<and> h \<noteq> h'"
      using nx by (auto simp: word_le_nat_alt word_unat_eq_iff)
    then show "(if h + 1 \<le> h' \<and> h' \<le> to then Some (q h') else (data(h \<mapsto> q h)) h') =
        (if h \<le> h' \<and> h' \<le> to then Some (q h') else data h')" using h by auto
  qed
  finally show ?case using h kv [OF Suc.prems(1) h] by (subst cache_loop.simps) (simp del: fun_upd_apply)
qed

lemma warmer_heights:
  assumes "warmer d w w'" "height_store w d"
  shows "height_store w' d \<and> (top_shown w' d h \<longleftrightarrow> top_shown w d h)"
proof -
  have "w_store w' = w_store w" using assms(1) by (simp add: warmer_def)
  then show ?thesis using warmer_view [OF assms(1)] assms(2) by (simp add: height_store_def top_shown_def)
qed

text \<open>Every entry under the prefix is the encoding of parameters.\<close>

definition params_stored :: "world \<Rightarrow> Database \<Rightarrow> (u32 \<Rightarrow> BFTParams) \<Rightarrow> bool" where
  "params_stored w d q \<longleftrightarrow>
     (\<forall>h b. at_height w d h = Some b \<longrightarrow> b = BFTParams_Encode (q h) \<and> length b < 2 ^ 63)"

definition in_force :: "(u32 \<Rightarrow> bytes option) \<Rightarrow> u32 \<Rightarrow> bytes" where
  "in_force m h = the (latest m h)"

lemma latest_decodes:
  assumes "params_stored w d q" "latest (at_height w d) h = Some b"
  shows "\<exists>p. b = BFTParams_Encode p \<and> BFTParams_Decode b = Return p"
proof (cases rule: latest_cases [of "at_height w d" h])
  case (2 h' b')
  then have "b = BFTParams_Encode (q h')" "length b < 2 ^ 63" using assms by (auto simp: params_stored_def)
  then show ?thesis using bp_msg.decode_encode [of "q h'"] by (auto simp: BFTParams_Decode_def)
qed (use assms(2) in simp)

lemma latest_mono:
  assumes "latest m h = Some b" "h \<le> h'" "\<And>h''. h < h'' \<Longrightarrow> h'' \<le> h' \<Longrightarrow> m h'' = None"
  shows "latest m h' = Some b"
proof (cases rule: latest_cases [of m h])
  case (2 k b')
  show ?thesis
  proof (rule latest_eqI [of k])
    show "m h'' = None" if "k < h''" "h'' \<le> h'" for h'' using 2 that assms(3) [of h''] by (cases "h'' \<le> h") auto
  qed (use 2 assms(1,2) in auto)
qed (use assms(1) in simp)

text \<open>What the loop over the heights finds in the pairs that were read.\<close>

lemma range_member:
  assumes r: "store_ok r" "\<And>k. DB_Get r k = (if FromUint32 from \<le> k \<and> k \<le> FromUint32 to then view w d k else None)"
    and hs: "height_store w d" and y: "y \<in> set r"
  shows "\<exists>k. fst y = FromUint32 k \<and> at_height w d k \<noteq> None \<and> from \<le> k"
proof -
  have v: "view w d (fst y) \<noteq> None" "FromUint32 from \<le> fst y"
    using y r(2) [of "fst y"] DB_Get_iff [OF r(1), of "fst y" "snd y"] by (auto split: if_splits)
  then obtain k where "fst y = FromUint32 k" using stored_height [OF hs] by blast
  then show ?thesis using v by simp
qed

lemma find_in_force:
  assumes r: "store_ok r" "\<And>k. DB_Get r k = (if FromUint32 from \<le> k \<and> k \<le> FromUint32 to then view w d k else None)"
    and hs: "height_store w d" and h: "from \<le> h" "h \<le> to"
    and low: "if from = 0 then low = [] else low = [(FromUint32 from, b0)] \<and> latest (at_height w d) from = Some b0"
    and some: "latest (at_height w d) from \<noteq> None"
  shows "\<exists>b. latest (at_height w d) h = Some b \<and> map_option snd (find (\<lambda>x. fst x \<le> FromUint32 h) (rev r @ low)) = Some b"
proof (cases "\<exists>h'. from \<le> h' \<and> h' \<le> h \<and> at_height w d h' \<noteq> None")
  case True
  then obtain h1 where h1: "from \<le> h1" "h1 \<le> h" "at_height w d h1 \<noteq> None" by blast
  show ?thesis
  proof (cases rule: latest_cases [of "at_height w d" h])
    case (2 h' b)
    have "from \<le> h'" using 2(4) h1 by (metis linorder_not_less order_trans)
    then have x: "(FromUint32 h', b) \<in> set r" using r(2) [of "FromUint32 h'"] 2 h DB_Get_iff [OF r(1)] by (auto split: if_splits)
    have "\<not> fst y \<le> FromUint32 h" if y: "y \<in> set r" "FromUint32 h' < fst y" for y
    proof
      assume le: "fst y \<le> FromUint32 h"
      obtain k where "fst y = FromUint32 k" "at_height w d k \<noteq> None" using range_member [OF r hs y(1)] by blast
      then show False using 2(4) y(2) le by auto
    qed
    then have "find (\<lambda>x. fst x \<le> FromUint32 h) (rev r) = Some (FromUint32 h', b)"
      using 2(2) by (intro find_greatest [OF r(1) x]) simp_all
    then show ?thesis using 2(1) by (simp add: find_append)
  qed (use h1(2,3) in simp)
next
  case False
  have "\<not> fst y \<le> FromUint32 h" if y: "y \<in> set r" for y
    using range_member [OF r hs y] False by auto
  then have none: "find (\<lambda>x. fst x \<le> FromUint32 h) (rev r) = None" unfolding find_None_iff by auto
  obtain b where b: "latest (at_height w d) from = Some b" using some by blast
  then have "latest (at_height w d) h = Some b" using latest_mono [OF b h(1)] False by (meson order_less_imp_le)
  moreover have "from \<noteq> 0"
  proof
    assume "from = 0"
    then show False using False h(1) b latest_cases [of "at_height w d" "from"] by (metis option.distinct(1) word_zero_le order_antisym)
  qed
  ultimately show ?thesis using none low b h(1) by (simp add: find_append)
qed

lemma cache_kv_in_force:
  assumes ord: "range_order order" and hs: "height_store w d" and q: "params_stored w d q" and "from \<le> to"
    and low: "latest (at_height w d) from \<noteq> None" "top_shown w d from"
  shows "\<exists>kv w1. cache_kv order d from to w = (Return kv, w1) \<and> warmer d w w1
    \<and> (\<forall>h. from \<le> h \<longrightarrow> h \<le> to \<longrightarrow>
        (\<exists>b. latest (at_height w d) h = Some b \<and> lowest_before kv h = (Return (Some b) :: (bft_error, _) outcome)))"
proof -
  have ok: "db_ok w d" using hs by (simp add: height_store_def)
  obtain r w1 where r: "(Database_Range order w d (FromUint32 from) (FromUint32 to) (-1) True :: (bft_error, _) outcome)
      = Return (rev r, w1)" "store_ok r"
    "\<forall>k. DB_Get r k = (if FromUint32 from \<le> k \<and> k \<le> FromUint32 to then view w d k else None)" "warmer d w w1"
    using range_all [OF ord ok, of True "FromUint32 to" "FromUint32 from", where ?'e = bft_error]
      height_bounds [OF hs, of to] by auto
  obtain b0 where b0: "latest (at_height w d) from = Some b0" using low(1) by blast
  then obtain p0 where p0: "b0 = BFTParams_Encode p0" "BFTParams_Decode b0 = Return p0" using latest_decodes [OF q] by blast
  have hs1: "height_store w1 d" "top_shown w1 d from" using warmer_heights [OF r(4) hs] low(2) by blast+
  have v1: "view w1 d = view w d" using warmer_view [OF r(4)] by blast
  obtain w2 where w2: "warmer d w1 w2" "getBFTParams order d from w1 = (Return p0, w2)"
    using getBFTParams_latest [OF ord hs1] b0 p0(2) by (auto simp: v1 wrap_error_def)
  let ?low = "if from = 0 then [] else [(FromUint32 from, b0)]"
  obtain w3 where w3: "cache_kv order d from to w = (Return (rev r @ ?low), w3)" "warmer d w w3"
    using r(1,4) w2 warmer_trans [OF r(4) w2(1)] p0(1)
    by (cases "from = 0") (auto simp: cache_kv_def db_bind_def db_range_def db_return_def word_gt_0)
  have keys: "\<forall>x \<in> set (rev r @ ?low). \<exists>h. fst x = FromUint32 h"
  proof
    fix x assume "x \<in> set (rev r @ ?low)"
    then consider "x \<in> set r" | "fst x = FromUint32 from" by (auto split: if_splits)
    then show "\<exists>h. fst x = FromUint32 h"
    proof cases
      case 1
      then have "view w d (fst x) \<noteq> None"
        using r(3) DB_Get_iff [OF r(2), of "fst x" "snd x"] by (metis option.distinct(1) prod.collapse)
      then show ?thesis using stored_height [OF hs] by blast
    qed blast
  qed
  have "\<exists>b. latest (at_height w d) h = Some b \<and> lowest_before (rev r @ ?low) h = (Return (Some b) :: (bft_error, _) outcome)"
    if "from \<le> h" "h \<le> to" for h
    using find_in_force [OF r(2) r(3) [rule_format] hs that _ low(1), of ?low b0] b0
      lowest_before_find [OF keys, of h, where ?'e = bft_error] by auto
  then show ?thesis using w3 by blast
qed

text \<open>
  C26: after the cache is filled for a range of heights, it answers for every height of the range what the
  lookup in the database would: the parameters in force at that height.  Filling the cache ends, and
  changes nothing that can be seen.
\<close>

theorem cache_equals_lookup:
  assumes ord: "range_order order" and hs: "height_store w d" and q: "params_stored w d q"
    and c: "pc_paramsStore c = d" and range: "from \<le> to" "to < - 1"
    and low: "latest (at_height w d) from \<noteq> None" "top_shown w d from"
  shows "\<exists>c' w'. cache order c from to w = Some (Return c', w') \<and> view w' d = view w d
    \<and> (\<forall>h. from \<le> h \<and> h \<le> to \<longrightarrow>
        (\<exists>p. latest (at_height w d) h = Some (BFTParams_Encode p)
          \<and> GetParameters order c' h w' = (Return (p, c'), w')))"
proof -
  obtain kv w1 where kv: "cache_kv order d from to w = (Return kv, w1)" "warmer d w w1"
    "\<And>h. from \<le> h \<Longrightarrow> h \<le> to \<Longrightarrow>
       \<exists>b. latest (at_height w d) h = Some b \<and> lowest_before kv h = (Return (Some b) :: (bft_error, _) outcome)"
    using cache_kv_in_force [OF ord hs q range(1) low] by metis
  define b where "b h = the (latest (at_height w d) h)" for h
  have "\<exists>p. b h = BFTParams_Encode p \<and> BFTParams_Decode (b h) = Return p" if "from \<le> h" "h \<le> to" for h
    using kv(3) [OF that] latest_decodes [OF q, of h] by (auto simp: b_def)
  then obtain p where p: "\<And>h. from \<le> h \<Longrightarrow> h \<le> to \<Longrightarrow> b h = BFTParams_Encode (p h) \<and> BFTParams_Decode (b h) = Return (p h)"
    by metis
  have lb: "latest (at_height w d) h = Some (b h) \<and> lowest_before kv h = (Return (Some (b h)) :: (bft_error, _) outcome)"
    if "from \<le> h" "h \<le> to" for h
    using kv(3) [OF that] by (auto simp: b_def)
  let ?data = "\<lambda>h'. if from \<le> h' \<and> h' \<le> to then Some (p h') else pc_data c h'"
  have "cache_loop kv from to (pc_data c) = Some (Return ?data)"
  proof (rule cache_loop_eq [of "from" to kv b p])
    show "lowest_before kv h = (Return (Some (b h)) :: (bft_error, _) outcome) \<and> BFTParams_Decode (b h) = Return (p h)"
      if "from \<le> h" "h \<le> to" for h
      using lb [OF that] p [OF that] by blast
  qed (use range in \<open>simp_all add: word_le_nat_alt\<close>)
  then have "cache order c from to w = Some (Return (c\<lparr>pc_data := ?data\<rparr>), w1)"
    using kv(1) c by (simp add: cache_def)
  moreover have "\<exists>p. latest (at_height w d) h = Some (BFTParams_Encode p)
      \<and> GetParameters order (c\<lparr>pc_data := ?data\<rparr>) h w1 = (Return (p, c\<lparr>pc_data := ?data\<rparr>), w1)"
    if "from \<le> h" "h \<le> to" for h
    using lb [OF that] p [OF that] that by (simp add: GetParameters_def db_return_def)
  ultimately show ?thesis using warmer_view [OF kv(2)] by blast
qed

theorem cache_equals_lookup_witness:
  "\<exists>c' w'. cache key_order (newBFTParamsCache (snd bft_world)) 1 3 (fst bft_world) = Some (Return c', w')
    \<and> (\<exists>p. GetParameters key_order c' 2 w' = (Return (p, c'), w'))"
proof -
  have q: "params_stored (fst bft_world) (snd bft_world) (\<lambda>_. sample_params)"
    using sample_params_decode(1) by (simp add: params_stored_def bft_world_view)
  have r: "(1 :: u32) \<le> 3" "(3 :: u32) < - 1" by code_simp+
  have c: "pc_paramsStore (newBFTParamsCache (snd bft_world)) = snd bft_world" by (simp add: newBFTParamsCache_def)
  have l: "latest (at_height (fst bft_world) (snd bft_world)) 1 \<noteq> None" using bft_world_latest [of 1] by simp
  have two: "(1 :: u32) \<le> 2 \<and> (2 :: u32) \<le> 3" by code_simp
  show ?thesis
    using cache_equals_lookup [OF range_order_key_order bft_world_heights(1) q c r l bft_world_heights(2)] two by blast
qed

section \<open>Thresholds\<close>

text \<open>The weight of a list of validators without wrapping around.\<close>

definition total_weight :: "BFTValidator list \<Rightarrow> nat" where
  "total_weight vs = sum_list (map (\<lambda>v. unat (bv_bftWeight v)) vs)"

lemma aggregate_weight_eq:
  assumes "aggregate_weight vs a = Return agg" "unat a + total_weight vs < 2 ^ 64"
  shows "unat agg = unat a + total_weight vs \<and> (\<forall>v \<in> set vs. bv_bftWeight v \<noteq> 0)"
  using assms
proof (induction vs arbitrary: a)
  case (Cons v vs)
  have "unat a + unat (bv_bftWeight v) < 2 ^ 64" using Cons.prems(2) by (simp add: total_weight_def)
  then have "unat (a + bv_bftWeight v) = unat a + unat (bv_bftWeight v)" by (simp add: unat_word_ariths)
  then show ?case using Cons by (auto simp: total_weight_def word_gt_0 not_le split: if_splits)
qed (simp add: total_weight_def)

definition weight_of :: "BFTValidator list \<Rightarrow> BFTValidator set \<Rightarrow> nat" where
  "weight_of vs A = (\<Sum>v \<in> A \<inter> set vs. unat (bv_bftWeight v))"

lemma weight_of_union:
  "weight_of vs (A \<union> B) + weight_of vs (A \<inter> B) = weight_of vs A + weight_of vs B"
proof -
  have "(A \<union> B) \<inter> set vs = A \<inter> set vs \<union> B \<inter> set vs" "A \<inter> B \<inter> set vs = (A \<inter> set vs) \<inter> (B \<inter> set vs)" by blast+
  moreover have "finite (A \<inter> set vs)" "finite (B \<inter> set vs)" by simp_all
  note sum.union_inter [OF this, of "\<lambda>v. unat (bv_bftWeight v)"]
  ultimately show ?thesis by (simp only: weight_of_def)
qed

lemma weight_of_le_total: "distinct vs \<Longrightarrow> weight_of vs A \<le> total_weight vs"
  unfolding weight_of_def total_weight_def
  by (simp add: sum_list_distinct_conv_sum_set sum_mono2)

lemma thresholds:
  assumes "check_parameters a precommit certificate vs = Return agg" "total_weight vs < 2 ^ 63"
  shows "unat agg = total_weight vs"
    and "unat (bp_prevoteThreshold (new_params agg precommit certificate vs')) = 2 * total_weight vs div 3 + 1"
    and "total_weight vs div 3 + 1 \<le> unat precommit \<and> unat precommit \<le> total_weight vs"
    and "total_weight vs div 3 + 1 \<le> unat certificate \<and> unat certificate \<le> total_weight vs"
proof -
  have agg: "aggregate_weight vs 0 = Return agg"
    and t: "agg div 3 + 1 \<le> precommit" "precommit \<le> agg" "agg div 3 + 1 \<le> certificate" "certificate \<le> agg"
    using assms(1) by (auto simp: check_parameters_def outcome_eq not_less split: if_splits)
  then show w: "unat agg = total_weight vs" using aggregate_weight_eq [OF agg] assms(2) by simp
  have "unat (agg * 2) = 2 * total_weight vs" using w assms(2) by (simp add: unat_word_ariths)
  then have "unat (agg * 2 div 3) = 2 * total_weight vs div 3" by (simp add: unat_div)
  then show "unat (bp_prevoteThreshold (new_params agg precommit certificate vs')) = 2 * total_weight vs div 3 + 1"
    using assms(2) by (simp add: new_params_def unat_word_ariths)
  have "unat (agg div 3 + 1) = total_weight vs div 3 + 1" using w assms(2) by (simp add: unat_div unat_word_ariths)
  then show "total_weight vs div 3 + 1 \<le> unat precommit \<and> unat precommit \<le> total_weight vs"
    "total_weight vs div 3 + 1 \<le> unat certificate \<and> unat certificate \<le> total_weight vs"
    using t w by (simp_all only: word_le_nat_alt)
qed


definition sample_validators :: "BFTValidator list" where
  "sample_validators = map (\<lambda>i. NewValidator [i] 1 [i]) [1, 2, 3, 4]"


text \<open>
  From a total of 2 ^ 63 on the doubled weight wraps around: one validator of that weight gets a prevote
  threshold of one.
\<close>

lemma prevote_threshold_wraps:
  "check_parameters (Module_Init 10) (2 ^ 63) (2 ^ 63) [NewValidator [1] (2 ^ 63) [1]] = Return (2 ^ 63)
   \<and> bp_prevoteThreshold (new_params (2 ^ 63) (2 ^ 63) (2 ^ 63) [NewValidator [1] (2 ^ 63) [1]]) = 1"
  by (simp add: check_parameters_def Module_Init_def wrap_int_def NewValidator_def new_params_def)

end
