(* ===== verification/Block_Cache.thy ===== *)
theory Block_Cache
  imports Blockchain
begin

text \<open>
  The cache of the last blocks of the chain (\<^verbatim>\<open>pkg/blockchain/block_cache.go\<close>): two maps, from IDs
  to blocks and from heights to IDs, with a size, a maximal size and the height of the last block.
  The theory shows that the two maps implement a bounded list of blocks: pushing adds a block at
  the end and drops the oldest one from a full list, popping takes the last one.
  The lock is not part of the state: each operation holds it from beginning to end.
\<close>

datatype cache_error = Err_not_consecutive | Err_oldest_missing

record blockCache =
  bc_cachedBlocks :: "bytes \<rightharpoonup> Block"
  bc_heightIndex :: "u32 \<rightharpoonup> bytes"
  bc_size :: int
  bc_maxSize :: int
  bc_currentHeight :: u32

definition newBlockCache :: "int \<Rightarrow> blockCache" where
  "newBlockCache maxSize =
     \<lparr>bc_cachedBlocks = Map.empty, bc_heightIndex = Map.empty, bc_size = 0, bc_maxSize = maxSize,
      bc_currentHeight = 0\<rparr>"

definition cache_get :: "blockCache \<Rightarrow> bytes \<Rightarrow> Block option" where
  "cache_get c i = bc_cachedBlocks c i"

definition cache_getByHeight :: "blockCache \<Rightarrow> u32 \<Rightarrow> Block option" where
  "cache_getByHeight c height =
     (case bc_heightIndex c height of None \<Rightarrow> None | Some i \<Rightarrow> bc_cachedBlocks c i)"

definition cache_last :: "blockCache \<Rightarrow> Block option" where
  "cache_last c = cache_getByHeight c (bc_currentHeight c)"

text \<open>
  A push into a full cache first removes the oldest block; it fails, with the cache unchanged, on a
  height that does not follow the last one.
\<close>

definition cache_evict :: "blockCache \<Rightarrow> (cache_error, blockCache) outcome" where
  "cache_evict c =
     (if bc_size c \<ge> bc_maxSize c
      then let oldestHeight = bc_currentHeight c - word_of_int (bc_maxSize c) + 1
           in case bc_heightIndex c oldestHeight of
                None \<Rightarrow> Error Err_oldest_missing
              | Some i \<Rightarrow> Return (c\<lparr>bc_heightIndex := (bc_heightIndex c)(oldestHeight := None),
                                      bc_cachedBlocks := (bc_cachedBlocks c)(i := None),
                                      bc_size := bc_size c - 1\<rparr>)
      else Return c)"

definition cache_push :: "blockCache \<Rightarrow> Block \<Rightarrow> (cache_error, blockCache) outcome" where
  "cache_push c block =
     obind (header_of block) (\<lambda>h.
       if bc_size c \<noteq> 0 \<and> bh_Height h \<noteq> bc_currentHeight c + 1 then Error Err_not_consecutive
       else obind (cache_evict c) (\<lambda>c.
         Return (c\<lparr>bc_cachedBlocks := (bc_cachedBlocks c)(bh_ID h \<mapsto> block),
                   bc_heightIndex := (bc_heightIndex c)(bh_Height h \<mapsto> bh_ID h),
                   bc_currentHeight := bh_Height h,
                   bc_size := bc_size c + 1\<rparr>)))"

text \<open>A height without an ID reads as the empty string.\<close>

definition cache_pop :: "blockCache \<Rightarrow> Block option \<times> blockCache" where
  "cache_pop c =
     (if bc_size c = 0 then (None, c)
      else let i = (case bc_heightIndex c (bc_currentHeight c) of None \<Rightarrow> [] | Some i \<Rightarrow> i)
           in (bc_cachedBlocks c i,
               c\<lparr>bc_heightIndex := (bc_heightIndex c)(bc_currentHeight c := None),
                 bc_cachedBlocks := (bc_cachedBlocks c)(i := None),
                 bc_size := bc_size c - 1,
                 bc_currentHeight := bc_currentHeight c - 1\<rparr>))"

section \<open>A bounded list of blocks\<close>

text \<open>
  The blocks of the cache, oldest first: the heights go up one by one to the current height, the
  IDs differ, and the maps hold exactly these blocks.
\<close>

definition id_of :: "Block \<Rightarrow> bytes" where
  "id_of b = (case blk_Header b of None \<Rightarrow> [] | Some h \<Rightarrow> bh_ID h)"

definition chained :: "u32 \<Rightarrow> Block list \<Rightarrow> bool" where
  "chained current bs \<longleftrightarrow>
     (\<forall>i < length bs. blk_Header (bs ! i) \<noteq> None
        \<and> unat (height_of (bs ! i)) + (length bs - 1 - i) = unat current)
     \<and> distinct (map id_of bs)"

definition holds :: "blockCache \<Rightarrow> Block list \<Rightarrow> bool" where
  "holds c bs \<longleftrightarrow>
     chained (bc_currentHeight c) bs \<and> 0 < bc_maxSize c \<and> bc_maxSize c < 2 ^ 32
     \<and> bc_size c = int (length bs) \<and> int (length bs) \<le> bc_maxSize c
     \<and> bc_cachedBlocks c = map_of (map (\<lambda>b. (id_of b, b)) bs)
     \<and> bc_heightIndex c = map_of (map (\<lambda>b. (height_of b, id_of b)) bs)"

definition push_list :: "int \<Rightarrow> Block list \<Rightarrow> Block \<Rightarrow> Block list" where
  "push_list maxSize bs b = drop (length bs + 1 - nat maxSize) (bs @ [b])"

lemma new_holds: "0 < n \<Longrightarrow> n < 2 ^ 32 \<Longrightarrow> holds (newBlockCache n) []"
  by (simp add: holds_def newBlockCache_def chained_def)

lemma chained_heights:
  assumes "chained current bs"
  shows "distinct (map height_of bs)"
proof -
  have "i = j" if "i < length bs" "j < length bs" "height_of (bs ! i) = height_of (bs ! j)" for i j
    using assms that unfolding chained_def by (metis add_left_cancel diff_diff_cancel diff_Suc_1 less_Suc_eq_le Suc_pred length_greater_0_conv less_nat_zero_code list.size(3) not_less_zero gr_implies_not0)
  then show ?thesis by (simp add: distinct_conv_nth) metis
qed

lemma chained_snoc:
  assumes "chained current bs" "blk_Header b = Some h" "bs \<noteq> [] \<Longrightarrow> unat (bh_Height h) = unat current + 1"
    and "bh_ID h \<notin> id_of ` set bs"
  shows "chained (bh_Height h) (bs @ [b])"
proof -
  have "blk_Header ((bs @ [b]) ! i) \<noteq> None
      \<and> unat (height_of ((bs @ [b]) ! i)) + (length (bs @ [b]) - 1 - i) = unat (bh_Height h)"
    if i: "i < length (bs @ [b])" for i
  proof (cases "i < length bs")
    case True
    then have "blk_Header (bs ! i) \<noteq> None" "unat (height_of (bs ! i)) + (length bs - 1 - i) = unat current" "bs \<noteq> []"
      using assms(1) by (auto simp: chained_def)
    then show ?thesis using assms(3) True by (simp add: nth_append)
  next
    case False
    then have "i = length bs" using i by simp
    then show ?thesis using assms(2) by (simp add: height_of_def)
  qed
  moreover have "distinct (map id_of (bs @ [b]))" using assms(1,2,4) by (auto simp: chained_def id_of_def)
  ultimately show ?thesis unfolding chained_def by blast
qed

lemma chained_tl: "chained current (b # bs) \<Longrightarrow> chained current bs"
  unfolding chained_def by (auto simp: nth_Cons split: nat.splits)

lemma chained_butlast:
  assumes "chained current (bs @ [b])" "bs \<noteq> []"
  shows "chained (current - 1) bs"
proof -
  have "0 < unat current" using assms unfolding chained_def by (auto dest!: spec [of _ 0] simp: nth_append)
  then have pred: "unat (current - 1) = unat current - 1" using unat_minus_one [of current] by (cases "current = 0") simp_all
  have "blk_Header (bs ! i) \<noteq> None \<and> unat (height_of (bs ! i)) + (length bs - 1 - i) = unat (current - 1)"
    if "i < length bs" for i
  proof -
    have "unat (height_of (bs ! i)) + (length bs - i) = unat current" "blk_Header (bs ! i) \<noteq> None"
      using conjunct1 [OF assms(1) [unfolded chained_def], rule_format, of i] that by (simp_all add: nth_append)
    then show ?thesis using pred that by linarith
  qed
  moreover have "distinct (map id_of bs)" using assms(1) by (simp add: chained_def)
  ultimately show ?thesis unfolding chained_def by blast
qed

lemma map_of_absent: "y \<notin> f ` set xs \<Longrightarrow> map_of (map (\<lambda>b. (f b, g b)) xs) y = None"
  by (auto simp: map_of_eq_None_iff)

lemma map_of_remove:
  "distinct (map f (xs @ y # zs)) \<Longrightarrow>
   (map_of (map (\<lambda>b. (f b, g b)) (xs @ y # zs)))(f y := None) = map_of (map (\<lambda>b. (f b, g b)) (xs @ zs))"
  by (rule ext) (auto simp: map_add_def map_of_absent split: option.splits)

lemma map_of_snoc:
  "f y \<notin> f ` set xs \<Longrightarrow> map_of (map (\<lambda>b. (f b, g b)) (xs @ [y])) = (map_of (map (\<lambda>b. (f b, g b)) xs))(f y \<mapsto> g y)"
  by (rule ext) (auto simp: map_add_def map_of_absent split: option.splits)

lemma evict_holds:
  assumes "holds c bs"
  shows "\<exists>c'. cache_evict c = Return c' \<and> holds c' (drop (length bs + 1 - nat (bc_maxSize c)) bs)
    \<and> bc_maxSize c' = bc_maxSize c \<and> bc_currentHeight c' = bc_currentHeight c
    \<and> bc_size c' < bc_maxSize c"
proof (cases "bc_size c \<ge> bc_maxSize c")
  case False
  then have "length bs + 1 - nat (bc_maxSize c) = 0" using assms by (simp add: holds_def)
  then show ?thesis using False assms by (simp add: cache_evict_def)
next
  case True
  have len: "int (length bs) = bc_maxSize c" "bc_size c = int (length bs)" "0 < length bs" using True assms by (auto simp: holds_def)
  then obtain b rest where bs: "bs = b # rest" by (cases bs) auto
  have ch: "chained (bc_currentHeight c) (b # rest)" using assms bs by (simp add: holds_def)
  then have "unat (height_of b) + length rest = unat (bc_currentHeight c)" by (auto simp: chained_def dest!: spec [of _ 0])
  then have "of_nat (unat (height_of b) + length rest) = (of_nat (unat (bc_currentHeight c)) :: u32)" by (rule arg_cong)
  then have "height_of b + of_nat (length rest) = bc_currentHeight c" by simp
  moreover have "(word_of_int (bc_maxSize c) :: u32) = of_nat (length rest) + 1"
    using len(1) bs by (metis add.commute length_Cons of_int_of_nat_eq of_nat_Suc)
  ultimately have old: "bc_currentHeight c - word_of_int (bc_maxSize c) + 1 = height_of b" by (simp add: algebra_simps)
  have dh: "distinct (map height_of ([] @ b # rest))" "distinct (map id_of ([] @ b # rest))"
    using chained_heights [OF ch] ch by (simp_all add: chained_def)
  have m: "bc_heightIndex c = map_of (map (\<lambda>b. (height_of b, id_of b)) (b # rest))"
    "bc_cachedBlocks c = map_of (map (\<lambda>b. (id_of b, b)) (b # rest))" using assms bs by (simp_all add: holds_def)
  let ?c = "c\<lparr>bc_heightIndex := (bc_heightIndex c)(height_of b := None),
    bc_cachedBlocks := (bc_cachedBlocks c)(id_of b := None), bc_size := bc_size c - 1\<rparr>"
  have "cache_evict c = Return ?c" using True m(1) old by (simp add: cache_evict_def)
  moreover have "holds ?c rest"
    using map_of_remove [OF dh(1), of id_of] map_of_remove [OF dh(2), of "\<lambda>b. b"] m chained_tl [OF ch] assms bs len
    by (simp add: holds_def)
  moreover have "length bs + 1 - nat (bc_maxSize c) = 1" using len(1) by linarith
  ultimately show ?thesis using len bs by simp
qed

lemma push_holds:
  assumes c: "holds c bs" and h: "blk_Header b = Some h"
    and follows: "bs \<noteq> [] \<Longrightarrow> bh_Height h = bc_currentHeight c + 1 \<and> bc_currentHeight c < bh_Height h"
    and fresh: "bh_ID h \<notin> id_of ` set bs"
  shows "\<exists>c'. cache_push c b = Return c' \<and> holds c' (push_list (bc_maxSize c) bs b) \<and> bc_maxSize c' = bc_maxSize c"
proof -
  let ?k = "length bs + 1 - nat (bc_maxSize c)"
  obtain c1 where c1: "cache_evict c = Return c1" "holds c1 (drop ?k bs)" "bc_maxSize c1 = bc_maxSize c"
    "bc_currentHeight c1 = bc_currentHeight c" "bc_size c1 < bc_maxSize c"
    using evict_holds [OF c] by blast
  let ?bs = "drop ?k bs"
  have "?k \<le> length bs" using c by (auto simp: holds_def)
  then have pl: "push_list (bc_maxSize c) bs b = ?bs @ [b]" by (simp add: push_list_def)
  have up: "unat (bh_Height h) = unat (bc_currentHeight c) + 1" if "?bs \<noteq> []"
  proof -
    have "bs \<noteq> []" using that by auto
    then have "bh_Height h = bc_currentHeight c + 1" "bc_currentHeight c < bc_currentHeight c + 1"
      using follows by metis+
    then have "bh_Height h = bc_currentHeight c + 1" "bc_currentHeight c \<le> bc_currentHeight c + 1" by simp_all
    then show ?thesis using unat_plus_simple [of "bc_currentHeight c" 1] by simp
  qed
  have fr: "bh_ID h \<notin> id_of ` set ?bs" using fresh by (auto dest: in_set_dropD)
  have ch: "chained (bh_Height h) (?bs @ [b])"
    using chained_snoc [OF _ h up fr] c1(2,4) by (simp add: holds_def)
  have ids: "id_of b = bh_ID h" "height_of b = bh_Height h" using h by (simp_all add: id_of_def height_of_def)
  have "height_of b \<notin> height_of ` set ?bs" using chained_heights [OF ch] by simp
  note maps = map_of_snoc [of height_of b ?bs id_of, OF this] map_of_snoc [of id_of b ?bs "\<lambda>b. b"]
  let ?c = "c1\<lparr>bc_cachedBlocks := (bc_cachedBlocks c1)(bh_ID h \<mapsto> b),
    bc_heightIndex := (bc_heightIndex c1)(bh_Height h \<mapsto> bh_ID h), bc_currentHeight := bh_Height h,
    bc_size := bc_size c1 + 1\<rparr>"
  have "bc_size c = 0 \<or> bs \<noteq> []" using c by (auto simp: holds_def)
  then have "cache_push c b = Return ?c" using h c1(1) follows c by (auto simp: cache_push_def header_of_def holds_def)
  moreover have "holds ?c (?bs @ [b])"
    using maps fr ids ch c1(2,3,5) by (simp add: holds_def)
  ultimately show ?thesis using pl c1(3) by simp
qed

lemma pop_holds:
  assumes "holds c (bs @ [b])"
  shows "\<exists>c'. cache_pop c = (Some b, c') \<and> holds c' bs \<and> bc_maxSize c' = bc_maxSize c"
proof -
  have ch: "chained (bc_currentHeight c) (bs @ [b])" using assms by (simp add: holds_def)
  then have cur: "height_of b = bc_currentHeight c"
    by (auto simp: chained_def nth_append word_unat_eq_iff dest!: spec [of _ "length bs"])
  have d: "distinct (map height_of (bs @ [b]))" "distinct (map id_of (bs @ [b]))"
    using chained_heights [OF ch] ch by (simp_all add: chained_def)
  have m: "bc_heightIndex c = map_of (map (\<lambda>b. (height_of b, id_of b)) (bs @ [b]))"
    "bc_cachedBlocks c = map_of (map (\<lambda>b. (id_of b, b)) (bs @ [b]))" using assms by (simp_all add: holds_def)
  have fr: "height_of b \<notin> height_of ` set bs" "id_of b \<notin> id_of ` set bs" using d by simp_all
  have sel: "bc_heightIndex c (bc_currentHeight c) = Some (id_of b)" "bc_cachedBlocks c (id_of b) = Some b"
    using map_of_snoc [OF fr(1), of id_of] map_of_snoc [OF fr(2), of "\<lambda>b. b"] m cur by simp_all
  have "chained (bc_currentHeight c - 1) bs"
    using chained_butlast [OF ch] by (cases "bs = []") (simp_all add: chained_def)
  moreover have "(bc_heightIndex c)(bc_currentHeight c := None) = map_of (map (\<lambda>b. (height_of b, id_of b)) bs)"
    "(bc_cachedBlocks c)(id_of b := None) = map_of (map (\<lambda>b. (id_of b, b)) bs)"
    using map_of_remove [OF d(1), of id_of] map_of_remove [OF d(2), of "\<lambda>b. b"] m cur by simp_all
  moreover have "cache_pop c = (Some b, c\<lparr>bc_heightIndex := (bc_heightIndex c)(bc_currentHeight c := None),
      bc_cachedBlocks := (bc_cachedBlocks c)(id_of b := None), bc_size := bc_size c - 1,
      bc_currentHeight := bc_currentHeight c - 1\<rparr>)" (is "_ = (_, ?c)")
    using sel assms unfolding cache_pop_def Let_def by (simp add: holds_def)
  ultimately have "holds ?c bs" using assms unfolding holds_def by auto
  then show ?thesis using \<open>cache_pop c = (Some b, ?c)\<close> by simp
qed

lemma current_height:
  assumes "holds c bs" "bs \<noteq> []"
  shows "height_of (last bs) = bc_currentHeight c"
proof -
  have ch: "chained (bc_currentHeight c) bs" using assms(1) by (simp add: holds_def)
  have "length bs - 1 < length bs" using assms(2) by simp
  then have "unat (height_of (bs ! (length bs - 1))) + (length bs - 1 - (length bs - 1)) = unat (bc_currentHeight c)"
    using ch unfolding chained_def by blast
  then show ?thesis using assms(2) by (simp add: last_conv_nth word_unat_eq_iff)
qed

lemma lookups:
  assumes "holds c bs"
  shows "cache_get c i = find (\<lambda>b. id_of b = i) bs"
    and "cache_getByHeight c h = find (\<lambda>b. height_of b = h) bs"
proof -
  have m: "bc_heightIndex c = map_of (map (\<lambda>b. (height_of b, id_of b)) bs)"
    "bc_cachedBlocks c = map_of (map (\<lambda>b. (id_of b, b)) bs)" and ch: "chained (bc_currentHeight c) bs"
    using assms by (simp_all add: holds_def)
  have f: "map_of (map (\<lambda>b. (k b, v b)) xs) x = map_option v (find (\<lambda>b. k b = x) xs)"
    for k :: "Block \<Rightarrow> 'k" and v :: "Block \<Rightarrow> 'v" and xs x by (induction xs) auto
  have g: "cache_get c i = find (\<lambda>b. id_of b = i) bs" for i
    using f [of id_of "\<lambda>b. b" bs i] m(2) by (simp add: cache_get_def option.map_ident)
  have d: "distinct (map id_of bs)" using ch by (simp add: chained_def)
  have "find (\<lambda>b. id_of b = id_of x) bs = Some x" if "x \<in> set bs" for x
    using d that by (induction bs) auto
  moreover have "x \<in> set bs" if "find (\<lambda>b. height_of b = h) bs = Some x" for x
    using that by (auto simp: find_Some_iff)
  ultimately have "cache_getByHeight c h = find (\<lambda>b. height_of b = h) bs"
    using f [of height_of id_of bs h] m(1) g unfolding cache_getByHeight_def cache_get_def
    by (cases "find (\<lambda>b. height_of b = h) bs") auto
  then show "cache_get c i = find (\<lambda>b. id_of b = i) bs" "cache_getByHeight c h = find (\<lambda>b. height_of b = h) bs"
    using g by simp_all
qed

lemma last_holds:
  assumes "holds c bs"
  shows "cache_last c = (if bs = [] then None else Some (last bs))"
proof (cases "bs = []")
  case True
  then show ?thesis using lookups(2) [OF assms] by (simp add: cache_last_def)
next
  case False
  then obtain xs b where bs: "bs = xs @ [b]" by (metis append_butlast_last_id)
  have "distinct (map height_of bs)" using chained_heights [of "bc_currentHeight c" bs] assms by (simp add: holds_def)
  then have "find (\<lambda>x. height_of x = height_of b) bs = Some b"
    unfolding bs by (induction xs) auto
  then show ?thesis using lookups(2) [OF assms] current_height [OF assms False] bs by (simp add: cache_last_def)
qed

text \<open>What the chain relies on: a bounded stack of blocks.\<close>

locale bounded_stack =
  fixes rep :: "'s \<Rightarrow> 'b list \<Rightarrow> bool" and push :: "'s \<Rightarrow> 'b \<Rightarrow> ('e, 's) outcome"
    and pop :: "'s \<Rightarrow> 'b option \<times> 's" and top :: "'s \<Rightarrow> 'b option"
    and may_follow :: "'b list \<Rightarrow> 'b \<Rightarrow> bool" and cap :: nat
  assumes push_rep: "rep s bs \<Longrightarrow> may_follow bs b \<Longrightarrow>
      \<exists>s'. push s b = Return s' \<and> rep s' (drop (length bs + 1 - cap) (bs @ [b]))"
    and pop_rep: "rep s (bs @ [b]) \<Longrightarrow> \<exists>s'. pop s = (Some b, s') \<and> rep s' bs"
    and top_rep: "rep s bs \<Longrightarrow> top s = (if bs = [] then None else Some (last bs))"
    and bounded: "rep s bs \<Longrightarrow> length bs \<le> cap"
    and may_follow_drop: "may_follow bs b \<Longrightarrow> may_follow (drop k bs) b"
begin

lemma push_pop:
  assumes "rep s bs" "may_follow bs b" "length bs < cap"
  shows "\<exists>s'. push s b = Return s' \<and> top s' = Some b \<and> (\<exists>s''. pop s' = (Some b, s'') \<and> rep s'' bs)"
proof -
  obtain s' where "push s b = Return s'" "rep s' (bs @ [b])"
    using push_rep [OF assms(1,2)] assms(3) by auto
  then show ?thesis using pop_rep [of s' bs b] top_rep [of s' "bs @ [b]"] by auto
qed

lemma push_all:
  assumes "rep s (drop (length ys - cap) ys)" "\<And>i. i < length xs \<Longrightarrow> may_follow (ys @ take i xs) (xs ! i)"
  shows "\<exists>s'. ofold push s xs = Return s' \<and> rep s' (drop (length (ys @ xs) - cap) (ys @ xs))"
  using assms
proof (induction xs arbitrary: s ys)
  case Nil
  then show ?case by simp
next
  case (Cons b xs)
  let ?r = "drop (length ys - cap) ys"
  have "may_follow ys b" using Cons.prems(2) [of 0] by simp
  then have "may_follow ?r b" by (rule may_follow_drop)
  then obtain s1 where s1: "push s b = Return s1" "rep s1 (drop (length ?r + 1 - cap) (?r @ [b]))"
    using push_rep [OF Cons.prems(1)] by blast
  have "drop (length ?r + 1 - cap) (?r @ [b]) = drop (length (ys @ [b]) - cap) (ys @ [b])"
    by (cases "length ys < cap") (auto simp: not_less Suc_diff_le)
  moreover have "may_follow ((ys @ [b]) @ take i xs) (xs ! i)" if "i < length xs" for i
    using Cons.prems(2) [of "Suc i"] that by simp
  ultimately show ?case using Cons.IH [of s1 "ys @ [b]"] s1 by simp
qed

end

definition follows_block :: "Block list \<Rightarrow> Block \<Rightarrow> bool" where
  "follows_block bs b \<longleftrightarrow> blk_Header b \<noteq> None \<and> id_of b \<notin> id_of ` set bs
     \<and> (bs \<noteq> [] \<longrightarrow> height_of b = height_of (last bs) + 1 \<and> height_of (last bs) < height_of b)"

interpretation bc: bounded_stack "\<lambda>c bs. holds c bs \<and> bc_maxSize c = int n" cache_push cache_pop cache_last follows_block n
  for n
proof (unfold_locales, goal_cases)
  case (1 c bs b)
  then obtain h where h: "blk_Header b = Some h" by (auto simp: follows_block_def)
  then have "\<exists>c'. cache_push c b = Return c' \<and> holds c' (push_list (bc_maxSize c) bs b) \<and> bc_maxSize c' = bc_maxSize c"
    using 1 current_height [of c bs] by (intro push_holds) (auto simp: follows_block_def id_of_def height_of_def)
  then show ?case using 1 by (simp add: push_list_def)
next
  case (2 c bs b)
  then show ?case using pop_holds [of c bs b] by auto
next
  case (3 c bs)
  then show ?case using last_holds [of c bs] by blast
next
  case (4 c bs)
  then show ?case by (simp add: holds_def)
next
  case (5 bs b k)
  then show ?case by (cases "k < length bs") (auto simp: follows_block_def dest: in_set_dropD)
qed

section \<open>The block cache is a bounded list of blocks\<close>

lemma cache_refines:
  assumes "holds c bs"
  shows "cache_get c i = find (\<lambda>b. id_of b = i) bs"
    and "cache_getByHeight c h = find (\<lambda>b. height_of b = h) bs"
    and "cache_last c = (if bs = [] then None else Some (last bs))"
    and "follows_block bs b \<Longrightarrow>
      \<exists>c'. cache_push c b = Return c' \<and> holds c' (push_list (bc_maxSize c) bs b) \<and> bc_maxSize c' = bc_maxSize c"
    and "bs \<noteq> [] \<Longrightarrow> blk_Header b \<noteq> None \<Longrightarrow> height_of b \<noteq> height_of (last bs) + 1 \<Longrightarrow>
      cache_push c b = Error Err_not_consecutive"
    and "bs \<noteq> [] \<Longrightarrow>
      \<exists>c'. cache_pop c = (Some (last bs), c') \<and> holds c' (butlast bs) \<and> bc_maxSize c' = bc_maxSize c"
    and "bs = [] \<Longrightarrow> cache_pop c = (None, c)"
proof -
  have size: "bc_maxSize c = int (nat (bc_maxSize c))" "bc_size c = int (length bs)" using assms by (simp_all add: holds_def)
  show "cache_get c i = find (\<lambda>b. id_of b = i) bs" "cache_getByHeight c h = find (\<lambda>b. height_of b = h) bs"
    using lookups [OF assms] by simp_all
  show "cache_last c = (if bs = [] then None else Some (last bs))" by (rule last_holds [OF assms])
  show "\<exists>c'. cache_push c b = Return c' \<and> holds c' (push_list (bc_maxSize c) bs b) \<and> bc_maxSize c' = bc_maxSize c"
    if "follows_block bs b"
    using bc.push_rep [of c bs "nat (bc_maxSize c)" b] that assms size(1) by (auto simp: push_list_def)
  show "cache_push c b = Error Err_not_consecutive"
    if "bs \<noteq> []" "blk_Header b \<noteq> None" "height_of b \<noteq> height_of (last bs) + 1"
    using that current_height [OF assms that(1)] size(2)
    by (auto simp: cache_push_def header_of_def height_of_def)
  show "\<exists>c'. cache_pop c = (Some (last bs), c') \<and> holds c' (butlast bs) \<and> bc_maxSize c' = bc_maxSize c"
    if "bs \<noteq> []"
    using pop_holds [of c "butlast bs" "last bs"] assms that by simp
  show "cache_pop c = (None, c)" if "bs = []" using that size(2) by (simp add: cache_pop_def)
qed

text \<open>
  C32: The block cache implements a list of at most \<^verbatim>\<open>maxSize\<close> blocks with consecutive heights.
  \<^verbatim>\<open>get\<close> and \<^verbatim>\<open>getByHeight\<close> find the block of the list with the ID or the height, \<^verbatim>\<open>last\<close> is the last
  one. \<^verbatim>\<open>push\<close> of a block with the next height and a new ID appends it, and drops the oldest block of a
  full list; a block with another height is an error. \<^verbatim>\<open>pop\<close> takes the last block off the list, and
  does nothing on an empty one.
\<close>

theorem block_cache_refines:
  assumes "holds c bs"
  shows "cache_get c i = find (\<lambda>b. id_of b = i) bs
    \<and> cache_getByHeight c h = find (\<lambda>b. height_of b = h) bs
    \<and> cache_last c = (if bs = [] then None else Some (last bs))
    \<and> (follows_block bs b \<longrightarrow>
      (\<exists>c'. cache_push c b = Return c' \<and> holds c' (push_list (bc_maxSize c) bs b) \<and> bc_maxSize c' = bc_maxSize c))
    \<and> (bs \<noteq> [] \<and> blk_Header b \<noteq> None \<and> height_of b \<noteq> height_of (last bs) + 1 \<longrightarrow>
      cache_push c b = Error Err_not_consecutive)
    \<and> (bs \<noteq> [] \<longrightarrow>
      (\<exists>c'. cache_pop c = (Some (last bs), c') \<and> holds c' (butlast bs) \<and> bc_maxSize c' = bc_maxSize c))
    \<and> (bs = [] \<longrightarrow> cache_pop c = (None, c))"
  by (intro conjI impI; (elim conjE)?; rule cache_refines [OF assms]; assumption?)

definition height_block :: "u32 \<Rightarrow> Block" where
  "height_block h = \<lparr>blk_Header = Some (BlockHeader_zero\<lparr>bh_Height := h, bh_ID := [ucast h]\<rparr>),
     blk_Transactions = [], blk_Assets = []\<rparr>"

lemma sample_holds: "\<exists>c. holds c [height_block 7] \<and> bc_maxSize c = 1 \<and> cache_push (newBlockCache 1) (height_block 7) = Return c"
  using bc.push_rep [of "newBlockCache 1" "[]" 1 "height_block 7"] new_holds [of 1]
  by (auto simp: newBlockCache_def follows_block_def height_block_def)

theorem block_cache_refines_witness:
  "\<exists>c. holds c [height_block 7] \<and> cache_last c = Some (height_block 7)
     \<and> cache_push c (height_block 9) = Error Err_not_consecutive
     \<and> (\<exists>c'. cache_push c (height_block 8) = Return c' \<and> holds c' [height_block 8])
     \<and> (\<exists>c'. cache_pop c = (Some (height_block 7), c') \<and> holds c' [])"
proof -
  obtain c where c: "holds c [height_block 7]" "bc_maxSize c = 1" using sample_holds by blast
  have h: "height_of (height_block k) = k" "blk_Header (height_block k) \<noteq> None" "id_of (height_block k) = [ucast k]" for k
    by (simp_all add: height_block_def height_of_def id_of_def)
  have "follows_block [height_block 7] (height_block 8)" by (simp add: follows_block_def h)
  then have "\<exists>c'. cache_push c (height_block 8) = Return c' \<and> holds c' [height_block 8]"
    using block_cache_refines [OF c(1), of i h "height_block 8" for i h] c(2) by (fastforce simp: push_list_def)
  moreover have "cache_push c (height_block 9) = Error Err_not_consecutive"
    using block_cache_refines [OF c(1), of i h' "height_block 9" for i h'] h by simp
  ultimately show ?thesis
    using c(1) block_cache_refines [OF c(1), of "[]" 0 "height_block 9"] by (intro exI [of _ c]) auto
qed

end
