(* ===== verification/Chain.thy ===== *)
theory Chain
  imports Block_Cache Db
begin

text \<open>
  The stored chain (\<^verbatim>\<open>pkg/blockchain/data_access.go\<close>, \<^verbatim>\<open>pkg/blockchain/chain.go\<close>): the keys under
  which blocks, transactions, assets, events and the finalized height are kept in the database, the
  reads that go through the block cache, and adding and removing the last block.

  The database of the data access and the database of the chain are the same object.  The functions
  that start goroutines only read, so that the tasks have fixed results: the order in which an
  \<^verbatim>\<open>errgroup\<close> (\<^verbatim>\<open>golang.org/x/sync\<close>) finishes them is the parameter \<open>sched\<close>, which its
  documentation makes a permutation of the tasks.
\<close>

datatype chain_error =
    Err_data_not_found
  | Err_data_block block_error
  | Err_data_codec codec_error
  | Err_data_cache cache_error
  | Err_block_at_height u32 chain_error
  | Err_genesis_mismatch bytes bytes
  | Err_genesis_removed

text \<open>\<^verbatim>\<open>errors.Is\<close> follows the wrapped error.\<close>

fun is_not_found :: "chain_error \<Rightarrow> bool" where
  "is_not_found Err_data_not_found = True"
| "is_not_found (Err_block_at_height h e) = is_not_found e"
| "is_not_found _ = False"

section \<open>Groups of tasks\<close>

type_synonym schedule = "nat \<Rightarrow> nat list"

definition schedule_ok :: "schedule \<Rightarrow> bool" where
  "schedule_ok sched \<longleftrightarrow> (\<forall>n. mset (sched n) = mset [0..<n])"

fun is_panic :: "('e, 'a) outcome \<Rightarrow> bool" where
  "is_panic Panic = True"
| "is_panic _ = False"

text \<open>
  \<^verbatim>\<open>Wait\<close> returns the error of the task that failed first; a panic in a goroutine ends the program.
  The result lists the finished tasks with their values, in the order in which they finish.
\<close>

definition group_wait :: "schedule \<Rightarrow> ('e, 'a) outcome list \<Rightarrow> ('e, (nat \<times> 'a) list) outcome" where
  "group_wait sched tasks =
     (if list_ex is_panic tasks then Panic
      else omapM (\<lambda>i. omap (Pair i) (tasks ! i)) (sched (length tasks)))"

text \<open>A group whose task \<open>i\<close> writes slot \<open>i\<close> of a slice.\<close>

definition group_fill :: "schedule \<Rightarrow> ('e, 'a) outcome list \<Rightarrow> ('e, 'a list) outcome" where
  "group_fill sched tasks =
     obind (group_wait sched tasks) (\<lambda>finished.
       Return (List.map_filter (map_of finished) [0..<length tasks]))"

text \<open>A group whose tasks append to a slice, or leave it as it is.\<close>

definition group_append :: "schedule \<Rightarrow> ('e, 'a option) outcome list \<Rightarrow> ('e, 'a list) outcome" where
  "group_append sched tasks =
     obind (group_wait sched tasks) (\<lambda>finished. Return (List.map_filter snd finished))"

section \<open>Data access\<close>

abbreviation idSize :: nat where
  "idSize \<equiv> 32"

abbreviation dbPrefixBlockIDToBlockHeader :: byte where
  "dbPrefixBlockIDToBlockHeader \<equiv> 3"

abbreviation dbPrefixBlockHeightToBlockID :: byte where
  "dbPrefixBlockHeightToBlockID \<equiv> 4"

abbreviation dbPrefixBlockIDToTxs :: byte where
  "dbPrefixBlockIDToTxs \<equiv> 5"

abbreviation dbPrefixTxIDToTx :: byte where
  "dbPrefixTxIDToTx \<equiv> 6"

abbreviation dbPrefixTemp :: byte where
  "dbPrefixTemp \<equiv> 7"

abbreviation dbPrefixBlockIDToAssets :: byte where
  "dbPrefixBlockIDToAssets \<equiv> 8"

abbreviation dbPrefixBlockHeightToEvents :: byte where
  "dbPrefixBlockHeightToEvents \<equiv> 9"

abbreviation dbPrefixFinalizedHeight :: byte where
  "dbPrefixFinalizedHeight \<equiv> 27"

abbreviation DBPrefixState :: byte where
  "DBPrefixState \<equiv> 10"

abbreviation DBPrefixStateDiff :: byte where
  "DBPrefixStateDiff \<equiv> 51"

definition DBPrefixToBytes :: "byte \<Rightarrow> bytes" where
  "DBPrefixToBytes p = [p]"

record DataAccess =
  da_database :: store
  da_cache :: blockCache
  da_keepEventsForHeights :: int

definition NewDataAccess :: "store \<Rightarrow> int \<Rightarrow> int \<Rightarrow> DataAccess" where
  "NewDataAccess db maxCacheSize keepEventsForHeights =
     \<lparr>da_database = db, da_cache = newBlockCache maxCacheSize,
      da_keepEventsForHeights = keepEventsForHeights\<rparr>"

definition CachedLastBlock :: "DataAccess \<Rightarrow> Block option" where
  "CachedLastBlock d = cache_last (da_cache d)"

definition DataAccess_Cache :: "DataAccess \<Rightarrow> Block \<Rightarrow> (chain_error, DataAccess) outcome" where
  "DataAccess_Cache d block =
     obind (wrap_error Err_data_cache (cache_push (da_cache d) block)) (\<lambda>c. Return (d\<lparr>da_cache := c\<rparr>))"

definition DataAccess_Cached :: "DataAccess \<Rightarrow> u32 \<Rightarrow> bool" where
  "DataAccess_Cached d height \<longleftrightarrow> cache_getByHeight (da_cache d) height \<noteq> None"

definition RemoveCache :: "DataAccess \<Rightarrow> DataAccess" where
  "RemoveCache d = d\<lparr>da_cache := snd (cache_pop (da_cache d))\<rparr>"

subsection \<open>Reading the database\<close>

definition getBlockHeader :: "DataAccess \<Rightarrow> bytes \<Rightarrow> (chain_error, BlockHeader) outcome" where
  "getBlockHeader d i =
     (case DB_Get (da_database d) (Join [DBPrefixToBytes dbPrefixBlockIDToBlockHeader, i]) of
        None \<Rightarrow> Error Err_data_not_found
      | Some headerBytes \<Rightarrow>
          obind (wrap_error Err_data_codec (BlockHeader_Decode headerBytes)) (\<lambda>header.
            Return (header\<lparr>bh_ID := Hash headerBytes\<rparr>)))"

text \<open>The second decoding sets the fields of the message and leaves the ID and the size.\<close>

definition getTransaction ::
    "(bytes \<Rightarrow> bytes) \<Rightarrow> (bytes \<Rightarrow> bool) \<Rightarrow> DataAccess \<Rightarrow> bytes \<Rightarrow> (chain_error, Transaction) outcome" where
  "getTransaction nfc is_normal d i =
     (case DB_Get (da_database d) (Join [DBPrefixToBytes dbPrefixTxIDToTx, i]) of
        None \<Rightarrow> Error Err_data_not_found
      | Some txBytes \<Rightarrow>
          obind (wrap_error Err_data_block (NewTransaction nfc is_normal txBytes)) (\<lambda>tx.
          obind (wrap_error Err_data_codec (Transaction_Decode is_normal txBytes)) (\<lambda>decoded.
            Return (decoded\<lparr>tx_ID := tx_ID tx, tx_size := tx_size tx\<rparr>))))"

definition getTransactions ::
    "(bytes \<Rightarrow> bytes) \<Rightarrow> (bytes \<Rightarrow> bool) \<Rightarrow> schedule \<Rightarrow> DataAccess \<Rightarrow> bytes
     \<Rightarrow> (chain_error, Transaction list) outcome" where
  "getTransactions nfc is_normal sched d blockID =
     (case DB_Get (da_database d) (Join [DBPrefixToBytes dbPrefixBlockIDToTxs, blockID]) of
        None \<Rightarrow> Return []
      | Some txIDs \<Rightarrow>
          group_fill sched
            (map (\<lambda>i. let offset = i * idSize
                       in getTransaction nfc is_normal d (take idSize (drop offset txIDs)))
               [0..<length txIDs div idSize]))"

text \<open>The list of the encodings is itself a message.\<close>

definition encodableListToBytes :: "('a \<Rightarrow> bytes) \<Rightarrow> 'a list \<Rightarrow> bytes" where
  "encodableListToBytes encode assets = bytesList_Encode \<lparr>bl_items = map encode assets\<rparr>"

definition bytesToAssets :: "(bytes \<Rightarrow> bool) \<Rightarrow> bytes \<Rightarrow> (chain_error, BlockAsset list) outcome" where
  "bytesToAssets is_normal data =
     (if length data = 0 then Return []
      else obind (wrap_error Err_data_codec (bytesList_Decode data)) (\<lambda>list.
             omapM (\<lambda>item. wrap_error Err_data_codec (BlockAsset_Decode is_normal item)) (bl_items list)))"

definition bytesToEvents :: "(bytes \<Rightarrow> bool) \<Rightarrow> bytes \<Rightarrow> (chain_error, Event list) outcome" where
  "bytesToEvents is_normal data =
     (if length data = 0 then Return []
      else obind (wrap_error Err_data_codec (bytesList_Decode data)) (\<lambda>list.
             omapM (\<lambda>item. wrap_error Err_data_block (NewEvent is_normal item)) (bl_items list)))"

definition getBlockAssets :: "(bytes \<Rightarrow> bool) \<Rightarrow> DataAccess \<Rightarrow> bytes \<Rightarrow> (chain_error, BlockAsset list) outcome" where
  "getBlockAssets is_normal d blockID =
     (case DB_Get (da_database d) (Join [DBPrefixToBytes dbPrefixBlockIDToAssets, blockID]) of
        None \<Rightarrow> Return []
      | Some assets \<Rightarrow> bytesToAssets is_normal assets)"

definition getBlock ::
    "(bytes \<Rightarrow> bytes) \<Rightarrow> (bytes \<Rightarrow> bool) \<Rightarrow> schedule \<Rightarrow> DataAccess \<Rightarrow> bytes
     \<Rightarrow> (chain_error, Block) outcome" where
  "getBlock nfc is_normal sched d i =
     obind (getBlockHeader d i) (\<lambda>header.
     obind (getTransactions nfc is_normal sched d i) (\<lambda>txs.
     obind (getBlockAssets is_normal d i) (\<lambda>assets.
       Return \<lparr>blk_Header = Some header, blk_Transactions = txs, blk_Assets = assets\<rparr>)))"

subsection \<open>Reading through the cache\<close>

definition GetBlockHeader :: "DataAccess \<Rightarrow> bytes \<Rightarrow> (chain_error, BlockHeader option) outcome" where
  "GetBlockHeader d i =
     (case cache_get (da_cache d) i of
        Some cachedBlock \<Rightarrow> Return (blk_Header cachedBlock)
      | None \<Rightarrow> omap Some (getBlockHeader d i))"

definition GetBlockHeaderByHeight :: "DataAccess \<Rightarrow> u32 \<Rightarrow> (chain_error, BlockHeader option) outcome" where
  "GetBlockHeaderByHeight d height =
     (case cache_getByHeight (da_cache d) height of
        Some cachedBlock \<Rightarrow> Return (blk_Header cachedBlock)
      | None \<Rightarrow>
          (case DB_Get (da_database d) (Join [DBPrefixToBytes dbPrefixBlockHeightToBlockID, FromUint32 height]) of
             None \<Rightarrow> Error Err_data_not_found
           | Some i \<Rightarrow> omap Some (getBlockHeader d i)))"

text \<open>A task that finds nothing does not append.\<close>

definition skip_not_found :: "(chain_error, 'a option) outcome \<Rightarrow> (chain_error, 'a option) outcome" where
  "skip_not_found m = (case m of Error e \<Rightarrow> if is_not_found e then Return None else Error e | _ \<Rightarrow> m)"

definition GetBlockHeaders ::
    "schedule \<Rightarrow> DataAccess \<Rightarrow> bytes list \<Rightarrow> (chain_error, BlockHeader list) outcome" where
  "GetBlockHeaders sched d ids = group_append sched (map (\<lambda>i. skip_not_found (GetBlockHeader d i)) ids)"

definition GetBlockHeadersByHeights ::
    "schedule \<Rightarrow> DataAccess \<Rightarrow> u32 list \<Rightarrow> (chain_error, BlockHeader list) outcome" where
  "GetBlockHeadersByHeights sched d heights =
     group_append sched (map (\<lambda>h. skip_not_found (GetBlockHeaderByHeight d h)) heights)"

definition GetBlock ::
    "(bytes \<Rightarrow> bytes) \<Rightarrow> (bytes \<Rightarrow> bool) \<Rightarrow> schedule \<Rightarrow> DataAccess \<Rightarrow> bytes
     \<Rightarrow> (chain_error, Block) outcome" where
  "GetBlock nfc is_normal sched d i =
     (case cache_get (da_cache d) i of
        Some cachedBlock \<Rightarrow> Return cachedBlock
      | None \<Rightarrow> getBlock nfc is_normal sched d i)"

definition GetLastBlock :: "DataAccess \<Rightarrow> (chain_error, Block) outcome" where
  "GetLastBlock d =
     (case cache_last (da_cache d) of None \<Rightarrow> Error Err_data_not_found | Some block \<Rightarrow> Return block)"

definition GetBlockByHeight ::
    "(bytes \<Rightarrow> bytes) \<Rightarrow> (bytes \<Rightarrow> bool) \<Rightarrow> schedule \<Rightarrow> DataAccess \<Rightarrow> u32
     \<Rightarrow> (chain_error, Block) outcome" where
  "GetBlockByHeight nfc is_normal sched d height =
     (case cache_getByHeight (da_cache d) height of
        Some cachedBlock \<Rightarrow> Return cachedBlock
      | None \<Rightarrow>
          (case DB_Get (da_database d) (Join [DBPrefixToBytes dbPrefixBlockHeightToBlockID, FromUint32 height]) of
             None \<Rightarrow> Error Err_data_not_found
           | Some i \<Rightarrow> getBlock nfc is_normal sched d i))"

definition getLastBlock ::
    "(bytes \<Rightarrow> bytes) \<Rightarrow> (bytes \<Rightarrow> bool) \<Rightarrow> schedule \<Rightarrow> DataAccess \<Rightarrow> (chain_error, Block) outcome" where
  "getLastBlock nfc is_normal sched d =
     (case DB_Iterate (da_database d) (DBPrefixToBytes dbPrefixBlockHeightToBlockID) 1 True of
        [] \<Rightarrow> Error Err_data_not_found
      | kv # _ \<Rightarrow> GetBlock nfc is_normal sched d (snd kv))"

definition GetLastBlockHeader ::
    "(bytes \<Rightarrow> bytes) \<Rightarrow> (bytes \<Rightarrow> bool) \<Rightarrow> schedule \<Rightarrow> DataAccess
     \<Rightarrow> (chain_error, BlockHeader option) outcome" where
  "GetLastBlockHeader nfc is_normal sched d = omap blk_Header (getLastBlock nfc is_normal sched d)"

text \<open>
  The loop over the heights never ends when the last height is the largest one: the counter wraps
  around.  \<open>None\<close> stands for a call that does not return.
\<close>

partial_function (option) heights_loop :: "u32 \<Rightarrow> u32 \<Rightarrow> u32 list option" where
  "heights_loop to height =
     (if height \<le> to
      then Option.bind (heights_loop to (height + 1)) (\<lambda>hs. Some (height # hs))
      else Some [])"

text \<open>
  The slice has \<^verbatim>\<open>to-from+1\<close> slots, as a 32-bit number; the loop fills those of the heights that it
  visits, and the comparison of the sort dereferences every slot when there are at least two.
\<close>

definition GetBlocksBetweenHeight ::
    "(bytes \<Rightarrow> bytes) \<Rightarrow> (bytes \<Rightarrow> bool) \<Rightarrow> schedule \<Rightarrow> DataAccess \<Rightarrow> u32 \<Rightarrow> u32
     \<Rightarrow> (chain_error, Block list) outcome option" where
  "GetBlocksBetweenHeight nfc is_normal sched d fromH toH =
     (case heights_loop toH fromH of
        None \<Rightarrow> None
      | Some heights \<Rightarrow>
          Some (obind (group_fill sched
                         (map (\<lambda>h. wrap_error (Err_block_at_height h) (GetBlockByHeight nfc is_normal sched d h)) heights))
                  (\<lambda>blocks. if length heights < unat (toH - fromH + 1) then Panic
                            else if 1 < length blocks \<and> list_ex (\<lambda>b. blk_Header b = None) blocks then Panic
                            else Return (SortBlockByHeightAsc blocks))))"

definition GetTransaction ::
    "(bytes \<Rightarrow> bytes) \<Rightarrow> (bytes \<Rightarrow> bool) \<Rightarrow> DataAccess \<Rightarrow> bytes \<Rightarrow> (chain_error, Transaction) outcome" where
  "GetTransaction nfc is_normal d i = getTransaction nfc is_normal d i"

definition GetTransactions ::
    "(bytes \<Rightarrow> bytes) \<Rightarrow> (bytes \<Rightarrow> bool) \<Rightarrow> schedule \<Rightarrow> DataAccess \<Rightarrow> bytes list
     \<Rightarrow> (chain_error, Transaction list) outcome" where
  "GetTransactions nfc is_normal sched d ids =
     group_append sched (map (\<lambda>i. skip_not_found (omap Some (getTransaction nfc is_normal d i))) ids)"

definition GetTempBlocks ::
    "(bytes \<Rightarrow> bytes) \<Rightarrow> (bytes \<Rightarrow> bool) \<Rightarrow> DataAccess \<Rightarrow> (chain_error, Block list) outcome" where
  "GetTempBlocks nfc is_normal d =
     omapM (\<lambda>kv. wrap_error Err_data_block (NewBlock nfc is_normal (snd kv)))
       (DB_Iterate (da_database d) (DBPrefixToBytes dbPrefixTemp) (-1) True)"

definition ClearTempBlocks :: "DataAccess \<Rightarrow> DataAccess" where
  "ClearTempBlocks d =
     (let batch = fold (\<lambda>kv batch. Batch_Del batch (fst kv))
                    (DB_Iterate (da_database d) (DBPrefixToBytes dbPrefixTemp) (-1) True) []
      in d\<lparr>da_database := DB_Write (da_database d) batch\<rparr>)"

text \<open>The IDs that \<^verbatim>\<open>UpdateID\<close> returns are dropped.\<close>

definition GetEvents :: "(bytes \<Rightarrow> bool) \<Rightarrow> DataAccess \<Rightarrow> u32 \<Rightarrow> (chain_error, Event list) outcome" where
  "GetEvents is_normal d height =
     (case DB_Get (da_database d) (Join [DBPrefixToBytes dbPrefixBlockHeightToEvents, FromUint32 height]) of
        None \<Rightarrow> Error Err_data_not_found
      | Some encodedEvents \<Rightarrow> bytesToEvents is_normal encodedEvents)"

definition GetFinalizedHeight :: "DataAccess \<Rightarrow> (chain_error, u32) outcome" where
  "GetFinalizedHeight d =
     (case DB_Get (da_database d) (DBPrefixToBytes dbPrefixFinalizedHeight) of
        None \<Rightarrow> Error Err_data_not_found
      | Some finalizedHeightByte \<Rightarrow> ToUint32 finalizedHeightByte)"

subsection \<open>Saving and removing a block\<close>

definition saveTransactions :: "(bytes \<Rightarrow> bytes) \<Rightarrow> bytes \<Rightarrow> Transaction list \<Rightarrow> Batch \<Rightarrow> Batch" where
  "saveTransactions nfc blockID txs batch =
     (if length txs > 0
      then let batch = fold (\<lambda>tx batch. Batch_Set batch (Join [DBPrefixToBytes dbPrefixTxIDToTx, tx_ID tx])
                                          (Transaction_Encode nfc tx)) txs batch
           in Batch_Set batch (Join [DBPrefixToBytes dbPrefixBlockIDToTxs, blockID]) (Join (map tx_ID txs))
      else batch)"

text \<open>The events of finalized blocks below the kept heights are deleted.\<close>

definition pruneEvents :: "DataAccess \<Rightarrow> u32 \<Rightarrow> u32 \<Rightarrow> Batch \<Rightarrow> ('e, Batch) outcome" where
  "pruneEvents d height finalizedHeight batch =
     (if da_keepEventsForHeights d > -1
      then obind (ints_Max [0, int (unat height) - da_keepEventsForHeights d]) (\<lambda>m.
           obind (ints_Min [int (unat finalizedHeight), m]) (\<lambda>minEventDeleteHeight.
             if minEventDeleteHeight > 0
             then let kvs = DB_IterateRange (da_database d)
                              (Join [DBPrefixToBytes dbPrefixBlockHeightToEvents, FromUint32 0])
                              (Join [DBPrefixToBytes dbPrefixBlockHeightToEvents,
                                     FromUint32 (word_of_int minEventDeleteHeight)]) (-1) False
                  in Return (fold (\<lambda>kv batch. Batch_Del batch (fst kv)) kvs batch)
             else Return batch))
      else Return batch)"

definition saveBlock ::
    "(bytes \<Rightarrow> bytes) \<Rightarrow> DataAccess \<Rightarrow> Batch \<Rightarrow> Block \<Rightarrow> Event list \<Rightarrow> u32 \<Rightarrow> bool \<Rightarrow> ('e, Batch) outcome" where
  "saveBlock nfc d batch block events finalizedHeight removeTemp =
     obind (header_of block) (\<lambda>h.
       let height = FromUint32 (bh_Height h);
           batch = Batch_Set batch (Join [DBPrefixToBytes dbPrefixBlockIDToBlockHeader, bh_ID h]) (BlockHeader_Encode h);
           batch = Batch_Set batch (Join [DBPrefixToBytes dbPrefixBlockHeightToBlockID, height]) (bh_ID h);
           batch = saveTransactions nfc (bh_ID h) (blk_Transactions block) batch;
           batch = (if length events > 0
                    then Batch_Set batch (Join [DBPrefixToBytes dbPrefixBlockHeightToEvents, height])
                           (encodableListToBytes (Event_Encode nfc) events)
                    else batch);
           batch = (if length (blk_Assets block) > 0
                    then Batch_Set batch (Join [DBPrefixToBytes dbPrefixBlockIDToAssets, bh_ID h])
                           (encodableListToBytes (BlockAsset_Encode nfc) (blk_Assets block))
                    else batch);
           batch = Batch_Set batch (DBPrefixToBytes dbPrefixFinalizedHeight) (FromUint32 finalizedHeight)
       in obind (pruneEvents d (bh_Height h) finalizedHeight batch) (\<lambda>batch.
            Return (if removeTemp then Batch_Del batch (Join [DBPrefixToBytes dbPrefixTemp, height]) else batch)))"

definition removeBlock :: "(bytes \<Rightarrow> bytes) \<Rightarrow> Batch \<Rightarrow> Block \<Rightarrow> bool \<Rightarrow> ('e, Batch) outcome" where
  "removeBlock nfc batch block saveTemp =
     obind (header_of block) (\<lambda>h.
       let height = FromUint32 (bh_Height h);
           encodedBlock = Block_Encode nfc block;
           batch = Batch_Del batch (Join [DBPrefixToBytes dbPrefixBlockIDToBlockHeader, bh_ID h]);
           batch = Batch_Del batch (Join [DBPrefixToBytes dbPrefixBlockHeightToBlockID, height]);
           batch = (if length (blk_Transactions block) > 0
                    then Batch_Del
                           (fold (\<lambda>tx batch. Batch_Del batch (Join [DBPrefixToBytes dbPrefixTxIDToTx, tx_ID tx]))
                              (blk_Transactions block) batch)
                           (Join [DBPrefixToBytes dbPrefixBlockIDToTxs, bh_ID h])
                    else batch);
           batch = (if length (blk_Assets block) > 0
                    then Batch_Del batch (Join [DBPrefixToBytes dbPrefixBlockIDToAssets, bh_ID h])
                    else batch);
           batch = Batch_Del batch (Join [DBPrefixToBytes dbPrefixBlockHeightToEvents, height])
       in Return (if saveTemp then Batch_Set batch (Join [DBPrefixToBytes dbPrefixTemp, height]) encodedBlock
                  else batch))"

section \<open>The chain\<close>

record ChainConfig =
  cc_ChainID :: bytes
  cc_MaxTransactionsLength :: u32
  cc_MaxBlockCache :: int
  cc_KeepEventsForHeights :: int

record Chain =
  ch_maxTransactionsLength :: u32
  ch_maxBlockCache :: int
  ch_chainID :: bytes
  ch_keepEventsForHeights :: int
  ch_dataAccess :: "DataAccess option"
  ch_genesisBlock :: "Block option"

definition NewChain :: "ChainConfig \<Rightarrow> Chain" where
  "NewChain cfg =
     \<lparr>ch_maxTransactionsLength = cc_MaxTransactionsLength cfg, ch_maxBlockCache = cc_MaxBlockCache cfg,
      ch_chainID = cc_ChainID cfg, ch_keepEventsForHeights = cc_KeepEventsForHeights cfg,
      ch_dataAccess = None, ch_genesisBlock = None\<rparr>"

definition Chain_Init :: "Chain \<Rightarrow> Block \<Rightarrow> store \<Rightarrow> Chain" where
  "Chain_Init c genesisBlock db =
     c\<lparr>ch_dataAccess := Some (NewDataAccess db (ch_maxBlockCache c) (ch_keepEventsForHeights c)),
       ch_genesisBlock := Some genesisBlock\<rparr>"

text \<open>A nil pointer that is dereferenced panics.\<close>

definition deref :: "'a option \<Rightarrow> ('e, 'a) outcome" where
  "deref p = (case p of None \<Rightarrow> Panic | Some x \<Rightarrow> Return x)"

definition LastBlock :: "Chain \<Rightarrow> ('e, Block option) outcome" where
  "LastBlock c = omap CachedLastBlock (deref (ch_dataAccess c))"

definition last_header :: "DataAccess \<Rightarrow> ('e, BlockHeader) outcome" where
  "last_header d = obind (deref (CachedLastBlock d)) header_of"

definition GetLastNBlocks ::
    "(bytes \<Rightarrow> bytes) \<Rightarrow> (bytes \<Rightarrow> bool) \<Rightarrow> schedule \<Rightarrow> Chain \<Rightarrow> int
     \<Rightarrow> (chain_error, Block list) outcome option" where
  "GetLastNBlocks nfc is_normal sched c n =
     (case obind (deref (ch_dataAccess c)) (\<lambda>d.
           obind (obind (deref (ch_genesisBlock c)) header_of) (\<lambda>genesis.
           obind (last_header d) (\<lambda>lastHeader.
             let startHeight = bh_Height genesis;
                 startHeight = (if bh_Height lastHeader > startHeight + word_of_int n - 1
                                then bh_Height lastHeader - word_of_int n + 1 else startHeight)
             in Return (d, startHeight, bh_Height lastHeader)))) of
        Return (d, startHeight, lastHeight) \<Rightarrow> GetBlocksBetweenHeight nfc is_normal sched d startHeight lastHeight
      | Error e \<Rightarrow> Some (Error e)
      | Panic \<Rightarrow> Some Panic)"

definition GenesisBlockExist ::
    "(bytes \<Rightarrow> bytes) \<Rightarrow> (bytes \<Rightarrow> bool) \<Rightarrow> schedule \<Rightarrow> Chain \<Rightarrow> Block \<Rightarrow> (chain_error, bool) outcome" where
  "GenesisBlockExist nfc is_normal sched c block =
     obind (deref (ch_dataAccess c)) (\<lambda>d.
     obind (header_of block) (\<lambda>h.
       case GetBlockByHeight nfc is_normal sched d (bh_Height h) of
         Panic \<Rightarrow> Panic
       | Error e \<Rightarrow> if is_not_found e then Return False else Error e
       | Return existingBlock \<Rightarrow>
           obind (header_of existingBlock) (\<lambda>eh.
             if Equal (bh_ID eh) (bh_ID h) then Return True
             else Error (Err_genesis_mismatch (bh_ID h) (bh_ID eh)))))"

text \<open>
  The operations that change the chain return it also with an error: a block that the cache refuses
  is already in the database.
\<close>

definition AddBlock ::
    "(bytes \<Rightarrow> bytes) \<Rightarrow> Chain \<Rightarrow> Batch \<Rightarrow> Block \<Rightarrow> Event list \<Rightarrow> u32 \<Rightarrow> bool
     \<Rightarrow> (chain_error, unit) outcome \<times> Chain" where
  "AddBlock nfc c batch block events finalizedHeight removeTemp =
     (case obind (deref (ch_dataAccess c)) (\<lambda>d.
             obind (saveBlock nfc d batch block events finalizedHeight removeTemp) (\<lambda>batch.
               Return (d\<lparr>da_database := DB_Write (da_database d) batch\<rparr>))) of
        Return d \<Rightarrow>
          (case DataAccess_Cache d block of
             Return d' \<Rightarrow> (Return (), c\<lparr>ch_dataAccess := Some d'\<rparr>)
           | Error e \<Rightarrow> (Error e, c\<lparr>ch_dataAccess := Some d\<rparr>)
           | Panic \<Rightarrow> (Panic, c\<lparr>ch_dataAccess := Some d\<rparr>))
      | Error e \<Rightarrow> (Error e, c)
      | Panic \<Rightarrow> (Panic, c))"

definition RemoveBlock ::
    "(bytes \<Rightarrow> bytes) \<Rightarrow> Chain \<Rightarrow> Batch \<Rightarrow> bool \<Rightarrow> (chain_error, unit) outcome \<times> Chain" where
  "RemoveBlock nfc c batch saveTemp =
     (case obind (deref (ch_dataAccess c)) (\<lambda>d.
           obind (deref (CachedLastBlock d)) (\<lambda>lastBlock.
           obind (header_of lastBlock) (\<lambda>h.
           obind (obind (deref (ch_genesisBlock c)) header_of) (\<lambda>genesis.
             if bh_Height h = bh_Height genesis then Error Err_genesis_removed
             else obind (removeBlock nfc batch lastBlock saveTemp) (\<lambda>batch.
               Return (RemoveCache (d\<lparr>da_database := DB_Write (da_database d) batch\<rparr>))))))) of
        Return d \<Rightarrow> (Return (), c\<lparr>ch_dataAccess := Some d\<rparr>)
      | Error e \<Rightarrow> (Error e, c)
      | Panic \<Rightarrow> (Panic, c))"

text \<open>Blocks are cached one after the other; the ones before a refused block stay in the cache.\<close>

fun cache_blocks :: "DataAccess \<Rightarrow> Block list \<Rightarrow> (chain_error, unit) outcome \<times> DataAccess" where
  "cache_blocks d [] = (Return (), d)"
| "cache_blocks d (b # bs) =
     (case DataAccess_Cache d b of
        Return d' \<Rightarrow> cache_blocks d' bs
      | Error e \<Rightarrow> (Error e, d)
      | Panic \<Rightarrow> (Panic, d))"

definition PrepareCache ::
    "(bytes \<Rightarrow> bytes) \<Rightarrow> (bytes \<Rightarrow> bool) \<Rightarrow> schedule \<Rightarrow> Chain
     \<Rightarrow> ((chain_error, unit) outcome \<times> Chain) option" where
  "PrepareCache nfc is_normal sched c =
     (case ch_dataAccess c of
        None \<Rightarrow> Some (Panic, c)
      | Some d \<Rightarrow>
          (case getLastBlock nfc is_normal sched d of
             Panic \<Rightarrow> Some (Panic, c)
           | Error _ \<Rightarrow> Some (Return (), c)
           | Return lastBlock \<Rightarrow>
               (case blk_Header lastBlock of
                  None \<Rightarrow> Some (Panic, c)
                | Some h \<Rightarrow>
                    if bh_Height h = 0 \<and> DataAccess_Cached d 0 then Some (Return (), c)
                    else map_option
                      (\<lambda>blocks.
                         case blocks of
                           Panic \<Rightarrow> (Panic, c)
                         | Error e \<Rightarrow> (Error e, c)
                         | Return bs \<Rightarrow>
                             let (r, d') = cache_blocks d (bs @ [lastBlock])
                             in (r, c\<lparr>ch_dataAccess := Some d'\<rparr>))
                      (if bh_Height h > 0
                       then case ints_Max [0, int (unat (bh_Height h)) - ch_maxBlockCache c] of
                              Return minCacheHeight \<Rightarrow>
                                GetBlocksBetweenHeight nfc is_normal sched d (word_of_int minCacheHeight) (bh_Height h - 1)
                            | Error e \<Rightarrow> Some (Error e)
                            | Panic \<Rightarrow> Some Panic
                       else Some (Return [])))))"

section \<open>Groups of tasks\<close>

lemma schedule_set: "schedule_ok sched \<Longrightarrow> set (sched n) = {..<n}"
  unfolding schedule_ok_def by (metis atLeast0LessThan atLeastLessThan_upt mset_eq_setD)

lemma group_wait_Return:
  assumes "schedule_ok sched"
  shows "group_wait sched (map Return xs :: ('e, 'a) outcome list) = Return (map (\<lambda>i. (i, xs ! i)) (sched (length xs)))"
proof -
  have "omapM (\<lambda>i. omap (Pair i) ((map Return xs :: ('e, 'a) outcome list) ! i)) (map (\<lambda>i. i) (sched (length xs)))
      = Return (map (\<lambda>i. (i, xs ! i)) (sched (length xs)))"
    using schedule_set [OF assms] by (intro omapM_map_Return) simp
  moreover have "\<not> list_ex is_panic (map Return xs :: ('e, 'a) outcome list)" by (induction xs) auto
  ultimately show ?thesis by (simp add: group_wait_def)
qed

lemma group_fill_Return:
  assumes "schedule_ok sched"
  shows "group_fill sched (map Return xs :: ('e, 'a) outcome list) = Return xs"
proof -
  have "map_of (map (\<lambda>i. (i, xs ! i)) (sched (length xs))) i = Some (xs ! i)" if "i < length xs" for i
    using schedule_set [OF assms] that by (simp add: map_of_map_restrict)
  then have "List.map_filter (map_of (map (\<lambda>i. (i, xs ! i)) (sched (length xs)))) [0..<length xs]
      = map ((!) xs) [0..<length xs]"
    unfolding List.map_filter_def by (intro map_cong) (auto simp: filter_id_conv)
  then show ?thesis using group_wait_Return [OF assms, of xs, where ?'e = 'e] by (simp add: group_fill_def map_nth)
qed

lemma group_fill_eq:
  assumes "schedule_ok sched" "\<And>x. x \<in> set xs \<Longrightarrow> f x = Return (g x)"
  shows "group_fill sched (map f xs :: ('e, 'b) outcome list) = Return (map g xs)"
proof -
  have "map f xs = map Return (map g xs)" using assms(2) by simp
  then show ?thesis using group_fill_Return [OF assms(1), of "map g xs", where ?'e = 'e] by (simp only:)
qed

section \<open>The effect of a batch\<close>

fun op_key :: "batch_op \<Rightarrow> bytes" where
  "op_key (BatchSet k v) = k"
| "op_key (BatchDel k) = k"

fun op_val :: "batch_op \<Rightarrow> bytes option" where
  "op_val (BatchSet k v) = Some v"
| "op_val (BatchDel k) = None"

lemma DB_Get_op [simp]: "store_ok db \<Longrightarrow> DB_Get (apply_op op db) = (DB_Get db)(op_key op := op_val op)"
  by (cases op) auto

lemma DB_Get_batch:
  assumes "store_ok db" "\<And>op. op \<in> set ops \<Longrightarrow> op_key op = k \<Longrightarrow> op_val op = r"
  shows "DB_Get (DB_Write db ops) k = (if k \<in> op_key ` set ops then r else DB_Get db k)"
  using assms
proof (induction ops rule: rev_induct)
  case Nil
  then show ?case by (simp add: DB_Write_def)
next
  case (snoc op ops)
  have ok: "store_ok (DB_Write db ops)" using snoc.prems(1) by simp
  have "DB_Write db (ops @ [op]) = apply_op op (DB_Write db ops)" by (simp add: DB_Write_def)
  then show ?case using snoc ok by auto
qed

lemma DB_Get_batch_other:
  "store_ok db \<Longrightarrow> k \<notin> op_key ` set ops \<Longrightarrow> DB_Get (DB_Write db ops) k = DB_Get db k"
  using DB_Get_batch [of db ops k None] by force

lemma fold_Batch_Set: "fold (\<lambda>x b. b @ [BatchSet (f x) (g x)]) xs b = b @ map (\<lambda>x. BatchSet (f x) (g x)) xs"
  by (induction xs arbitrary: b) auto

lemma fold_Batch_Del: "fold (\<lambda>x b. b @ [BatchDel (f x)]) xs b = b @ map (\<lambda>x. BatchDel (f x)) xs"
  by (induction xs arbitrary: b) auto

text \<open>The operations that saving and removing a block add to a batch.\<close>

definition saved_ops :: "(bytes \<Rightarrow> bytes) \<Rightarrow> BlockHeader \<Rightarrow> Block \<Rightarrow> Event list \<Rightarrow> u32 \<Rightarrow> batch_op list" where
  "saved_ops nfc h b events fin =
     [BatchSet (3 # bh_ID h) (BlockHeader_Encode h), BatchSet (4 # FromUint32 (bh_Height h)) (bh_ID h)]
     @ map (\<lambda>t. BatchSet (6 # tx_ID t) (Transaction_Encode nfc t)) (blk_Transactions b)
     @ (if blk_Transactions b = [] then [] else [BatchSet (5 # bh_ID h) (concat (map tx_ID (blk_Transactions b)))])
     @ (if events = [] then [] else [BatchSet (9 # FromUint32 (bh_Height h)) (encodableListToBytes (Event_Encode nfc) events)])
     @ (if blk_Assets b = [] then []
        else [BatchSet (8 # bh_ID h) (encodableListToBytes (BlockAsset_Encode nfc) (blk_Assets b))])
     @ [BatchSet [27] (FromUint32 fin)]"

definition pruned :: "DataAccess \<Rightarrow> u32 \<Rightarrow> u32 \<Rightarrow> bytes list" where
  "pruned d height fin =
     (let m = min (int (unat fin)) (max 0 (int (unat height) - da_keepEventsForHeights d))
      in if da_keepEventsForHeights d > -1 \<and> m > 0
         then filter (\<lambda>k. 9 # FromUint32 0 \<le> k \<and> k \<le> 9 # FromUint32 (word_of_int m)) (map fst (da_database d))
         else [])"

definition removed_ops :: "BlockHeader \<Rightarrow> Block \<Rightarrow> batch_op list" where
  "removed_ops h b =
     [BatchDel (3 # bh_ID h), BatchDel (4 # FromUint32 (bh_Height h))]
     @ map (\<lambda>t. BatchDel (6 # tx_ID t)) (blk_Transactions b)
     @ (if blk_Transactions b = [] then [] else [BatchDel (5 # bh_ID h)])
     @ (if blk_Assets b = [] then [] else [BatchDel (8 # bh_ID h)])
     @ [BatchDel (9 # FromUint32 (bh_Height h))]"

lemma pruneEvents_eq:
  assumes "store_ok (da_database d)"
  shows "pruneEvents d height fin batch = Return (batch @ map BatchDel (pruned d height fin))"
proof -
  have m: "Max {0, x} = max 0 x" "Min {y, max 0 x} = min y (max 0 x)" for x y :: int by auto
  show ?thesis
    by (simp add: pruneEvents_def pruned_def collection_simps m Let_def iterateRange_forward [OF assms] fold_Batch_Del Batch_Del_def
        DBPrefixToBytes_def filter_map comp_def)
qed

lemma saveBlock_eq:
  assumes "store_ok (da_database d)" "blk_Header b = Some h"
  shows "saveBlock nfc d batch b events fin removeTemp =
    Return (batch @ saved_ops nfc h b events fin @ map BatchDel (pruned d (bh_Height h) fin)
      @ (if removeTemp then [BatchDel (7 # FromUint32 (bh_Height h))] else []))"
  using assms
  by (simp add: saveBlock_def header_of_def pruneEvents_eq saveTransactions_def fold_Batch_Set Let_def
      Batch_Set_def Batch_Del_def saved_ops_def DBPrefixToBytes_def)

lemma removeBlock_eq:
  assumes "blk_Header b = Some h"
  shows "removeBlock nfc batch b saveTemp =
    Return (batch @ removed_ops h b
      @ (if saveTemp then [BatchSet (7 # FromUint32 (bh_Height h)) (Block_Encode nfc b)] else []))"
  using assms
  by (simp add: removeBlock_def header_of_def fold_Batch_Del Let_def Batch_Set_def Batch_Del_def removed_ops_def
      DBPrefixToBytes_def)

section \<open>Reading back what was written\<close>

text \<open>
  The batch that the state machine hands over writes below the prefixes of the state and of the
  state diffs only.
\<close>

definition state_batch :: "Batch \<Rightarrow> bool" where
  "state_batch batch \<longleftrightarrow> (\<forall>op \<in> set batch. \<exists>p rest. op_key op = p # rest \<and> (p = 10 \<or> p = 51))"

text \<open>
  A block as the node holds it: its IDs and sizes are computed, its strings are normalised, it has
  an aggregate commit, and its encodings are shorter than \<open>2^63\<close> bytes.
\<close>

definition block_ready :: "(bytes \<Rightarrow> bytes) \<Rightarrow> (bytes \<Rightarrow> bool) \<Rightarrow> Block \<Rightarrow> BlockHeader \<Rightarrow> bool" where
  "block_ready nfc is_normal b h \<longleftrightarrow>
     blk_Header b = Some h \<and> bh_AggregateCommit h \<noteq> None \<and> bh_ID h = Hash (BlockHeader_Encode h)
     \<and> (\<forall>t \<in> set (blk_Transactions b). Transaction_Init nfc t = t
          \<and> text_ok nfc is_normal (tx_Module t) \<and> text_ok nfc is_normal (tx_Command t))
     \<and> (\<forall>a \<in> set (blk_Assets b). text_ok nfc is_normal (ba_Module a))
     \<and> (\<forall>t \<in> set (blk_Transactions b). \<forall>u \<in> set (blk_Transactions b). tx_ID t = tx_ID u \<longrightarrow> t = u)
     \<and> length (Block_Encode nfc b) < 2 ^ 63
     \<and> length (encodableListToBytes (BlockAsset_Encode nfc) (blk_Assets b)) < 2 ^ 63"

lemma pruned_key: "k \<in> set (pruned d height fin) \<Longrightarrow> \<exists>rest. k = 9 # rest"
  by (cases k) (auto simp: pruned_def Let_def split: if_splits)

lemma ready_lengths:
  assumes "block_ready nfc is_normal b h"
  shows "length (BlockHeader_Encode h) < 2 ^ 63"
    and "t \<in> set (blk_Transactions b) \<Longrightarrow> length (Transaction_Encode nfc t) < 2 ^ 63"
    and "a \<in> set (blk_Assets b) \<Longrightarrow> length (BlockAsset_Encode nfc a) < 2 ^ 63"
proof -
  let ?r = "\<lparr>rb_Header = BlockHeader_Encode h, rb_Transactions = map (Transaction_Encode nfc) (blk_Transactions b),
     rb_Assets = map (BlockAsset_Encode nfc) (blk_Assets b)\<rparr>"
  have "length (RawBlock_Encode ?r) < 2 ^ 63"
    using assms Block_Encode_raw [of b h nfc] by (simp add: block_ready_def)
  then show "length (BlockHeader_Encode h) < 2 ^ 63"
    "t \<in> set (blk_Transactions b) \<Longrightarrow> length (Transaction_Encode nfc t) < 2 ^ 63"
    "a \<in> set (blk_Assets b) \<Longrightarrow> length (BlockAsset_Encode nfc a) < 2 ^ 63"
    using RawBlock_parts(1) [of ?r] RawBlock_parts(2) [of "Transaction_Encode nfc t" ?r]
      RawBlock_parts(3) [of "BlockAsset_Encode nfc a" ?r] by auto
qed

lemma getBlockHeader_stored:
  assumes "block_ready nfc is_normal b h" "DB_Get (da_database d) (3 # bh_ID h) = Some (BlockHeader_Encode h)"
  shows "getBlockHeader d (bh_ID h) = Return h"
proof -
  have e: "BlockHeader_Encode (h\<lparr>bh_ID := []\<rparr>) = BlockHeader_Encode h" by (simp add: BlockHeader_Encode_def)
  have "BlockHeader_Decode (BlockHeader_Encode (h\<lparr>bh_ID := []\<rparr>)) = Return (h\<lparr>bh_ID := []\<rparr>)"
    unfolding BlockHeader_Decode_def using assms(1) ready_lengths(1) [OF assms(1)]
    by (intro bh_msg.decode_encode) (simp_all add: e BlockHeader_wf_def block_ready_def)
  then show ?thesis
    using assms by (simp add: getBlockHeader_def e block_ready_def DBPrefixToBytes_def)
qed

lemma getTransaction_stored:
  assumes "block_ready nfc is_normal b h" "t \<in> set (blk_Transactions b)"
    and "DB_Get (da_database d) (6 # tx_ID t) = Some (Transaction_Encode nfc t)"
  shows "getTransaction nfc is_normal d (tx_ID t) = Return t"
proof -
  let ?t = "t\<lparr>tx_ID := [], tx_size := 0\<rparr>"
  have e: "Transaction_Encode nfc ?t = Transaction_Encode nfc t" by (simp add: Transaction_Encode_def)
  have wf: "Transaction_wf nfc is_normal ?t" using assms(1,2) by (simp add: Transaction_wf_def block_ready_def)
  have len: "length (Transaction_Encode nfc t) < 2 ^ 63" by (rule ready_lengths(2) [OF assms(1,2)])
  have init: "Transaction_Init nfc t = t" using assms(1,2) by (simp add: block_ready_def)
  have "NewTransaction nfc is_normal (Transaction_Encode nfc t) = Return (Transaction_Init nfc ?t)"
    using NewTransaction_Encode [OF wf] len e by simp
  moreover have "Transaction_Decode is_normal (Transaction_Encode nfc t) = Return ?t"
    unfolding Transaction_Decode_def using tx_msg.decode_encode [OF wf] len e by simp
  moreover have "Transaction_Init nfc ?t = Transaction_Init nfc t"
    by (simp add: Transaction_Init_def e Let_def)
  ultimately show ?thesis
    using assms(3) init by (simp add: getTransaction_def DBPrefixToBytes_def)
qed

lemma length_concat_const: "(\<And>x. x \<in> set xs \<Longrightarrow> length x = n) \<Longrightarrow> length (concat xs) = length xs * n"
  by (induction xs) auto

lemma take_drop_blocks:
  "(\<And>x. x \<in> set xs \<Longrightarrow> length x = n) \<Longrightarrow> i < length xs \<Longrightarrow> take n (drop (i * n) (concat xs)) = xs ! i"
proof (induction xs arbitrary: i)
  case (Cons x xs)
  then show ?case by (cases i) auto
qed simp

lemma getTransactions_stored:
  assumes "schedule_ok sched" "block_ready nfc is_normal b h"
    and "\<And>t. t \<in> set (blk_Transactions b) \<Longrightarrow> DB_Get (da_database d) (6 # tx_ID t) = Some (Transaction_Encode nfc t)"
    and "DB_Get (da_database d) (5 # bh_ID h) =
      (if blk_Transactions b = [] then None else Some (concat (map tx_ID (blk_Transactions b))))"
  shows "getTransactions nfc is_normal sched d (bh_ID h) = Return (blk_Transactions b)"
proof (cases "blk_Transactions b = []")
  case True
  then show ?thesis using assms(4) by (simp add: getTransactions_def DBPrefixToBytes_def)
next
  case False
  let ?txs = "blk_Transactions b"
  have l: "length (tx_ID t) = 32" if "t \<in> set ?txs" for t
  proof -
    have "length (tx_ID (Transaction_Init nfc t)) = 32" by (simp add: Transaction_Init_def Let_def)
    moreover have "Transaction_Init nfc t = t" using assms(2) that by (simp add: block_ready_def)
    ultimately show ?thesis by simp
  qed
  have n: "length (concat (map tx_ID ?txs)) div 32 = length ?txs"
    using l by (subst length_concat_const [of "map tx_ID ?txs" 32]) auto
  have td: "take 32 (drop (i * 32) (concat (map tx_ID ?txs))) = tx_ID (?txs ! i)" if "i < length ?txs" for i
    using l that by (subst take_drop_blocks [of "map tx_ID ?txs" 32]) auto
  have "group_fill sched (map (\<lambda>i. getTransaction nfc is_normal d (take 32 (drop (i * 32) (concat (map tx_ID ?txs)))))
      [0..<length ?txs]) = Return (map ((!) ?txs) [0..<length ?txs])"
    using td getTransaction_stored [OF assms(2)] assms(3) by (intro group_fill_eq [OF assms(1)]) simp
  then show ?thesis
    using assms(4) False n by (simp add: getTransactions_def DBPrefixToBytes_def Let_def map_nth)
qed

lemma bytesList_items: "x \<in> set xs \<Longrightarrow> length x < length (bytesList_Encode \<lparr>bl_items = xs\<rparr>)"
  using length_f_array [of x xs 1] by (simp add: bytesList_Encode_def write_all_eq)

lemma bytesToAssets_stored:
  assumes "block_ready nfc is_normal b h" "blk_Assets b \<noteq> []"
  shows "bytesToAssets is_normal (encodableListToBytes (BlockAsset_Encode nfc) (blk_Assets b)) = Return (blk_Assets b)"
proof -
  let ?l = "\<lparr>bl_items = map (BlockAsset_Encode nfc) (blk_Assets b)\<rparr>"
  have "length (bytesList_Encode ?l) \<noteq> 0"
    using bytesList_items [of "BlockAsset_Encode nfc (hd (blk_Assets b))" "bl_items ?l"] assms(2) by fastforce
  moreover have "bytesList_Decode (bytesList_Encode ?l) = Return ?l"
    unfolding bytesList_Decode_def using assms(1) bl_msg.decode_encode [of ?l]
    by (simp add: block_ready_def encodableListToBytes_def)
  moreover have "BlockAsset_Decode is_normal (BlockAsset_Encode nfc a) = Return a" if "a \<in> set (blk_Assets b)" for a
    unfolding BlockAsset_Decode_def using assms(1) that ready_lengths(3) [OF assms(1) that]
    by (intro ba_msg.decode_encode) (simp_all add: BlockAsset_wf_def block_ready_def)
  then have "omapM (\<lambda>item. wrap_error Err_data_codec (BlockAsset_Decode is_normal item))
      (map (BlockAsset_Encode nfc) (blk_Assets b)) = Return (map (\<lambda>a. a) (blk_Assets b))"
    by (intro omapM_map_Return) simp
  ultimately show ?thesis by (simp add: bytesToAssets_def encodableListToBytes_def)
qed

text \<open>The database holds a block: everything below its ID, and its ID below its height.\<close>

definition block_stored :: "(bytes \<Rightarrow> bytes) \<Rightarrow> store \<Rightarrow> Block \<Rightarrow> BlockHeader \<Rightarrow> bool" where
  "block_stored nfc db b h \<longleftrightarrow>
     DB_Get db (3 # bh_ID h) = Some (BlockHeader_Encode h)
     \<and> DB_Get db (4 # FromUint32 (bh_Height h)) = Some (bh_ID h)
     \<and> DB_Get db (5 # bh_ID h) =
         (if blk_Transactions b = [] then None else Some (concat (map tx_ID (blk_Transactions b))))
     \<and> (\<forall>t \<in> set (blk_Transactions b). DB_Get db (6 # tx_ID t) = Some (Transaction_Encode nfc t))
     \<and> DB_Get db (8 # bh_ID h) =
         (if blk_Assets b = [] then None else Some (encodableListToBytes (BlockAsset_Encode nfc) (blk_Assets b)))"

lemma getBlock_stored:
  assumes "schedule_ok sched" "block_ready nfc is_normal b h" "block_stored nfc (da_database d) b h"
  shows "getBlock nfc is_normal sched d (bh_ID h) = Return b"
proof -
  have "getBlockHeader d (bh_ID h) = Return h"
    using getBlockHeader_stored [OF assms(2)] assms(3) by (simp add: block_stored_def)
  moreover have "getTransactions nfc is_normal sched d (bh_ID h) = Return (blk_Transactions b)"
    using getTransactions_stored [OF assms(1,2)] assms(3) by (simp add: block_stored_def)
  moreover have "getBlockAssets is_normal d (bh_ID h) = Return (blk_Assets b)"
    using bytesToAssets_stored [OF assms(2)] assms(3)
    by (cases "blk_Assets b = []") (simp_all add: getBlockAssets_def block_stored_def DBPrefixToBytes_def)
  moreover have "blk_Header b = Some h" using assms(2) by (simp add: block_ready_def)
  ultimately show ?thesis by (simp add: getBlock_def)
qed

lemma GetBlockByHeight_stored:
  assumes "schedule_ok sched" "block_ready nfc is_normal b h" "block_stored nfc (da_database d) b h"
    and "cache_getByHeight (da_cache d) (bh_Height h) = None"
  shows "GetBlockByHeight nfc is_normal sched d (bh_Height h) = Return b"
  using getBlock_stored [OF assms(1-3)] assms(3,4)
  by (simp add: GetBlockByHeight_def block_stored_def DBPrefixToBytes_def)

section \<open>Adding and removing the last block\<close>

definition added_ops ::
    "(bytes \<Rightarrow> bytes) \<Rightarrow> DataAccess \<Rightarrow> BlockHeader \<Rightarrow> Block \<Rightarrow> Event list \<Rightarrow> u32 \<Rightarrow> bool \<Rightarrow> batch_op list" where
  "added_ops nfc d h b events fin removeTemp =
     saved_ops nfc h b events fin @ map BatchDel (pruned d (bh_Height h) fin)
     @ (if removeTemp then [BatchDel (7 # FromUint32 (bh_Height h))] else [])"

lemma AddBlock_eq:
  assumes "ch_dataAccess c = Some d" "store_ok (da_database d)" "blk_Header b = Some h"
    and "cache_push (da_cache d) b = Return cache'"
  shows "AddBlock nfc c batch b events fin removeTemp =
    (Return (), c\<lparr>ch_dataAccess := Some (d\<lparr>
       da_database := DB_Write (da_database d) (batch @ added_ops nfc d h b events fin removeTemp),
       da_cache := cache'\<rparr>)\<rparr>)"
  using assms
  by (simp add: AddBlock_def deref_def saveBlock_eq [where h = h] DataAccess_Cache_def added_ops_def)

lemma RemoveBlock_eq:
  assumes "ch_dataAccess c = Some d" "CachedLastBlock d = Some b" "blk_Header b = Some h"
    and "ch_genesisBlock c = Some g" "blk_Header g = Some gh" "bh_Height h \<noteq> bh_Height gh"
  shows "RemoveBlock nfc c batch saveTemp =
    (Return (), c\<lparr>ch_dataAccess := Some (d\<lparr>
       da_database := DB_Write (da_database d) (batch @ removed_ops h b
         @ (if saveTemp then [BatchSet (7 # FromUint32 (bh_Height h)) (Block_Encode nfc b)] else [])),
       da_cache := snd (cache_pop (da_cache d))\<rparr>)\<rparr>)"
  using assms
  by (simp add: RemoveBlock_def deref_def header_of_def removeBlock_eq [where h = h] RemoveCache_def)

lemma state_batch_keys: "state_batch batch \<Longrightarrow> op \<in> set batch \<Longrightarrow> op_key op \<noteq> p # rest" if "p \<noteq> 10" "p \<noteq> 51"
  using that by (auto simp: state_batch_def)

lemma set_if:
  "x \<in> set (if P then [] else xs) \<longleftrightarrow> \<not> P \<and> x \<in> set xs"
  "x \<in> set (if P then xs else []) \<longleftrightarrow> P \<and> x \<in> set xs"
  by auto

lemma added_ops_iff:
  "op \<in> set (added_ops nfc d h b events fin removeTemp) \<longleftrightarrow>
     op = BatchSet (3 # bh_ID h) (BlockHeader_Encode h)
     \<or> op = BatchSet (4 # FromUint32 (bh_Height h)) (bh_ID h)
     \<or> (\<exists>t \<in> set (blk_Transactions b). op = BatchSet (6 # tx_ID t) (Transaction_Encode nfc t))
     \<or> blk_Transactions b \<noteq> [] \<and> op = BatchSet (5 # bh_ID h) (concat (map tx_ID (blk_Transactions b)))
     \<or> events \<noteq> [] \<and> op = BatchSet (9 # FromUint32 (bh_Height h)) (encodableListToBytes (Event_Encode nfc) events)
     \<or> blk_Assets b \<noteq> [] \<and> op = BatchSet (8 # bh_ID h) (encodableListToBytes (BlockAsset_Encode nfc) (blk_Assets b))
     \<or> op = BatchSet [27] (FromUint32 fin)
     \<or> (\<exists>k \<in> set (pruned d (bh_Height h) fin). op = BatchDel k)
     \<or> removeTemp \<and> op = BatchDel (7 # FromUint32 (bh_Height h))"
  unfolding added_ops_def saved_ops_def by (simp add: set_if image_iff) blast

lemma added_keys:
  "k \<in> op_key ` set (added_ops nfc d h b events fin removeTemp) \<longleftrightarrow>
     k = 3 # bh_ID h \<or> k = 4 # FromUint32 (bh_Height h) \<or> (\<exists>t \<in> set (blk_Transactions b). k = 6 # tx_ID t)
     \<or> blk_Transactions b \<noteq> [] \<and> k = 5 # bh_ID h
     \<or> events \<noteq> [] \<and> k = 9 # FromUint32 (bh_Height h)
     \<or> blk_Assets b \<noteq> [] \<and> k = 8 # bh_ID h
     \<or> k = [27] \<or> k \<in> set (pruned d (bh_Height h) fin)
     \<or> removeTemp \<and> k = 7 # FromUint32 (bh_Height h)"
proof -
  have e: "k \<in> op_key ` S \<longleftrightarrow> (\<exists>op. op \<in> S \<and> k = op_key op)" for S by auto
  have one: "(\<exists>op. op = x \<and> k = op_key op) \<longleftrightarrow> k = op_key x"
    "(\<exists>op. (P \<and> op = x) \<and> k = op_key op) \<longleftrightarrow> P \<and> k = op_key x"
    "(\<exists>op. (\<exists>t \<in> T. op = f t) \<and> k = op_key op) \<longleftrightarrow> (\<exists>t \<in> T. k = op_key (f t))" for P x T and f :: "'t \<Rightarrow> batch_op"
    by blast+
  show ?thesis
    unfolding e added_ops_iff conj_disj_distribR ex_disj_distrib one op_key.simps by simp
qed

lemma DB_Get_added:
  assumes "store_ok db" "state_batch batch" "p \<noteq> 10" "p \<noteq> 51"
    and "\<And>op. op \<in> set ops \<Longrightarrow> op_key op = p # rest \<Longrightarrow> op_val op = r"
  shows "DB_Get (DB_Write db (batch @ ops)) (p # rest) = (if p # rest \<in> op_key ` set ops then r else DB_Get db (p # rest))"
proof -
  have b: "op_key op \<noteq> p # rest" if "op \<in> set batch" for op
    using state_batch_keys [OF assms(3,4,2)] that by blast
  have "DB_Get (DB_Write db (batch @ ops)) (p # rest)
      = (if p # rest \<in> op_key ` set (batch @ ops) then r else DB_Get db (p # rest))"
    using assms(5) b by (intro DB_Get_batch [OF assms(1)]) auto
  moreover have "p # rest \<in> op_key ` set (batch @ ops) \<longleftrightarrow> p # rest \<in> op_key ` set ops" using b by force
  ultimately show ?thesis by simp
qed

lemma added_values:
  assumes "store_ok db" "state_batch batch" "block_ready nfc is_normal b h"
    and "db' = DB_Write db (batch @ added_ops nfc d h b events fin removeTemp)"
  shows "DB_Get db' (3 # bh_ID h) = Some (BlockHeader_Encode h)"
    and "DB_Get db' (4 # FromUint32 (bh_Height h)) = Some (bh_ID h)"
    and "DB_Get db' (5 # bh_ID h) =
      (if blk_Transactions b = [] then DB_Get db (5 # bh_ID h) else Some (concat (map tx_ID (blk_Transactions b))))"
    and "t \<in> set (blk_Transactions b) \<Longrightarrow> DB_Get db' (6 # tx_ID t) = Some (Transaction_Encode nfc t)"
    and "DB_Get db' (8 # bh_ID h) =
      (if blk_Assets b = [] then DB_Get db (8 # bh_ID h)
       else Some (encodableListToBytes (BlockAsset_Encode nfc) (blk_Assets b)))"
    and "DB_Get db' [27] = Some (FromUint32 fin)"
    and "events \<noteq> [] \<Longrightarrow> 9 # FromUint32 (bh_Height h) \<notin> set (pruned d (bh_Height h) fin) \<Longrightarrow>
      DB_Get db' (9 # FromUint32 (bh_Height h)) = Some (encodableListToBytes (Event_Encode nfc) events)"
proof -
  note get = DB_Get_added [OF assms(1,2), where ops = "added_ops nfc d h b events fin removeTemp", unfolded added_keys]
  show "DB_Get db' (3 # bh_ID h) = Some (BlockHeader_Encode h)" unfolding assms(4)
    by (subst get [where r = "Some (BlockHeader_Encode h)"]) (auto simp: added_ops_iff dest: pruned_key)
  show "DB_Get db' (4 # FromUint32 (bh_Height h)) = Some (bh_ID h)" unfolding assms(4)
    by (subst get [where r = "Some (bh_ID h)"]) (auto simp: added_ops_iff dest: pruned_key)
  show "DB_Get db' [27] = Some (FromUint32 fin)" unfolding assms(4)
    by (subst get [where r = "Some (FromUint32 fin)"]) (auto simp: added_ops_iff dest: pruned_key)
  show "DB_Get db' (5 # bh_ID h) =
      (if blk_Transactions b = [] then DB_Get db (5 # bh_ID h) else Some (concat (map tx_ID (blk_Transactions b))))"
    unfolding assms(4)
    by (subst get [where r = "Some (concat (map tx_ID (blk_Transactions b)))"]) (auto simp: added_ops_iff dest: pruned_key)
  show "DB_Get db' (6 # tx_ID t) = Some (Transaction_Encode nfc t)" if "t \<in> set (blk_Transactions b)"
  proof -
    have same: "u = t" if "u \<in> set (blk_Transactions b)" "tx_ID u = tx_ID t" for u
      using assms(3) that \<open>t \<in> _\<close> unfolding block_ready_def by blast
    show ?thesis unfolding assms(4)
      by (subst get [where r = "Some (Transaction_Encode nfc t)"])
        (use that in \<open>auto simp: added_ops_iff dest: pruned_key same\<close>)
  qed
  show "DB_Get db' (8 # bh_ID h) =
      (if blk_Assets b = [] then DB_Get db (8 # bh_ID h)
       else Some (encodableListToBytes (BlockAsset_Encode nfc) (blk_Assets b)))"
    unfolding assms(4)
    by (subst get [where r = "Some (encodableListToBytes (BlockAsset_Encode nfc) (blk_Assets b))"])
      (auto simp: added_ops_iff dest: pruned_key)
  show "DB_Get db' (9 # FromUint32 (bh_Height h)) = Some (encodableListToBytes (Event_Encode nfc) events)"
    if "events \<noteq> []" "9 # FromUint32 (bh_Height h) \<notin> set (pruned d (bh_Height h) fin)"
    unfolding assms(4) using that
    by (subst get [where r = "Some (encodableListToBytes (Event_Encode nfc) events)"]) (auto simp: added_ops_iff)
qed

lemma added_block_stored:
  assumes "store_ok db" "state_batch batch" "block_ready nfc is_normal b h"
    and "DB_Get db (5 # bh_ID h) = None" "DB_Get db (8 # bh_ID h) = None"
  shows "block_stored nfc (DB_Write db (batch @ added_ops nfc d h b events fin removeTemp)) b h"
  using added_values [OF assms(1-3) refl] assms(4,5) by (auto simp: block_stored_def)

lemma pruned_stored: "k \<in> set (pruned d height fin) \<Longrightarrow> k \<in> fst ` set (da_database d)"
  by (auto simp: pruned_def Let_def split: if_splits)

lemma DB_Get_None: "DB_Get db k = None \<longleftrightarrow> k \<notin> fst ` set db"
  by (simp add: DB_Get_def map_of_eq_None_iff)

lemma bytesToEvents_stored:
  assumes "events \<noteq> []" "\<forall>e \<in> set events. Event_wf nfc is_normal e"
    and "length (encodableListToBytes (Event_Encode nfc) events) < 2 ^ 63"
  shows "bytesToEvents is_normal (encodableListToBytes (Event_Encode nfc) events) = Return events"
proof -
  let ?l = "\<lparr>bl_items = map (Event_Encode nfc) events\<rparr>"
  have item: "length (Event_Encode nfc e) < length (bytesList_Encode ?l)" if "e \<in> set events" for e
    using bytesList_items [of "Event_Encode nfc e" "bl_items ?l"] that by simp
  have "length (bytesList_Encode ?l) \<noteq> 0" using item [of "hd events"] assms(1) by fastforce
  moreover have "bytesList_Decode (bytesList_Encode ?l) = Return ?l"
    unfolding bytesList_Decode_def using assms(3) bl_msg.decode_encode [of ?l] by (simp add: encodableListToBytes_def)
  moreover have "NewEvent is_normal (Event_Encode nfc e) = Return e" if "e \<in> set events" for e
    using item [OF that] assms(2,3) that ev_msg.decode_encode [of nfc is_normal e]
    by (simp add: NewEvent_def Event_Decode_def encodableListToBytes_def)
  then have "omapM (\<lambda>item. wrap_error Err_data_block (NewEvent is_normal item)) (map (Event_Encode nfc) events)
      = Return (map (\<lambda>e. e) events)"
    by (intro omapM_map_Return) simp
  ultimately show ?thesis by (simp add: bytesToEvents_def encodableListToBytes_def)
qed

text \<open>
  C33: A block that is added to the chain is found again, whatever the order in which the goroutines
  finish: it is the last block, its ID and its height lead to it through the cache and, after a
  restart with an empty cache, through the database; its transactions are found by their IDs, its
  events by its height, and the finalized height is the one that was handed over.
  The block has its IDs computed, follows the cached blocks and is not stored yet; the caller's
  batch writes state keys only.
\<close>

theorem added_block_found:
  assumes "schedule_ok sched" "ch_dataAccess c = Some d" "store_ok (da_database d)"
    and "holds (da_cache d) bs" "follows_block bs b" "block_ready nfc is_normal b h" "state_batch batch"
    and "DB_Get (da_database d) (5 # bh_ID h) = None" "DB_Get (da_database d) (8 # bh_ID h) = None"
    and "events \<noteq> []" "\<forall>e \<in> set events. Event_wf nfc is_normal e"
    and "length (encodableListToBytes (Event_Encode nfc) events) < 2 ^ 63"
    and "DB_Get (da_database d) (9 # FromUint32 (bh_Height h)) = None"
  shows "\<exists>c' d'. AddBlock nfc c batch b events fin removeTemp = (Return (), c') \<and> ch_dataAccess c' = Some d'
    \<and> LastBlock c' = (Return (Some b) :: (chain_error, Block option) outcome)
    \<and> GetBlockByHeight nfc is_normal sched d' (bh_Height h) = Return b
    \<and> getBlock nfc is_normal sched d' (bh_ID h) = Return b
    \<and> GetBlockByHeight nfc is_normal sched (NewDataAccess (da_database d') n keep) (bh_Height h) = Return b
    \<and> (\<forall>t \<in> set (blk_Transactions b). GetTransaction nfc is_normal d' (tx_ID t) = Return t)
    \<and> GetEvents is_normal d' (bh_Height h) = Return events
    \<and> GetFinalizedHeight d' = Return fin"
proof -
  have hd: "blk_Header b = Some h" using assms(6) by (simp add: block_ready_def)
  obtain cache' where push: "cache_push (da_cache d) b = Return cache'"
    "holds cache' (push_list (bc_maxSize (da_cache d)) bs b)"
    using bc.push_rep [of "da_cache d" bs "nat (bc_maxSize (da_cache d))" b] assms(4,5)
    by (auto simp: push_list_def holds_def)
  let ?ops = "batch @ added_ops nfc d h b events fin removeTemp"
  let ?d = "d\<lparr>da_database := DB_Write (da_database d) ?ops, da_cache := cache'\<rparr>"
  note add = AddBlock_eq [OF assms(2,3) hd push(1), of nfc batch events fin removeTemp]
  have st: "block_stored nfc (da_database ?d) b h"
    using added_block_stored [OF assms(3,7,6,8,9)] by simp
  have ne: "push_list (bc_maxSize (da_cache d)) bs b \<noteq> []" "last (push_list (bc_maxSize (da_cache d)) bs b) = b"
    using assms(4) by (auto simp: push_list_def holds_def)
  have last: "cache_last cache' = Some b" using last_holds [OF push(2)] ne by simp
  moreover have "cache_getByHeight cache' (bh_Height h) = Some b"
    using last current_height [OF push(2) ne(1)] ne(2) hd by (simp add: cache_last_def height_of_def)
  moreover have "9 # FromUint32 (bh_Height h) \<notin> set (pruned d (bh_Height h) fin)"
    using pruned_stored assms(13) by (auto simp: DB_Get_None)
  note vals = added_values [OF assms(3,7,6) refl, where d = d and events = events and fin = fin and removeTemp = removeTemp]
  have "GetEvents is_normal ?d (bh_Height h) = Return events"
    using vals(7) [OF assms(10) \<open>9 # _ \<notin> _\<close>] bytesToEvents_stored [OF assms(10-12)]
    by (simp add: GetEvents_def DBPrefixToBytes_def)
  moreover have "GetFinalizedHeight ?d = Return fin"
    using vals(6) ToUint32_FromUint32 [of fin "[]"] by (simp add: GetFinalizedHeight_def DBPrefixToBytes_def)
  moreover have "GetTransaction nfc is_normal ?d (tx_ID t) = Return t" if "t \<in> set (blk_Transactions b)" for t
    using getTransaction_stored [OF assms(6) that, of ?d] vals(4) [OF that] by (simp add: GetTransaction_def)
  moreover have "GetBlockByHeight nfc is_normal sched (NewDataAccess (da_database ?d) n keep) (bh_Height h) = Return b"
    using GetBlockByHeight_stored [OF assms(1,6), of "NewDataAccess (da_database ?d) n keep"] st
    by (simp add: NewDataAccess_def newBlockCache_def cache_getByHeight_def)
  ultimately show ?thesis
    using add getBlock_stored [OF assms(1,6) st]
    by (intro exI [of _ "c\<lparr>ch_dataAccess := Some ?d\<rparr>"] exI [of _ ?d])
      (simp add: LastBlock_def CachedLastBlock_def deref_def GetBlockByHeight_def)
qed

definition reversed :: schedule where
  "reversed n = rev [0..<n]"

lemma reversed_ok: "schedule_ok reversed"
  by (simp add: schedule_ok_def reversed_def)

definition chain_block :: Block where
  "chain_block =
     \<lparr>blk_Header = Some (BlockHeader_Init
         (BlockHeader_zero\<lparr>bh_Height := 7, bh_AggregateCommit := Some AggregateCommit_zero\<rparr>)),
      blk_Transactions = [Transaction_Init (\<lambda>s. s) sample_tx],
      blk_Assets = [\<lparr>ba_Module = [116], ba_Data = [1, 2, 3]\<rparr>]\<rparr>"

definition chain_event :: Event where
  "chain_event = Event_zero\<lparr>ev_Module := [116], ev_Name := [117]\<rparr>"

definition chain_config :: ChainConfig where
  "chain_config = \<lparr>cc_ChainID = [0, 0, 0, 1], cc_MaxTransactionsLength = 15360, cc_MaxBlockCache = 3,
     cc_KeepEventsForHeights = 100\<rparr>"

lemma Init_Encode [simp]:
  "BlockHeader_Encode (BlockHeader_Init h) = BlockHeader_Encode h"
  "Transaction_Encode nfc (Transaction_Init nfc t) = Transaction_Encode nfc t"
  "Transaction_Init nfc (Transaction_Init nfc t) = Transaction_Init nfc t"
  by (simp_all add: BlockHeader_Init_def BlockHeader_Encode_def Transaction_Init_def Transaction_Encode_def Let_def)

lemma chain_block_ready:
  "block_ready (\<lambda>s. s) (\<lambda>_. True) chain_block (the (blk_Header chain_block))"
proof -
  let ?h = "BlockHeader_zero\<lparr>bh_Height := 7, bh_AggregateCommit := Some AggregateCommit_zero\<rparr>"
  let ?r = "\<lparr>rb_Header = BlockHeader_Encode ?h, rb_Transactions = [Transaction_Encode (\<lambda>s. s) sample_tx],
     rb_Assets = [BlockAsset_Encode (\<lambda>s. s) \<lparr>ba_Module = [116], ba_Data = [1, 2, 3]\<rparr>]\<rparr>"
  have "length (RawBlock_Encode ?r) \<le> 200" by code_simp
  then have "length (Block_Encode (\<lambda>s. s) chain_block) < 2 ^ 63"
    using Block_Encode_raw [of chain_block "BlockHeader_Init ?h" "\<lambda>s. s"] by (simp add: chain_block_def)
  moreover have "length (encodableListToBytes (BlockAsset_Encode (\<lambda>s. s)) [\<lparr>ba_Module = [116], ba_Data = [1, 2, 3]\<rparr>]) \<le> 100"
    by code_simp
  moreover have "text_ok (\<lambda>s. s) (\<lambda>_. True) (tx_Module sample_tx)" "text_ok (\<lambda>s. s) (\<lambda>_. True) (tx_Command sample_tx)"
    "text_ok (\<lambda>s. s) (\<lambda>_. True) [116]" by code_simp+
  ultimately show ?thesis
    by (simp add: block_ready_def chain_block_def)
      (simp add: BlockHeader_Init_def Transaction_Init_def BlockHeader_Encode_def Let_def)
qed

theorem added_block_found_witness:
  "\<exists>c' d'. AddBlock (\<lambda>s. s) (Chain_Init (NewChain chain_config) chain_block []) [] chain_block [chain_event] 0 True
       = (Return (), c') \<and> ch_dataAccess c' = Some d'
     \<and> LastBlock c' = (Return (Some chain_block) :: (chain_error, Block option) outcome)
     \<and> GetBlockByHeight (\<lambda>s. s) (\<lambda>_. True) reversed (NewDataAccess (da_database d') 3 100) 7 = Return chain_block
     \<and> GetEvents (\<lambda>_. True) d' 7 = Return [chain_event]"
proof -
  let ?d = "NewDataAccess [] 3 100" and ?h = "the (blk_Header chain_block)"
  have h: "bh_Height ?h = 7" "blk_Header chain_block \<noteq> None" by (simp_all add: chain_block_def BlockHeader_Init_def)
  have ev: "\<forall>e \<in> set [chain_event]. Event_wf (\<lambda>s. s) (\<lambda>_. True) e" by code_simp
  have "length (encodableListToBytes (Event_Encode (\<lambda>s. s)) [chain_event]) \<le> 100" by code_simp
  then have len: "length (encodableListToBytes (Event_Encode (\<lambda>s. s)) [chain_event]) < 2 ^ 63" by simp
  have "holds (da_cache ?d) []" "follows_block [] chain_block" "store_ok (da_database ?d)" "state_batch []"
    "DB_Get (da_database ?d) k = None" "ch_dataAccess (Chain_Init (NewChain chain_config) chain_block []) = Some ?d" for k
    using new_holds [of 3] h(2)
    by (simp_all add: NewDataAccess_def follows_block_def store_ok_def state_batch_def DB_Get_def Chain_Init_def NewChain_def chain_config_def)
  from added_block_found [OF reversed_ok this(6,3,1,2) chain_block_ready this(4) this(5,5) _ ev len this(5), of 0 True 3 100]
  show ?thesis using h(1) by auto
qed

section \<open>Removing a block undoes adding it\<close>

lemma DB_Get_filter:
  assumes "store_ok db"
  shows "DB_Get (DB_Write db ops) k = DB_Get (DB_Write db (filter (\<lambda>op. op_key op = k) ops)) k"
proof (induction ops rule: rev_induct)
  case (snoc op ops)
  have "DB_Write db (xs @ [op]) = apply_op op (DB_Write db xs)" for xs by (simp add: DB_Write_def)
  then show ?case using snoc assms by simp
qed simp

lemma DB_Get_frame:
  assumes "store_ok db" "k \<notin> op_key ` set ys"
  shows "DB_Get (DB_Write db (xs @ ys @ zs)) k = DB_Get (DB_Write db (xs @ zs)) k"
proof -
  have "filter (\<lambda>op. op_key op = k) ys = []" using assms(2) by (auto simp: filter_empty_conv)
  then show ?thesis
    using DB_Get_filter [OF assms(1), of "xs @ ys @ zs" k] DB_Get_filter [OF assms(1), of "xs @ zs" k] by simp
qed

lemma removed_ops_iff:
  "op \<in> set (removed_ops h b) \<longleftrightarrow>
     (\<exists>k. op = BatchDel k \<and> (k = 3 # bh_ID h \<or> k = 4 # FromUint32 (bh_Height h)
        \<or> (\<exists>t \<in> set (blk_Transactions b). k = 6 # tx_ID t) \<or> blk_Transactions b \<noteq> [] \<and> k = 5 # bh_ID h
        \<or> blk_Assets b \<noteq> [] \<and> k = 8 # bh_ID h \<or> k = 9 # FromUint32 (bh_Height h)))"
  unfolding removed_ops_def by (simp add: set_if image_iff) blast

text \<open>Nothing of the block is in the database.\<close>

definition block_fresh :: "store \<Rightarrow> Block \<Rightarrow> BlockHeader \<Rightarrow> bool" where
  "block_fresh db b h \<longleftrightarrow>
     (\<forall>op \<in> set (removed_ops h b). DB_Get db (op_key op) = None)"

lemma block_freshD: "block_fresh db b h \<Longrightarrow> k \<in> op_key ` set (removed_ops h b) \<Longrightarrow> DB_Get db k = None"
  by (auto simp: block_fresh_def)

lemma removed_val: "op \<in> set (removed_ops h b) \<Longrightarrow> op_val op = None"
  by (auto simp: removed_ops_iff)

lemma added_not_removed:
  assumes "k \<in> op_key ` set (added_ops nfc d h b events fin removeTemp)" "k \<notin> op_key ` set (removed_ops h b)"
  shows "k = [27] \<or> k \<in> set (pruned d (bh_Height h) fin) \<or> removeTemp \<and> k = 7 # FromUint32 (bh_Height h)"
proof -
  have "BatchDel k \<notin> set (removed_ops h b)" using assms(2) by (metis op_key.simps(2) image_eqI)
  then show ?thesis using assms(1) unfolding added_keys removed_ops_iff by blast
qed

lemma DB_Get_not_written:
  assumes "store_ok db" "state_batch batch" "p \<noteq> 10" "p \<noteq> 51" "p # rest \<notin> op_key ` set ops"
  shows "DB_Get (DB_Write db (batch @ ops)) (p # rest) = DB_Get db (p # rest)"
proof -
  have "p # rest \<notin> op_key ` set batch" using state_batch_keys [OF assms(3,4,2)] by (metis imageE)
  then show ?thesis using assms(1,5) by (intro DB_Get_batch_other) (auto simp: image_Un)
qed

lemma undo_key:
  assumes db: "store_ok db" and batch: "state_batch batch" "state_batch batch'" and fresh: "block_fresh db b h"
    and A: "A = added_ops nfc d h b events fin removeTemp"
    and T: "T = (if saveTemp then [BatchSet (7 # FromUint32 (bh_Height h)) (Block_Encode nfc b)] else [])"
  shows "DB_Get (DB_Write db ((batch @ A) @ batch' @ removed_ops h b @ T)) k =
          (if k = [27] then Some (FromUint32 fin)
           else if k = 7 # FromUint32 (bh_Height h) \<and> saveTemp then Some (Block_Encode nfc b)
           else if k = 7 # FromUint32 (bh_Height h) \<and> removeTemp then None
           else if k \<in> set (pruned d (bh_Height h) fin) then None
           else DB_Get (DB_Write db (batch @ batch')) k)"
proof -
  let ?R = "removed_ops h b"
  have T_key: "op \<in> set T \<longleftrightarrow> saveTemp \<and> op = BatchSet (7 # FromUint32 (bh_Height h)) (Block_Encode nfc b)" for op
    by (auto simp: T)
  have R7: "7 # rest \<notin> op_key ` set ?R" "[27] \<notin> op_key ` set ?R" for rest by (auto simp: removed_ops_iff)
  have P7: "7 # rest \<notin> set (pruned d (bh_Height h) fin)" "[27] \<notin> set (pruned d (bh_Height h) fin)" for rest
    by (auto dest: pruned_key)
  consider "k \<in> op_key ` set T" | "k \<notin> op_key ` set T" "k \<in> op_key ` set ?R"
    | "k \<notin> op_key ` set T" "k \<notin> op_key ` set ?R" "k \<in> op_key ` set A"
    | "k \<notin> op_key ` set T" "k \<notin> op_key ` set ?R" "k \<notin> op_key ` set A" by blast
  then show ?thesis
  proof cases
    case 1
    then have k: "k = 7 # FromUint32 (bh_Height h)" "saveTemp" by (auto simp: T_key)
    have "DB_Write x [BatchSet k v] = DB_Set x k v" for x v by (simp add: DB_Write_def)
    then show ?thesis using k by (simp add: T DB_Write_append db)
  next
    case 2
    then obtain p rest where k: "k = p # rest" "p \<noteq> 10" "p \<noteq> 51" by (auto simp: removed_ops_iff)
    have "DB_Get (DB_Write (DB_Write db (batch @ A)) (batch' @ ?R @ T)) (p # rest)
        = (if p # rest \<in> op_key ` set (?R @ T) then None else DB_Get (DB_Write db (batch @ A)) (p # rest))"
      using 2(1) k db batch(2) by (intro DB_Get_added) (auto dest: removed_val simp: image_iff dest!: bspec)
    moreover have "DB_Get (DB_Write db ((batch @ batch') @ [])) (p # rest) = DB_Get db (p # rest)"
      using batch k by (intro DB_Get_not_written [OF db]) (auto simp: state_batch_def)
    moreover have "DB_Get db k = None" by (rule block_freshD [OF fresh 2(2)])
    moreover have "k \<noteq> [27]" "k \<noteq> 7 # FromUint32 (bh_Height h)" using 2(2) R7 by metis+
    ultimately show ?thesis using k(1) 2(2) by (auto simp: DB_Write_append image_Un)
  next
    case 3
    note A_key = added_not_removed [OF 3(3) [unfolded A] 3(2)]
    then obtain p rest where k: "k = p # rest" "p \<noteq> 10" "p \<noteq> 51" by (auto dest: pruned_key)
    have "DB_Get (DB_Write (DB_Write db (batch @ A)) (batch' @ ?R @ T)) (p # rest) = DB_Get (DB_Write db (batch @ A)) (p # rest)"
      using 3(1,2) k db batch(2) by (intro DB_Get_not_written) (auto simp: image_Un)
    moreover have "DB_Get (DB_Write db (batch @ A)) (p # rest) = (if k = [27] then Some (FromUint32 fin) else None)"
    proof (subst DB_Get_added [OF db batch(1) k(2,3)])
      fix op assume op: "op \<in> set A" "op_key op = p # rest"
      have "BatchDel k \<notin> set ?R" using 3(2) by (metis op_key.simps(2) image_eqI)
      then have "op = BatchSet [27] (FromUint32 fin) \<or> (\<exists>k \<in> set (pruned d (bh_Height h) fin). op = BatchDel k)
          \<or> op = BatchDel (7 # FromUint32 (bh_Height h))"
        using op k(1) unfolding A added_ops_iff removed_ops_iff by (elim disjE) auto
      then show "op_val op = (if k = [27] then Some (FromUint32 fin) else None)"
        using op(2) k(1) P7(2) by auto
    qed (use 3(3) k(1) in auto)
    ultimately show ?thesis using k(1) A_key 3(1) R7 P7 by (auto simp: DB_Write_append T)
  next
    case 4
    have "DB_Get (DB_Write db ((batch @ A) @ batch' @ ?R @ T)) k = DB_Get (DB_Write db (batch @ batch')) k"
      using DB_Get_frame [OF db, of k A batch "batch' @ ?R @ T"] DB_Get_frame [OF db, of k "?R @ T" "batch @ batch'" "[]"] 4
      by (auto simp: image_Un)
    moreover have "\<not> (k = 7 # FromUint32 (bh_Height h) \<and> saveTemp)" using 4(1) by (auto simp: T image_iff)
    moreover have "k \<noteq> [27]" "\<not> (k = 7 # FromUint32 (bh_Height h) \<and> removeTemp)" "k \<notin> set (pruned d (bh_Height h) fin)"
      using 4(3) unfolding A added_keys by auto
    ultimately show ?thesis by auto
  qed
qed


definition chain_cached :: Chain where
  "chain_cached = Chain_Init (NewChain chain_config) (height_block 6) []"


section \<open>Restarting\<close>

lemma heights_loop_eq:
  assumes "to < - 1"
  shows "heights_loop to height = Some (map of_nat [unat height..<Suc (unat to)])"
proof (induction "Suc (unat to) - unat height" arbitrary: height)
  case 0
  then have "\<not> height \<le> to" by (simp add: word_le_nat_alt)
  then show ?case using 0 by (subst heights_loop.simps) simp
next
  case (Suc n)
  then have le: "height \<le> to" by (simp add: word_le_nat_alt)
  then have "height \<noteq> - 1" using assms by auto
  then have "1 + height \<noteq> 0" by (metis add.commute add_eq_0_iff2)
  then have next_h: "unat (height + 1) = Suc (unat height)" using unatSuc [of height] by (simp add: add.commute)
  have "heights_loop to (height + 1) = Some (map of_nat [Suc (unat height)..<Suc (unat to)])"
    using Suc(1) [of "height + 1"] Suc(2) next_h by simp
  moreover have "[unat height..<Suc (unat to)] = unat height # [Suc (unat height)..<Suc (unat to)]"
    using le by (intro upt_conv_Cons) (simp add: word_le_nat_alt)
  ultimately show ?case using le by (subst heights_loop.simps) simp
qed

lemma SortBlockByHeightAsc_sorted:
  assumes "sorted_wrt (<) (map height_of bs)"
  shows "SortBlockByHeightAsc bs = bs"
proof -
  have s: "sorted (map height_of bs)" "distinct (map height_of bs)" using assms by (simp_all add: strict_sorted_iff)
  have "sorted (map height_of (SortBlockByHeightAsc bs))"
    unfolding SortBlockByHeightAsc_def by (rule sorted_sort_slice_asc)
  moreover have m: "mset (SortBlockByHeightAsc bs) = mset bs" by (simp add: SortBlockByHeightAsc_def)
  then have "distinct (map height_of (SortBlockByHeightAsc bs))" using s(2) by (metis mset_map mset_eq_imp_distinct_iff)
  moreover have "set (SortBlockByHeightAsc bs) = set bs" using m by (rule mset_eq_setD)
  ultimately show ?thesis using s by (intro map_sorted_distinct_set_unique [of height_of]) (simp_all add: distinct_map)
qed

text \<open>
  The database holds the blocks of a chain that starts at height 0, the block at position \<open>i\<close> of the
  list at height \<open>i\<close>, and no other height.
\<close>

definition chain_stored :: "(bytes \<Rightarrow> bytes) \<Rightarrow> (bytes \<Rightarrow> bool) \<Rightarrow> store \<Rightarrow> Block list \<Rightarrow> bool" where
  "chain_stored nfc is_normal db bs \<longleftrightarrow>
     store_ok db \<and> bs \<noteq> [] \<and> length bs < 2 ^ 32 \<and> distinct (map id_of bs)
     \<and> (\<forall>i < length bs. \<exists>h. block_ready nfc is_normal (bs ! i) h \<and> block_stored nfc db (bs ! i) h
          \<and> unat (bh_Height h) = i)
     \<and> (\<forall>kv \<in> set db. prefix [4] (fst kv) \<longrightarrow> (\<exists>i < length bs. fst kv = 4 # FromUint32 (of_nat i)))"

lemma chain_storedD:
  assumes "chain_stored nfc is_normal db bs" "i < length bs"
  obtains h where "block_ready nfc is_normal (bs ! i) h" "block_stored nfc db (bs ! i) h" "bh_Height h = of_nat i"
    "height_of (bs ! i) = of_nat i" "unat (height_of (bs ! i)) = i" "blk_Header (bs ! i) = Some h"
proof -
  obtain h where h: "block_ready nfc is_normal (bs ! i) h" "block_stored nfc db (bs ! i) h" "unat (bh_Height h) = i"
    using assms unfolding chain_stored_def by blast
  have "blk_Header (bs ! i) = Some h" using h(1) by (simp add: block_ready_def)
  moreover have "bh_Height h = of_nat i" using h(3) by (metis of_nat_unat ucast_id)
  ultimately show thesis using h by (intro that) (simp_all add: height_of_def)
qed

lemma GetBlockByHeight_chain:
  assumes "schedule_ok sched" "chain_stored nfc is_normal db bs" "i < length bs"
  shows "GetBlockByHeight nfc is_normal sched (NewDataAccess db n keep) (of_nat i) = Return (bs ! i)"
proof -
  obtain h where "block_ready nfc is_normal (bs ! i) h" "block_stored nfc db (bs ! i) h" "bh_Height h = of_nat i"
    by (rule chain_storedD [OF assms(2,3)])
  then show ?thesis
    using GetBlockByHeight_stored [OF assms(1), of nfc is_normal "bs ! i" h "NewDataAccess db n keep"]
    by (simp add: NewDataAccess_def newBlockCache_def cache_getByHeight_def)
qed

lemma chain_slice_sorted:
  assumes "chain_stored nfc is_normal db bs" "j \<le> length bs"
  shows "sorted_wrt (<) (map height_of (map ((!) bs) [i..<j]))"
proof -
  have "unat (height_of (bs ! k)) = k" if "k < length bs" for k
    by (rule chain_storedD [OF assms(1) that]) auto
  then show ?thesis using assms(2) by (auto simp: sorted_wrt_iff_nth_less word_less_nat_alt)
qed

lemma GetBlocksBetweenHeight_chain:
  assumes "schedule_ok sched" "chain_stored nfc is_normal db bs" "i \<le> j" "j < length bs"
  shows "GetBlocksBetweenHeight nfc is_normal sched (NewDataAccess db n keep) (of_nat i) (of_nat j)
    = Some (Return (map ((!) bs) [i..<Suc j]))"
proof -
  let ?d = "NewDataAccess db n keep"
  have small: "length bs < 2 ^ 32" using assms(2) by (simp add: chain_stored_def)
  have u: "unat (of_nat k :: u32) = k" if "k < length bs" for k
    using that small by (simp add: unat_of_nat)
  have unat_max_word: "unat (- 1 :: u32) = 2 ^ 32 - 1" by (simp add: unsigned_minus_1_eq_mask mask_eq_exp_minus_1)
  have "(of_nat j :: u32) < - 1"
    using assms(4) small u [of j] by (simp add: word_less_nat_alt unat_max_word)
  then have hs: "heights_loop (of_nat j) (of_nat i) = Some (map of_nat [i..<Suc j])"
    using heights_loop_eq [of "of_nat j" "of_nat i"] u [of i] u [of j] assms(3,4) by simp
  have "group_fill sched (map (\<lambda>h. wrap_error (Err_block_at_height h) (GetBlockByHeight nfc is_normal sched ?d h))
      (map of_nat [i..<Suc j])) = Return (map ((!) bs) [i..<Suc j])"
    unfolding map_map using GetBlockByHeight_chain [OF assms(1,2)] assms(4)
    by (intro group_fill_eq [OF assms(1)]) auto
  moreover have "length (map of_nat [i..<Suc j] :: u32 list) = unat (of_nat j - of_nat i + 1 :: u32)"
  proof -
    have e: "(of_nat j - of_nat i + 1 :: u32) = of_nat (Suc j - i)" using assms(3) by (simp add: of_nat_diff Suc_diff_le)
    have "unat (of_nat (Suc j - i) :: u32) = Suc j - i" using assms(4) small by (subst unat_of_nat) simp
    then show ?thesis unfolding e length_map length_upt by simp
  qed
  moreover have "\<not> list_ex (\<lambda>b. blk_Header b = None) (map ((!) bs) [i..<Suc j])"
  proof -
    have "blk_Header (bs ! k) \<noteq> None" if "k < length bs" for k
      by (rule chain_storedD [OF assms(2) that]) simp
    then show ?thesis using assms(4) by (auto simp: list_ex_iff)
  qed
  moreover have "SortBlockByHeightAsc (map ((!) bs) [i..<Suc j]) = map ((!) bs) [i..<Suc j]"
    using chain_slice_sorted [OF assms(2), of "Suc j" i] assms(4) by (intro SortBlockByHeightAsc_sorted) simp
  ultimately show ?thesis by (simp add: GetBlocksBetweenHeight_def hs)
qed

lemma last_of_sorted:
  assumes "sorted (map fst kvs)" "distinct (map fst kvs)" "kv \<in> set kvs" "\<And>x. x \<in> set kvs \<Longrightarrow> fst x \<le> fst kv"
  shows "last kvs = kv"
proof -
  obtain xs y where kvs: "kvs = xs @ [y]" using assms(3) by (cases kvs rule: rev_cases) auto
  have "fst kv \<le> fst y" using assms(1,3) by (auto simp: kvs sorted_append)
  moreover have "fst y \<le> fst kv" using assms(4) kvs by simp
  ultimately have "fst kv = fst y" by simp
  then have "kv \<notin> set xs" using assms(2) unfolding kvs by (metis distinct_append image_eqI list.set_map map_append not_distinct_conv_prefix list.simps(9))
  then show ?thesis using assms(3) by (simp add: kvs)
qed

lemma iterate_one:
  "DB_Iterate db pre 1 True = take 1 (rev (filter (\<lambda>kv. prefix pre (fst kv)) db))"
  using limit_loop_take [of 0 1]
  by (simp add: DB_Iterate_def iteratePrefix_def bounded_def upperBound_eq prefix_bounds)

lemma getLastBlock_stored:
  assumes "schedule_ok sched" "store_ok db" "block_ready nfc is_normal b h" "block_stored nfc db b h"
    and le: "\<And>kv. kv \<in> set db \<Longrightarrow> prefix [4] (fst kv) \<Longrightarrow> fst kv \<le> 4 # FromUint32 (bh_Height h)"
  shows "getLastBlock nfc is_normal sched (NewDataAccess db n keep) = Return b"
proof -
  let ?kvs = "filter (\<lambda>kv. prefix [4] (fst kv)) db"
  have mem: "(4 # FromUint32 (bh_Height h), bh_ID h) \<in> set ?kvs"
    using assms(4) DB_Get_iff [OF assms(2)] by (simp add: block_stored_def)
  have sorted: "sorted (map fst ?kvs)" "distinct (map fst ?kvs)"
    using store_ok_filter [OF assms(2)] by (simp_all add: store_ok_def strict_sorted_iff)
  have last: "last ?kvs = (4 # FromUint32 (bh_Height h), bh_ID h)"
    by (rule last_of_sorted [OF sorted mem]) (use le in auto)
  have "DB_Iterate db [4] 1 True = [last ?kvs]"
    unfolding iterate_one using mem by (cases ?kvs rule: rev_cases) auto
  moreover have "getBlock nfc is_normal sched (NewDataAccess db n keep) (bh_ID h) = Return b"
    using getBlock_stored [OF assms(1,3)] assms(4) by (simp add: NewDataAccess_def)
  ultimately show ?thesis
    using last
    by (simp add: getLastBlock_def GetBlock_def cache_get_def NewDataAccess_def newBlockCache_def
        DBPrefixToBytes_def)
qed

lemma getLastBlock_chain:
  assumes "schedule_ok sched" "chain_stored nfc is_normal db bs"
  shows "getLastBlock nfc is_normal sched (NewDataAccess db n keep) = Return (last bs)"
proof -
  define k where "k = length bs - 1"
  have ne: "bs \<noteq> []" and db: "store_ok db" and small: "length bs < 2 ^ 32" using assms(2) by (auto simp: chain_stored_def)
  then have k: "k < length bs" "i < length bs \<Longrightarrow> i \<le> k" for i by (auto simp: k_def)
  from k(1) obtain h where h: "block_ready nfc is_normal (bs ! k) h" "block_stored nfc db (bs ! k) h" "bh_Height h = of_nat k"
    by (rule chain_storedD [OF assms(2)])
  have le: "fst kv \<le> 4 # FromUint32 (bh_Height h)" if kv: "kv \<in> set db" "prefix [4] (fst kv)" for kv
  proof -
    obtain i where i: "i < length bs" "fst kv = 4 # FromUint32 (of_nat i)"
      using assms(2) kv unfolding chain_stored_def by blast
    then have "(of_nat i :: u32) \<le> of_nat k" using small k by (simp add: word_le_nat_alt unat_of_nat)
    then show ?thesis using i(2) h(3) by (metis FromUint32_eq FromUint32_less Cons_le_Cons order_le_less)
  qed
  then show ?thesis
    using getLastBlock_stored [OF assms(1) db h(1,2)] ne by (simp add: last_conv_nth k_def)
qed

lemma cache_blocks_eq:
  "ofold cache_push (da_cache d) bs = Return c \<Longrightarrow> cache_blocks d bs = (Return (), d\<lparr>da_cache := c\<rparr>)"
proof (induction bs arbitrary: d)
  case (Cons b bs)
  then obtain c1 where "cache_push (da_cache d) b = Return c1" "ofold cache_push c1 bs = Return c"
    by (auto simp: obind_eq_Return)
  then show ?case using Cons.IH [of "d\<lparr>da_cache := c1\<rparr>"] by (simp add: DataAccess_Cache_def)
qed simp

lemma chain_follows:
  assumes "chain_stored nfc is_normal db bs" "i < length (drop m bs)"
  shows "follows_block (take i (drop m bs)) (drop m bs ! i)"
proof -
  have i: "m + i < length bs" using assms(2) by simp
  obtain h where h: "blk_Header (bs ! (m + i)) = Some h" "unat (height_of (bs ! (m + i))) = m + i"
    by (rule chain_storedD [OF assms(1) i])
  have d: "distinct (map id_of (drop m bs))"
    using assms(1) by (simp add: chain_stored_def drop_map [symmetric] distinct_drop)
  have "id_of (drop m bs ! i) \<notin> id_of ` set (take i (drop m bs))"
  proof
    assume "id_of (drop m bs ! i) \<in> id_of ` set (take i (drop m bs))"
    then obtain j where "j < i" "id_of (drop m bs ! i) = id_of (drop m bs ! j)" by (auto simp: in_set_conv_nth)
    then show False using d assms(2) nth_eq_iff_index_eq [OF d, of i j] by simp
  qed
  moreover have "height_of (bs ! (m + i)) = height_of (last (take i (drop m bs))) + 1
      \<and> height_of (last (take i (drop m bs))) < height_of (bs ! (m + i))" if "take i (drop m bs) \<noteq> []"
  proof -
    have "0 < i" using that by (cases i) auto
    then have l: "last (take i (drop m bs)) = bs ! (m + i - 1)" using assms(2) that by (simp add: last_conv_nth min_def)
    have p: "m + i - 1 < length bs" using i by simp
    obtain h' where "unat (height_of (bs ! (m + i - 1))) = m + i - 1" "height_of (bs ! (m + i - 1)) = of_nat (m + i - 1)"
      by (rule chain_storedD [OF assms(1) p])
    moreover have "height_of (bs ! (m + i)) = of_nat (Suc (m + i - 1))"
      by (rule chain_storedD [OF assms(1) i]) (use \<open>0 < i\<close> in simp)
    ultimately show ?thesis using l h(2) \<open>0 < i\<close> by (simp add: word_less_nat_alt)
  qed
  moreover have "drop m bs ! i = bs ! (m + i)" using assms(2) by simp
  ultimately show ?thesis using h(1) unfolding follows_block_def by (metis option.distinct(1))
qed

lemma PrepareCache_blocks:
  assumes "schedule_ok sched" "chain_stored nfc is_normal db bs" "0 < n" "m = nat (int (length bs - 1) - n)"
    and "ch_maxBlockCache c = n" "ch_dataAccess c = Some (NewDataAccess db n keep)"
  shows "PrepareCache nfc is_normal sched c =
    Some (let (r, d') = cache_blocks (NewDataAccess db n keep) (drop m bs) in (r, c\<lparr>ch_dataAccess := Some d'\<rparr>))"
proof -
  let ?d = "NewDataAccess db n keep"
  define H where "H = length bs - 1"
  have ne: "bs \<noteq> []" and small: "length bs < 2 ^ 32" using assms(2) by (auto simp: chain_stored_def)
  have H: "H < length bs" "Suc H = length bs" using ne by (simp_all add: H_def)
  have m: "m \<le> H" "m = 0 \<or> m < H" using assms(3,4) by (auto simp: H_def)
  have split: "drop m bs = map ((!) bs) [m..<H] @ [last bs]"
  proof -
    have "drop m bs = map ((!) bs) [m..<length bs]" by (rule nth_equalityI) simp_all
    moreover have "[m..<length bs] = [m..<H] @ [H]" using m(1) H(2) upt_Suc [of m H] by simp
    moreover have "last bs = bs ! H" using ne by (simp add: last_conv_nth H_def)
    ultimately show ?thesis by simp
  qed
  obtain h where h: "blk_Header (bs ! H) = Some h" "bh_Height h = of_nat H" by (rule chain_storedD [OF assms(2) H(1)])
  have last: "getLastBlock nfc is_normal sched ?d = Return (bs ! H)"
    using getLastBlock_chain [OF assms(1,2)] ne by (simp add: last_conv_nth H_def)
  have "unat (of_nat H :: u32) = H" using H(1) small by (simp add: unat_of_nat)
  then have pos: "(of_nat H :: u32) > 0 \<longleftrightarrow> H > 0" "(of_nat H :: u32) = 0 \<longleftrightarrow> H = 0"
    by (auto simp: word_less_nat_alt unat_eq_0 [symmetric] simp del: unat_eq_0)
  have blocks: "GetBlocksBetweenHeight nfc is_normal sched ?d (word_of_int (Max {0, int H - n})) (of_nat H - 1)
      = Some (Return (map ((!) bs) [m..<H]))" if "H > 0"
  proof -
    have "word_of_int (Max {0, int H - n}) = (of_nat m :: u32)" using assms(4) by (simp add: H_def max_def)
    moreover have "(of_nat H - 1 :: u32) = of_nat (H - 1)" using that by (simp add: of_nat_diff)
    moreover have "m \<le> H - 1" "H - 1 < length bs" "Suc (H - 1) = H" using m H(1) that by auto
    ultimately show ?thesis
      using GetBlocksBetweenHeight_chain [OF assms(1,2), of m "H - 1" n keep] by simp
  qed
  have "\<not> DataAccess_Cached ?d 0"
    by (simp add: DataAccess_Cached_def NewDataAccess_def newBlockCache_def cache_getByHeight_def)
  moreover have "last bs = bs ! H" using ne by (simp add: last_conv_nth H_def)
  ultimately show ?thesis
    using blocks \<open>unat (of_nat H :: u32) = H\<close> m(1) h split last pos
    by (cases "H = 0") (simp_all add: PrepareCache_def assms(5,6) collection_simps)
qed


definition first_block :: Block where
  "first_block =
     \<lparr>blk_Header = Some (BlockHeader_Init (BlockHeader_zero\<lparr>bh_AggregateCommit := Some AggregateCommit_zero\<rparr>)),
      blk_Transactions = [], blk_Assets = []\<rparr>"

definition first_store :: store where
  "first_store = DB_Write [] (added_ops (\<lambda>s. s) (NewDataAccess [] 3 100) (the (blk_Header first_block)) first_block [] 0 False)"

lemma first_block_ready: "block_ready (\<lambda>s. s) (\<lambda>_. True) first_block (the (blk_Header first_block))"
proof -
  let ?h = "BlockHeader_zero\<lparr>bh_AggregateCommit := Some AggregateCommit_zero\<rparr>"
  have "length (RawBlock_Encode \<lparr>rb_Header = BlockHeader_Encode ?h, rb_Transactions = [], rb_Assets = []\<rparr>) \<le> 100" by code_simp
  then have "length (Block_Encode (\<lambda>s. s) first_block) < 2 ^ 63"
    using Block_Encode_raw [of first_block "BlockHeader_Init ?h" "\<lambda>s. s"] by (simp add: first_block_def)
  moreover have "length (encodableListToBytes (BlockAsset_Encode (\<lambda>s. s)) []) \<le> 100" by code_simp
  ultimately show ?thesis
    by (simp add: block_ready_def first_block_def) (simp add: BlockHeader_Init_def BlockHeader_Encode_def)
qed

lemma first_store_chain: "chain_stored (\<lambda>s. s) (\<lambda>_. True) first_store [first_block]"
proof -
  let ?h = "the (blk_Header first_block)" and ?d = "NewDataAccess [] 3 100"
  have h: "bh_Height ?h = 0" by (simp add: first_block_def BlockHeader_Init_def BlockHeader_zero_def)
  have ok: "store_ok ([] :: store)" "state_batch []" by (simp_all add: store_ok_def state_batch_def)
  have "block_stored (\<lambda>s. s) first_store first_block ?h"
    using added_block_stored [OF ok first_block_ready, of ?d "[]" 0 False] by (simp add: first_store_def DB_Get_def)
  moreover have "fst kv = 4 # FromUint32 0" if "kv \<in> set first_store" "prefix [4] (fst kv)" for kv
  proof -
    let ?ops = "added_ops (\<lambda>s. s) ?d ?h first_block [] 0 False"
    have "DB_Get (DB_Write [] ?ops) (fst kv) \<noteq> None" using that(1) by (auto simp: first_store_def DB_Get_None)
    then have "fst kv \<in> op_key ` set ?ops" using DB_Get_batch_other [OF ok(1)] by (force simp: DB_Get_def)
    then show ?thesis using that(2) h unfolding added_keys
      by (auto simp: first_block_def pruned_def NewDataAccess_def Let_def)
  qed
  moreover have "store_ok first_store" using ok(1) by (simp add: first_store_def)
  ultimately show ?thesis using first_block_ready h by (auto simp: chain_stored_def)
qed


text \<open>
  A chain whose first block is above height 0 cannot be prepared while its height is below the
  size of the cache: the blocks from height 0 on are read.
\<close>

lemma prepare_cache_needs_height_zero:
  assumes "schedule_ok sched" "store_ok db" "block_ready nfc is_normal b h" "block_stored nfc db b h"
    and "bh_Height h = 1" "\<And>kv. kv \<in> set db \<Longrightarrow> prefix [4] (fst kv) \<Longrightarrow> fst kv = 4 # FromUint32 1"
    and "0 < n" "ch_maxBlockCache c = n" "ch_dataAccess c = Some (NewDataAccess db n keep)"
  shows "PrepareCache nfc is_normal sched c = Some (Error (Err_block_at_height 0 Err_data_not_found), c)"
proof -
  let ?d = "NewDataAccess db n keep"
  have "getLastBlock nfc is_normal sched ?d = Return b"
    using assms(5,6) by (intro getLastBlock_stored [OF assms(1-4)]) auto
  moreover have "DB_Get db (4 # FromUint32 0) = None"
    unfolding DB_Get_None using assms(6) by fastforce
  then have "GetBlockByHeight nfc is_normal sched ?d 0 = Error Err_data_not_found"
    by (simp add: GetBlockByHeight_def NewDataAccess_def newBlockCache_def cache_getByHeight_def DBPrefixToBytes_def)
  moreover have "sched 1 = [0]" using assms(1) by (auto simp: schedule_ok_def dest!: spec [of _ 1])
  moreover have "heights_loop 0 0 = Some [0]" using heights_loop_eq [of 0 0] by (simp add: word_gt_0)
  ultimately show ?thesis
    using assms(3,5,7-9)
    by (simp add: PrepareCache_def block_ready_def collection_simps GetBlocksBetweenHeight_def group_fill_def group_wait_def)
qed

end
