(* ===== verification/Certificates.thy ===== *)
theory Certificates
  imports Consensus_Rules
begin

text \<open>
  Certificates of blocks (\<^verbatim>\<open>pkg/consensus/certificate\<close>): what a validator signs, the single commits
  that the nodes exchange, their aggregation into the commit of a block header, and the pool that
  holds the commits until they are gossiped and aggregated.

  BLS signatures come from a foreign library: \<open>bls_Sign\<close>, \<open>bls_Verify\<close>, \<open>aggregate\<close> and
  \<open>fast_aggregate_verify\<close> are parameters.  The mutex of the pool is not part of its state: each
  operation holds it from beginning to end.
\<close>

section \<open>Certificates\<close>

definition CommitRangeStored :: u32 where
  "CommitRangeStored = 100"

text \<open>The tag is \<^verbatim>\<open>LSK_CE_\<close>.\<close>

definition certificateTag :: bytes where
  "certificateTag = [0x4C, 0x53, 0x4B, 0x5F, 0x43, 0x45, 0x5F]"

definition NewCertificateFromBlock :: "BlockHeader \<Rightarrow> Certificate" where
  "NewCertificateFromBlock h =
     \<lparr>ct_BlockID = bh_ID h, ct_Height = bh_Height h, ct_Timestamp = bh_Timestamp h,
      ct_StateRoot = bh_StateRoot h, ct_ValidatorsHash = bh_ValidatorsHash h, ct_AggregationBits = [],
      ct_Signature = []\<rparr>"

definition Certificate_Empty :: "Certificate \<Rightarrow> bool" where
  "Certificate_Empty c \<longleftrightarrow>
     length (ct_BlockID c) = 0 \<and> ct_Height c = 0 \<and> ct_Timestamp c = 0 \<and> length (ct_StateRoot c) = 0
     \<and> length (ct_ValidatorsHash c) = 0 \<and> length (ct_AggregationBits c) = 0 \<and> length (ct_Signature c) = 0"

definition Certificate_SigningBytes :: "Certificate \<Rightarrow> bytes" where
  "Certificate_SigningBytes c =
     SigningCertificate_Encode
       \<lparr>sct_BlockID = ct_BlockID c, sct_Height = ct_Height c, sct_Timestamp = ct_Timestamp c,
        sct_StateRoot = ct_StateRoot c, sct_ValidatorsHash = ct_ValidatorsHash c\<rparr>"

definition Certificate_Sign :: "(bytes \<Rightarrow> bytes \<Rightarrow> bytes) \<Rightarrow> Certificate \<Rightarrow> bytes \<Rightarrow> bytes \<Rightarrow> Certificate" where
  "Certificate_Sign bls_Sign c chainID blsSecretKey =
     c\<lparr>ct_Signature := bls_Sign (Hash (Join [certificateTag, chainID, Certificate_SigningBytes c])) blsSecretKey\<rparr>"

definition Certificate_Verify ::
    "(bytes \<Rightarrow> bytes \<Rightarrow> bytes \<Rightarrow> bool) \<Rightarrow> Certificate \<Rightarrow> bytes \<Rightarrow> bytes \<Rightarrow> bytes \<Rightarrow> bool" where
  "Certificate_Verify bls_Verify c chainID signature blsPublicKey =
     bls_Verify (Hash (Join [certificateTag, chainID, Certificate_SigningBytes c])) signature blsPublicKey"

definition VerifyAggregateCertificateSignature ::
    "(bytes list \<Rightarrow> bytes \<Rightarrow> bytes \<Rightarrow> bool) \<Rightarrow> Certificate \<Rightarrow> bytes list \<Rightarrow> u64 list \<Rightarrow> u64 \<Rightarrow> bytes
     \<Rightarrow> ('e, bool) outcome" where
  "VerifyAggregateCertificateSignature fast_aggregate_verify c keyList weights threshold chainID =
     BLSVerifyWeightedAggSig fast_aggregate_verify keyList (ct_AggregationBits c) (ct_Signature c) weights threshold
       (Hash (Join [certificateTag, chainID, Certificate_SigningBytes c]))"

text \<open>A header without an aggregate commit makes the read panic.\<close>

definition GetMaxRemovalHeight :: "BlockHeader \<Rightarrow> ('e, u32) outcome" where
  "GetMaxRemovalHeight h =
     (case bh_AggregateCommit h of None \<Rightarrow> Panic | Some a \<Rightarrow> Return (ac_Height a))"

section \<open>Single commits\<close>

datatype certificate_error =
    Err_commit_block_id
  | Err_commit_address
  | Err_commit_signature
  | Err_no_commits
  | Err_no_bls_key

definition NewSingleCommit ::
    "(bytes \<Rightarrow> bytes \<Rightarrow> bytes) \<Rightarrow> BlockHeader \<Rightarrow> bytes \<Rightarrow> bytes \<Rightarrow> bytes \<Rightarrow> SingleCommit" where
  "NewSingleCommit bls_Sign header address chainID sk =
     \<lparr>sc_internal = True, sc_blockID = bh_ID header, sc_height = bh_Height header, sc_validatorAddress = address,
      sc_certificateSignature =
        ct_Signature (Certificate_Sign bls_Sign (NewCertificateFromBlock header) chainID sk)\<rparr>"

definition SingleCommit_Validate :: "SingleCommit \<Rightarrow> (certificate_error, unit) outcome" where
  "SingleCommit_Validate c =
     (if length (sc_blockID c) \<noteq> 32 then Error Err_commit_block_id
      else if length (sc_validatorAddress c) \<noteq> AddressLength then Error Err_commit_address
      else if length (sc_certificateSignature c) \<noteq> 96 then Error Err_commit_signature
      else Return ())"

fun SingleCommits_has :: "SingleCommit list \<Rightarrow> SingleCommit \<Rightarrow> bool" where
  "SingleCommits_has [] val = False"
| "SingleCommits_has (commit # s) val =
     (if Equal (sc_blockID commit) (sc_blockID val) \<and> Equal (sc_validatorAddress commit) (sc_validatorAddress val)
      then True else SingleCommits_has s val)"

fun GetUntil :: "SingleCommit list \<Rightarrow> u32 \<Rightarrow> SingleCommit list" where
  "GetUntil [] height = []"
| "GetUntil (commit # s) height = (if sc_height commit \<ge> height then [] else commit # GetUntil s height)"

text \<open>The loop visits the commits from the last to the first and tests the limit after each.\<close>

fun GetLargest_loop :: "SingleCommit list \<Rightarrow> int \<Rightarrow> bool \<Rightarrow> SingleCommit list \<Rightarrow> SingleCommit list" where
  "GetLargest_loop [] limit internal result = result"
| "GetLargest_loop (c # cs) limit internal result =
     (let result = (if sc_internal c = internal then result @ [c] else result)
      in if int (length result) \<ge> limit then result else GetLargest_loop cs limit internal result)"

definition GetLargestWithLimit :: "SingleCommit list \<Rightarrow> int \<Rightarrow> bool \<Rightarrow> SingleCommit list" where
  "GetLargestWithLimit s limit internal = GetLargest_loop (rev s) limit internal []"

definition SingleCommits_Sort :: "SingleCommit list \<Rightarrow> SingleCommit list" where
  "SingleCommits_Sort s = sort_slice (\<lambda>x y. sc_height x < sc_height y) s"

section \<open>Aggregation\<close>

record AddressKeyPair =
  kp_Address :: bytes
  kp_BLSKey :: bytes

fun AddressKeyPairs_BLSKey :: "AddressKeyPair list \<Rightarrow> bytes \<Rightarrow> bytes option" where
  "AddressKeyPairs_BLSKey [] address = None"
| "AddressKeyPairs_BLSKey (kp # kps) address =
     (if Equal address (kp_Address kp) then Some (kp_BLSKey kp) else AddressKeyPairs_BLSKey kps address)"

definition AddressKeyPairs_Sort :: "AddressKeyPair list \<Rightarrow> AddressKeyPair list" where
  "AddressKeyPairs_Sort kps = sort_slice (\<lambda>x y. kp_BLSKey x > kp_BLSKey y) kps"

definition AddressKeyPairs_BLSKeys :: "AddressKeyPair list \<Rightarrow> bytes list" where
  "AddressKeyPairs_BLSKeys kps = map kp_BLSKey kps"

definition Aggregate ::
    "(bytes list \<Rightarrow> bytes) \<Rightarrow> SingleCommit list \<Rightarrow> AddressKeyPair list \<Rightarrow> (certificate_error, AggregateCommit) outcome" where
  "Aggregate aggregate s keypairs =
     (case s of
        [] \<Rightarrow> Error Err_no_commits
      | first # _ \<Rightarrow>
          let keypairs = AddressKeyPairs_Sort keypairs
          in obind (omapM (\<lambda>commit. case AddressKeyPairs_BLSKey keypairs (sc_validatorAddress commit) of
                                      None \<Rightarrow> Error Err_no_bls_key
                                    | Some blsKey \<Rightarrow> Return (blsKey, sc_certificateSignature commit)) s)
               (\<lambda>psPair. obind (BLSCreateAggSig aggregate (AddressKeyPairs_BLSKeys keypairs) psPair)
                 (\<lambda>(aggregateBits, signature).
                   Return \<lparr>ac_Height = sc_height first, ac_AggregationBits = aggregateBits,
                           ac_CertificateSignature = signature\<rparr>)))"

section \<open>The pool\<close>

record Pool =
  pl_nonGossiped :: "SingleCommit list"
  pl_gossiped :: "SingleCommit list"

definition NewPool :: Pool where
  "NewPool = \<lparr>pl_nonGossiped = [], pl_gossiped = []\<rparr>"

definition Pool_Size :: "Pool \<Rightarrow> nat" where
  "Pool_Size p = length (pl_gossiped p) + length (pl_nonGossiped p)"

definition Pool_Has :: "Pool \<Rightarrow> SingleCommit \<Rightarrow> bool" where
  "Pool_Has p val \<longleftrightarrow> SingleCommits_has (pl_gossiped p) val \<or> SingleCommits_has (pl_nonGossiped p) val"

definition Pool_Add :: "Pool \<Rightarrow> SingleCommit \<Rightarrow> Pool" where
  "Pool_Add p val = p\<lparr>pl_nonGossiped := pl_nonGossiped p @ [val]\<rparr>"

definition Pool_Cleanup :: "Pool \<Rightarrow> (u32 \<Rightarrow> bool) \<Rightarrow> Pool" where
  "Pool_Cleanup p checker =
     p\<lparr>pl_gossiped := filter (\<lambda>commit. checker (sc_height commit)) (pl_gossiped p),
       pl_nonGossiped := filter (\<lambda>commit. checker (sc_height commit)) (pl_nonGossiped p)\<rparr>"

text \<open>
  Each source of commits is used only while the limit is not reached; the lists that are looked at
  stay sorted in the pool.  A negative limit panics on the slice.
\<close>

definition slice_limit :: "SingleCommit list \<Rightarrow> int \<Rightarrow> ('e, SingleCommit list) outcome" where
  "slice_limit result limit = (if limit < 0 then Panic else Return (take (nat limit) result))"

definition Pool_Select :: "Pool \<Rightarrow> u32 \<Rightarrow> int \<Rightarrow> ('e, SingleCommit list) outcome \<times> Pool" where
  "Pool_Select p maxHeightPrecommited limit =
     (let max = (if maxHeightPrecommited > CommitRangeStored then maxHeightPrecommited - CommitRangeStored else 0);
          p = p\<lparr>pl_nonGossiped := SingleCommits_Sort (pl_nonGossiped p)\<rparr>;
          result = GetUntil (pl_nonGossiped p) max
      in if int (length result) \<ge> limit then (slice_limit result limit, p)
         else let p = p\<lparr>pl_gossiped := SingleCommits_Sort (pl_gossiped p)\<rparr>;
                  result = result @ GetUntil (pl_gossiped p) max
              in if int (length result) \<ge> limit then (slice_limit result limit, p)
                 else let result = result @ GetLargestWithLimit (pl_nonGossiped p) (limit - int (length result)) True
                      in if int (length result) \<ge> limit then (slice_limit result limit, p)
                         else let result = result @ GetLargestWithLimit (pl_nonGossiped p) (limit - int (length result)) False
                              in if int (length result) \<ge> limit then (slice_limit result limit, p)
                                 else (Return result, p))"

definition Pool_Get :: "Pool \<Rightarrow> u32 \<Rightarrow> SingleCommit list" where
  "Pool_Get p height =
     filter (\<lambda>sc. sc_height sc = height) (pl_gossiped p) @ filter (\<lambda>sc. sc_height sc = height) (pl_nonGossiped p)"

definition Pool_Upgrade :: "Pool \<Rightarrow> SingleCommit list \<Rightarrow> Pool" where
  "Pool_Upgrade p commits =
     p\<lparr>pl_nonGossiped := filter (\<lambda>commit. \<not> SingleCommits_has commits commit) (pl_nonGossiped p),
       pl_gossiped := pl_gossiped p @ filter (SingleCommits_has commits) (pl_nonGossiped p)\<rparr>"

section \<open>Properties of the pool\<close>

definition pool_commits :: "Pool \<Rightarrow> SingleCommit multiset" where
  "pool_commits p = mset (pl_gossiped p) + mset (pl_nonGossiped p)"

lemma has_iff:
  "SingleCommits_has s val \<longleftrightarrow>
     (\<exists>c \<in> set s. sc_blockID c = sc_blockID val \<and> sc_validatorAddress c = sc_validatorAddress val)"
  by (induction s) (auto simp: Equal_iff)

lemma set_GetUntil: "set (GetUntil s h) \<subseteq> {c \<in> set s. sc_height c < h}"
  by (induction s) auto

lemma set_GetLargest_loop: "set (GetLargest_loop cs limit internal r) \<subseteq> set r \<union> set cs"
proof (induction cs arbitrary: r)
  case (Cons c cs)
  show ?case using Cons.IH [of "if sc_internal c = internal then r @ [c] else r"] by (auto simp: Let_def split: if_splits)
qed simp

lemma set_GetLargest: "set (GetLargestWithLimit s limit internal) \<subseteq> set s"
  using set_GetLargest_loop [of "rev s" limit internal "[]"] by (simp add: GetLargestWithLimit_def)

lemma Select_spec:
  assumes "0 \<le> limit" "Pool_Select p maxPrecommitted limit = (r, p')"
  shows "\<exists>cs. r = Return cs \<and> int (length cs) \<le> limit \<and> set cs \<subseteq> set (pl_gossiped p) \<union> set (pl_nonGossiped p)
    \<and> pool_commits p' = pool_commits p"
proof -
  let ?n = "SingleCommits_Sort (pl_nonGossiped p)" and ?g = "SingleCommits_Sort (pl_gossiped p)"
  define m where "m = (if maxPrecommitted > CommitRangeStored then maxPrecommitted - CommitRangeStored else 0)"
  have sorted: "mset ?n = mset (pl_nonGossiped p)" "mset ?g = mset (pl_gossiped p)"
    "set ?n = set (pl_nonGossiped p)" "set ?g = set (pl_gossiped p)" by (simp_all add: SingleCommits_Sort_def)
  have sub: "set (GetUntil ?n h) \<subseteq> set (pl_nonGossiped p)" "set (GetUntil ?g h) \<subseteq> set (pl_gossiped p)"
    "set (GetLargestWithLimit ?n l i) \<subseteq> set (pl_nonGossiped p)" for h l i
    using set_GetUntil [of ?n h] set_GetUntil [of ?g h] set_GetLargest [of ?n l i] sorted by auto
  have slice: "slice_limit cs limit = Return (take (nat limit) cs)" "int (length (take (nat limit) cs)) \<le> limit" for cs
    using assms(1) by (auto simp: slice_limit_def)
  have commits: "pool_commits p' = pool_commits p"
    using assms(2) sorted(1,2) by (auto simp: Pool_Select_def Let_def pool_commits_def split: if_splits)
  have parts: "set cs \<subseteq> set (pl_gossiped p) \<union> set (pl_nonGossiped p)"
    if "set cs \<subseteq> set (GetUntil ?n m) \<union> set (GetUntil ?g m) \<union> set (GetLargestWithLimit ?n l True) \<union> set (GetLargestWithLimit ?n l' False)"
    for cs l l' using that sub(1,2) [of m] sub(3) [of l True] sub(3) [of l' False] by blast
  obtain cs l l' where "r = Return cs" "int (length cs) \<le> limit"
    "set cs \<subseteq> set (GetUntil ?n m) \<union> set (GetUntil ?g m) \<union> set (GetLargestWithLimit ?n l True) \<union> set (GetLargestWithLimit ?n l' False)"
    using assms(2) slice(2) unfolding Pool_Select_def Let_def m_def [symmetric]
    by (auto simp: slice(1) not_le split: if_splits dest!: in_set_takeD intro!: that)
  then show ?thesis using parts commits by blast
qed


definition sample_commit :: "byte \<Rightarrow> u32 \<Rightarrow> SingleCommit" where
  "sample_commit a h =
     \<lparr>sc_internal = True, sc_blockID = [a], sc_height = h, sc_validatorAddress = [a], sc_certificateSignature = []\<rparr>"


text \<open>
  The aggregation orders the keys from the highest to the lowest, but the verification of a block
  orders them from the lowest to the highest: a commit that one of two validators signed is
  rejected when it is verified with the ascending keys, and accepted with the descending ones.
  Signatures are modelled here by the key followed by the message.
\<close>

lemma own_aggregate_rejected:
  fixes header :: BlockHeader and chainID :: bytes
  defines "commit \<equiv> NewSingleCommit (\<lambda>m sk. sk @ m) header [1] chainID [11]"
    and "verify \<equiv> \<lambda>keys m s. s = concat (map (\<lambda>k. k @ m) keys)"
  shows "\<exists>ac. Aggregate concat [commit] [\<lparr>kp_Address = [1], kp_BLSKey = [11]\<rparr>, \<lparr>kp_Address = [2], kp_BLSKey = [12]\<rparr>]
        = Return ac
    \<and> VerifyAggregateCertificateSignature verify
        ((NewCertificateFromBlock header)\<lparr>ct_AggregationBits := ac_AggregationBits ac, ct_Signature := ac_CertificateSignature ac\<rparr>)
        [[11], [12]] [1, 1] 1 chainID = (Return False :: (unit, bool) outcome)
    \<and> VerifyAggregateCertificateSignature verify
        ((NewCertificateFromBlock header)\<lparr>ct_AggregationBits := ac_AggregationBits ac, ct_Signature := ac_CertificateSignature ac\<rparr>)
        [[12], [11]] [1, 1] 1 chainID = (Return True :: (unit, bool) outcome)"
proof -
  let ?kps = "[\<lparr>kp_Address = [1], kp_BLSKey = [11]\<rparr>, \<lparr>kp_Address = [2], kp_BLSKey = [12]\<rparr>]"
  let ?desc = "[\<lparr>kp_Address = [2], kp_BLSKey = [12]\<rparr>, \<lparr>kp_Address = [1], kp_BLSKey = [11]\<rparr>]"
  let ?m = "Hash (Join [certificateTag, chainID, Certificate_SigningBytes (NewCertificateFromBlock header)])"
  have kps: "AddressKeyPairs_Sort ?kps = ?desc" by code_simp
  have sig: "sc_certificateSignature commit = [11] @ ?m" "sc_validatorAddress commit = [1]"
    by (simp_all add: commit_def NewSingleCommit_def Certificate_Sign_def)
  have key: "AddressKeyPairs_BLSKey ?desc [1] = Some [11]" "AddressKeyPairs_BLSKeys ?desc = [[12], [11]]"
    by code_simp+
  have bits: "set_bits [[12], [11]] [[11]] (replicate ((length [[12 :: byte], [11]] + 7) div 8) 0)
      = (Return [2] :: (certificate_error, bytes) outcome)" by code_simp
  have read: "(Bits_read 0 [2] :: (unit, bool) outcome) = Return False" "(Bits_read (Suc 0) [2] :: (unit, bool) outcome) = Return True"
    by code_simp+
  have signing: "Certificate_SigningBytes ((NewCertificateFromBlock header)\<lparr>ct_AggregationBits := b, ct_Signature := s\<rparr>)
      = Certificate_SigningBytes (NewCertificateFromBlock header)" for b s by (simp add: Certificate_SigningBytes_def)
  have agg: "BLSCreateAggSig concat [[12], [11]] [([11], s)] = (Return ([2], s) :: (certificate_error, _) outcome)" for s
    unfolding BLSCreateAggSig_def list.map fst_conv snd_conv bits by simp
  have "Aggregate concat [commit] ?kps
      = Return \<lparr>ac_Height = sc_height commit, ac_AggregationBits = [2], ac_CertificateSignature = [11] @ ?m\<rparr>"
    by (simp add: Aggregate_def kps sig key agg Let_def)
  then show ?thesis
    by (simp add: VerifyAggregateCertificateSignature_def BLSVerifyWeightedAggSig_def read signing verify_def)
qed

end
