(* ===== verification/Executer.thy ===== *)
theory Executer
  imports Liskbft Chain Certificates
begin

text \<open>
  Processing blocks (\<^verbatim>\<open>pkg/consensus/execute.go\<close>, \<^verbatim>\<open>verify.go\<close>, \<^verbatim>\<open>abi_caller.go\<close>,
  \<^verbatim>\<open>certificate.go\<close>, \<^verbatim>\<open>liskbft/convert.go\<close>): the composition of the chain, of the voting state, of
  the state database and of the application.  A block is verified against the last one, executed by
  the application and by the voting module over a write cache, and committed in one batch with the
  diff that undoes it; deleting the last block applies that diff.

  The application is on the other side of the interface \<^verbatim>\<open>labi.ABI\<close>: its calls are a parameter, a
  record of functions on its own state.  The clock is an argument, and so is the synchronisation with
  other nodes.  The messages that the executer publishes are recorded in order; sending a block
  to the network is not part of the model.
\<close>

section \<open>The application\<close>

record Validator =
  lv_Address :: bytes
  lv_BFTWeight :: u64
  lv_GeneratorKey :: bytes
  lv_BLSKey :: bytes

record Consensus =
  co_CurrentValidators :: "Validator list"
  co_ImplyMaxPrevote :: bool
  co_MaxHeightCertified :: u32
  co_CertificateThreshold :: u64

record AfterTransactionsExecuteResponse =
  ar_Events :: "Event list"
  ar_PreCommitThreshold :: u64
  ar_CertificateThreshold :: u64
  ar_NextValidators :: "Validator list"

definition TxExecuteResultSuccess :: int where
  "TxExecuteResultSuccess = 1"

type_synonym ('app, 'a) abi_call = "'app \<Rightarrow> (bytes, 'a) outcome \<times> 'app"

record 'app ABI =
  abi_InitStateMachine :: "BlockHeader \<Rightarrow> ('app, bytes) abi_call"
  abi_VerifyAssets :: "bytes \<Rightarrow> BlockAsset list \<Rightarrow> ('app, unit) abi_call"
  abi_BeforeTransactionsExecute :: "bytes \<Rightarrow> BlockAsset list \<Rightarrow> Consensus \<Rightarrow> ('app, Event list) abi_call"
  abi_VerifyTransaction :: "bytes \<Rightarrow> Transaction \<Rightarrow> ('app, int) abi_call"
  abi_ExecuteTransaction ::
    "bytes \<Rightarrow> Transaction \<Rightarrow> BlockAsset list \<Rightarrow> bool \<Rightarrow> BlockHeader \<Rightarrow> ('app, Event list) abi_call"
  abi_AfterTransactionsExecute ::
    "bytes \<Rightarrow> BlockAsset list \<Rightarrow> Consensus \<Rightarrow> Transaction list \<Rightarrow> ('app, AfterTransactionsExecuteResponse) abi_call"
  abi_Commit :: "bytes \<Rightarrow> bytes \<Rightarrow> bytes \<Rightarrow> bool \<Rightarrow> ('app, bytes) abi_call"
  abi_Revert :: "bytes \<Rightarrow> bytes \<Rightarrow> bytes \<Rightarrow> ('app, bytes) abi_call"
  abi_Clear :: "('app, unit) abi_call"

fun GetBFTValidatorAndGenerators :: "Validator list \<Rightarrow> BFTValidator list \<times> Generator list" where
  "GetBFTValidatorAndGenerators [] = ([], [])"
| "GetBFTValidatorAndGenerators (v # vs) =
     (let (bftValidators, generators) = GetBFTValidatorAndGenerators vs
      in (if lv_BFTWeight v > 0 then NewValidator (lv_Address v) (lv_BFTWeight v) (lv_BLSKey v) # bftValidators
          else bftValidators,
          NewGenerator (lv_Address v) (lv_GeneratorKey v) # generators))"

definition GetLabiValidators :: "BFTValidator list \<Rightarrow> Generator list \<Rightarrow> Validator list" where
  "GetLabiValidators validators generators =
     map (\<lambda>generator.
       let v = \<lparr>lv_Address = gn_address generator, lv_BFTWeight = 0, lv_GeneratorKey = gn_generatorKey generator,
                lv_BLSKey = []\<rparr>
       in case BFTValidators_Find validators (gn_address generator) of
            None \<Rightarrow> v
          | Some validator \<Rightarrow> v\<lparr>lv_BFTWeight := bv_bftWeight validator, lv_BLSKey := bv_blsKey validator\<rparr>)
       generators"

section \<open>The executer\<close>

datatype exec_error =
    Err_bft bft_error
  | Err_chain chain_error
  | Err_block block_error
  | Err_diff codec_error
  | Err_abi bytes
  | Err_commits certificate_error
  | Err_header_version
  | Err_header_height
  | Err_header_previous
  | Err_future_block
  | Err_slot_not_later
  | Err_generator
  | Err_max_height_prevoted
  | Err_contradicting
  | Err_header_signature
  | Err_aggregate_empty
  | Err_aggregate_not_increasing
  | Err_aggregate_not_precommitted
  | Err_aggregate_next_params
  | Err_certificate
  | Err_transaction bytes
  | Err_validators_hash
  | Err_event_count
  | Err_finalized
  | Err_no_diff
  | Err_certify_range
  | Err_publish

datatype consensus_event =
    EventNetworkBlockNew Block
  | EventBlockFinalize u32 u32 BlockHeader
  | EventBlockNew Block "Event list"
  | EventValidatorsChange "Validator list" u64 u64
  | EventBlockDelete Block

record ProcessContext =
  px_block :: Block
  px_peerID :: bytes

record 'app Executer =
  ex_app :: 'app
  ex_chain :: Chain
  ex_liskBFT :: bftModule
  ex_blockSlot :: BlockSlot
  ex_certificatePool :: Pool
  ex_lastBlockReceived :: "int option"
  ex_syncing :: bool
  ex_processCh :: "ProcessContext list"
  ex_published :: "consensus_event list"

text \<open>What the executer takes from foreign libraries and from the runtime.\<close>

record environment =
  env_order :: "cacheDB \<Rightarrow> bytes list"
  env_sched :: schedule
  env_nfc :: "bytes \<Rightarrow> bytes"
  env_is_normal :: "bytes \<Rightarrow> bool"
  env_ed_Verify :: "bytes \<Rightarrow> bytes \<Rightarrow> bytes \<Rightarrow> (exec_error, bool) outcome"
  env_fast_aggregate_verify :: "bytes list \<Rightarrow> bytes \<Rightarrow> bytes \<Rightarrow> bool"
  env_aggregate :: "bytes list \<Rightarrow> bytes"
  env_bls_Verify :: "bytes \<Rightarrow> bytes \<Rightarrow> bytes \<Rightarrow> bool"
  env_bls_Sign :: "bytes \<Rightarrow> bytes \<Rightarrow> bytes"

text \<open>
  A step of the executer works on the executer and on the state database over the stored state.
  \<open>None\<close> stands for a call that does not return.
\<close>

record 'app exec_state =
  es_exec :: "'app Executer"
  es_world :: world

type_synonym ('s, 'a) prog = "'s \<Rightarrow> ((exec_error, 'a) outcome \<times> 's) option"

type_synonym ('app, 'a) exec = "('app exec_state, 'a) prog"

definition x_return :: "'a \<Rightarrow> ('s, 'a) prog" where
  "x_return x = (\<lambda>s. Some (Return x, s))"

definition x_lift :: "(exec_error, 'a) outcome \<Rightarrow> ('s, 'a) prog" where
  "x_lift m = (\<lambda>s. Some (m, s))"

definition x_error :: "exec_error \<Rightarrow> ('s, 'a) prog" where
  "x_error e = x_lift (Error e)"

definition x_bind :: "('s, 'a) prog \<Rightarrow> ('a \<Rightarrow> ('s, 'b) prog) \<Rightarrow> ('s, 'b) prog" where
  "x_bind m f = (\<lambda>s.
     case m s of
       None \<Rightarrow> None
     | Some (Return x, s) \<Rightarrow> f x s
     | Some (Error e, s) \<Rightarrow> Some (Error e, s)
     | Some (Panic, s) \<Rightarrow> Some (Panic, s))"

definition x_try :: "('s, 'a) prog \<Rightarrow> (exec_error \<Rightarrow> ('s, 'b) prog) \<Rightarrow> ('a \<Rightarrow> ('s, 'b) prog) \<Rightarrow> ('s, 'b) prog" where
  "x_try m h f = (\<lambda>s.
     case m s of
       None \<Rightarrow> None
     | Some (Return x, s) \<Rightarrow> f x s
     | Some (Error e, s) \<Rightarrow> h e s
     | Some (Panic, s) \<Rightarrow> Some (Panic, s))"

definition x_if :: "bool \<Rightarrow> exec_error \<Rightarrow> ('s, unit) prog" where
  "x_if b e = (if b then x_error e else x_return ())"

text \<open>A deferred call runs after the body whatever the body returns, and its own result is dropped.\<close>

definition x_defer :: "('s, 'b) prog \<Rightarrow> ('s, 'a) prog \<Rightarrow> ('s, 'a) prog" where
  "x_defer clean body = (\<lambda>s.
     case body s of
       None \<Rightarrow> None
     | Some (r, s) \<Rightarrow>
         (case clean s of
            None \<Rightarrow> None
          | Some (Panic, s) \<Rightarrow> Some (Panic, s)
          | Some (_, s) \<Rightarrow> Some (r, s)))"

definition x_get :: "('app Executer \<Rightarrow> 'a) \<Rightarrow> ('app, 'a) exec" where
  "x_get f = (\<lambda>s. Some (Return (f (es_exec s)), s))"

definition x_modify :: "('app Executer \<Rightarrow> 'app Executer) \<Rightarrow> ('app, unit) exec" where
  "x_modify f = (\<lambda>s. Some (Return (), s\<lparr>es_exec := f (es_exec s)\<rparr>))"

definition x_db :: "(bft_error, 'a) db_call \<Rightarrow> ('app, 'a) exec" where
  "x_db m = (\<lambda>s. let (r, w) = m (es_world s) in Some (wrap_error Err_bft r, s\<lparr>es_world := w\<rparr>))"

definition x_abi :: "('app, 'a) abi_call \<Rightarrow> ('app, 'a) exec" where
  "x_abi m = (\<lambda>s.
     let (r, a) = m (ex_app (es_exec s))
     in Some (wrap_error Err_abi r, s\<lparr>es_exec := (es_exec s)\<lparr>ex_app := a\<rparr>\<rparr>))"

definition x_publish :: "consensus_event \<Rightarrow> ('app, unit) exec" where
  "x_publish e = x_modify (\<lambda>c. c\<lparr>ex_published := ex_published c @ [e]\<rparr>)"

definition x_dataAccess :: "('app, DataAccess) exec" where
  "x_dataAccess = x_bind (x_get ex_chain) (\<lambda>chain. x_lift (deref (ch_dataAccess chain)))"

definition x_lastHeader :: "('app, BlockHeader) exec" where
  "x_lastHeader = x_bind x_dataAccess (\<lambda>d. x_lift (last_header d))"

definition x_headerByHeight :: "u32 \<Rightarrow> ('app, BlockHeader) exec" where
  "x_headerByHeight height =
     x_bind x_dataAccess (\<lambda>d.
     x_bind (x_lift (wrap_error Err_chain (GetBlockHeaderByHeight d height))) (\<lambda>header. x_lift (deref header)))"

text \<open>Every entry point makes its own state database over the stored state.\<close>

definition with_store :: "(Database \<Rightarrow> ('app, 'a) exec) \<Rightarrow> ('app Executer, 'a) prog" where
  "with_store f c =
     (case ch_dataAccess (ex_chain c) of
        None \<Rightarrow> Some (Panic, c)
      | Some d \<Rightarrow>
          let (w, store) = Database_New \<lparr>w_store = da_database d, w_caches = []\<rparr> (DBPrefixToBytes DBPrefixState)
          in map_option (\<lambda>(r, s). (r, es_exec s)) (f store \<lparr>es_exec = c, es_world = w\<rparr>))"

section \<open>Verification\<close>

record ValidatorWithBLSKey =
  vb_Address :: bytes
  vb_BFTWeight :: u64
  vb_BLSKey :: bytes

definition ValidatorsWithBLSKey_sort :: "ValidatorWithBLSKey list \<Rightarrow> ValidatorWithBLSKey list" where
  "ValidatorsWithBLSKey_sort v = sort_slice (\<lambda>x y. vb_BLSKey x < vb_BLSKey y) v"

text \<open>
  The height of the next parameters is zero when there are none.
\<close>

definition next_params_height :: "environment \<Rightarrow> Database \<Rightarrow> u32 \<Rightarrow> ('app, bool \<times> u32) exec" where
  "next_params_height env diffStore height = (\<lambda>s.
     let (r, w) = NextHeightBFTParameters (env_order env) diffStore height (es_world s)
     in Some (case r of
                Return h \<Rightarrow> Return (True, h)
              | Error e \<Rightarrow> if e = ErrNotFound then Return (False, 0) else Error (Err_bft e)
              | Panic \<Rightarrow> Panic, s\<lparr>es_world := w\<rparr>))"

definition verify_certificate ::
    "environment \<Rightarrow> Database \<Rightarrow> AggregateCommit \<Rightarrow> ('app, unit) exec" where
  "verify_certificate env diffStore aggregateCommit =
     x_bind (x_headerByHeight (ac_Height aggregateCommit)) (\<lambda>header.
     x_bind (x_db (GetBFTParameters (env_order env) diffStore (ac_Height aggregateCommit))) (\<lambda>params.
     x_bind (x_get ex_chain) (\<lambda>chain.
       let cert = (NewCertificateFromBlock header)\<lparr>ct_AggregationBits := ac_AggregationBits aggregateCommit,
                     ct_Signature := ac_CertificateSignature aggregateCommit\<rparr>;
           vs = ValidatorsWithBLSKey_sort
                  (map (\<lambda>val. \<lparr>vb_Address = bv_address val, vb_BFTWeight = bv_bftWeight val, vb_BLSKey = bv_blsKey val\<rparr>)
                     (bp_validators params))
       in x_bind (x_lift (VerifyAggregateCertificateSignature (env_fast_aggregate_verify env) cert (map vb_BLSKey vs)
                    (map vb_BFTWeight vs) (bp_certificateThreshold params) (ch_chainID chain)))
            (\<lambda>valid. x_if (\<not> valid) Err_certificate))))"

definition verifyAggregateCommit :: "environment \<Rightarrow> Database \<Rightarrow> AggregateCommit option \<Rightarrow> ('app, unit) exec" where
  "verifyAggregateCommit env diffStore aggregateCommit =
     x_bind (x_db (GetBFTHeights diffStore)) (\<lambda>(_, maxHeightPrecommited, maxHeightCertified).
     x_bind (x_lift (deref aggregateCommit)) (\<lambda>aggregateCommit.
       if AggregateCommit_Empty aggregateCommit \<and> ac_Height aggregateCommit = maxHeightCertified then x_return ()
       else x_bind (x_if (length (ac_AggregationBits aggregateCommit) = 0
                          \<or> length (ac_CertificateSignature aggregateCommit) = 0) Err_aggregate_empty) (\<lambda>_.
            x_bind (x_if (ac_Height aggregateCommit \<le> maxHeightCertified) Err_aggregate_not_increasing) (\<lambda>_.
            x_bind (x_if (ac_Height aggregateCommit > maxHeightPrecommited) Err_aggregate_not_precommitted) (\<lambda>_.
            x_bind (next_params_height env diffStore (maxHeightCertified + 1)) (\<lambda>(found, heightNextBFTParams).
            x_bind (x_if (\<not> found \<and> ac_Height aggregateCommit > heightNextBFTParams - 1) Err_aggregate_next_params) (\<lambda>_.
              verify_certificate env diffStore aggregateCommit)))))))"

definition verify_position :: "int \<Rightarrow> BlockHeader \<Rightarrow> ('app, unit) exec" where
  "verify_position now blockHeader =
     x_bind (x_if (bh_Version blockHeader \<noteq> 2) Err_header_version) (\<lambda>_.
     x_bind x_lastHeader (\<lambda>lastBlockHeader.
     x_bind (x_if (bh_Height blockHeader \<noteq> bh_Height lastBlockHeader + 1) Err_header_height) (\<lambda>_.
     x_bind (x_if (\<not> Equal (bh_ID lastBlockHeader) (bh_PreviousBlockID blockHeader)) Err_header_previous) (\<lambda>_.
     x_bind (x_get ex_blockSlot) (\<lambda>slot.
       let blockSlot = GetSlotNumber slot (bh_Timestamp blockHeader);
           currentBlockSlot = GetSlotNumber slot (word_of_int now);
           lastBlockSlot = GetSlotNumber slot (bh_Timestamp lastBlockHeader)
       in x_bind (x_if (blockSlot > currentBlockSlot) Err_future_block) (\<lambda>_.
            x_if (blockSlot \<le> lastBlockSlot) Err_slot_not_later))))))"

definition verifyBlock :: "environment \<Rightarrow> int \<Rightarrow> Database \<Rightarrow> BlockHeader \<Rightarrow> ('app, unit) exec" where
  "verifyBlock env now consensusStore blockHeader =
     x_bind (verify_position now blockHeader) (\<lambda>_.
     x_bind (x_db (GetGeneratorKeys (env_order env) consensusStore (bh_Height blockHeader))) (\<lambda>generators.
     x_bind (x_get ex_blockSlot) (\<lambda>slot.
     x_bind (x_lift (AtTimestamp generators slot (bh_Timestamp blockHeader))) (\<lambda>generator.
     x_bind (x_if (\<not> Equal (gn_address generator) (bh_GeneratorAddress blockHeader)) Err_generator) (\<lambda>_.
     x_bind (x_db (GetBFTHeights consensusStore)) (\<lambda>(maxHeightPrevoted, _, _).
     x_bind (x_if (bh_MaxHeightPrevoted blockHeader \<noteq> maxHeightPrevoted) Err_max_height_prevoted) (\<lambda>_.
     x_bind (x_db (IsHeaderContradictingChain consensusStore blockHeader)) (\<lambda>contradicts.
     x_bind (x_if contradicts Err_contradicting) (\<lambda>_.
     x_bind (verifyAggregateCommit env consensusStore (bh_AggregateCommit blockHeader)) (\<lambda>_.
     x_bind (x_get ex_chain) (\<lambda>chain.
     x_bind (x_lift (BlockHeader_VerifySignature (env_ed_Verify env) blockHeader (ch_chainID chain)
                       (gn_generatorKey generator))) (\<lambda>valid.
       x_if (\<not> valid) Err_header_signature))))))))))))"

section \<open>Execution\<close>

record NextValidatorParams =
  nv_NextValidators :: "Validator list"
  nv_PrecommitThreshold :: u64
  nv_CertificateThreshold :: u64

definition getABIConsensus :: "environment \<Rightarrow> Database \<Rightarrow> BlockHeader \<Rightarrow> ('app, Consensus) exec" where
  "getABIConsensus env diffStore header =
     x_bind (x_db (GetBFTParameters (env_order env) diffStore (bh_Height header))) (\<lambda>params.
     x_bind (x_db (GetGeneratorKeys (env_order env) diffStore (bh_Height header))) (\<lambda>generators.
     x_bind (x_db (ImpliesMaximalPrevotes diffStore header)) (\<lambda>impliesMaxPrevote.
     x_bind (x_db (GetBFTHeights diffStore)) (\<lambda>(_, _, maxHeightCertified).
       x_return \<lparr>co_CurrentValidators = GetLabiValidators (bp_validators params) generators,
         co_ImplyMaxPrevote = impliesMaxPrevote, co_MaxHeightCertified = maxHeightCertified,
         co_CertificateThreshold = bp_certificateThreshold params\<rparr>))))"

text \<open>A transaction that the application does not verify stops the block.\<close>

fun execute_txs ::
    "'app ABI \<Rightarrow> bytes \<Rightarrow> BlockHeader \<Rightarrow> BlockAsset list \<Rightarrow> Transaction list \<Rightarrow> Event list \<Rightarrow> ('app, Event list) exec" where
  "execute_txs abi contextID header assets [] events = x_return events"
| "execute_txs abi contextID header assets (tx # txs) events =
     x_bind (x_abi (abi_VerifyTransaction abi contextID tx)) (\<lambda>result.
     x_bind (x_if (result \<noteq> TxExecuteResultSuccess) (Err_transaction (tx_ID tx))) (\<lambda>_.
     x_bind (x_abi (abi_ExecuteTransaction abi contextID tx assets False header)) (\<lambda>es.
       execute_txs abi contextID header assets txs (events @ es))))"

definition x_before :: "environment \<Rightarrow> BlockHeader \<Rightarrow> Database \<Rightarrow> ('app, unit) exec" where
  "x_before env header diffStore = (\<lambda>s.
     map_option (\<lambda>(r, w). (wrap_error Err_bft r, s\<lparr>es_world := w\<rparr>))
       (BeforeTransactionsExecute (env_order env) (ex_liskBFT (es_exec s)) header diffStore (es_world s)))"

text \<open>The result has the events of the block and the new validators, if there are any.\<close>

definition stateExecuter_Execute ::
    "environment \<Rightarrow> 'app ABI \<Rightarrow> bytes \<Rightarrow> Database \<Rightarrow> BlockHeader \<Rightarrow> Block
     \<Rightarrow> ('app, Event list \<times> NextValidatorParams option) exec" where
  "stateExecuter_Execute env abi contextID diffStore header block =
     x_bind (x_before env header diffStore) (\<lambda>_.
     x_bind (getABIConsensus env diffStore header) (\<lambda>consensus.
     x_bind (x_abi (abi_BeforeTransactionsExecute abi contextID (blk_Assets block) consensus)) (\<lambda>beforeEvents.
     x_bind (execute_txs abi contextID header (blk_Assets block) (blk_Transactions block) beforeEvents) (\<lambda>events.
     x_bind (x_abi (abi_AfterTransactionsExecute abi contextID (blk_Assets block) consensus (blk_Transactions block)))
       (\<lambda>resp.
        let events = Events_UpdateIndex (events @ ar_Events resp)
        in if ar_PreCommitThreshold resp \<noteq> 0 \<or> ar_CertificateThreshold resp \<noteq> 0 \<or> length (ar_NextValidators resp) \<noteq> 0
           then let (bftValidators, generators) = GetBFTValidatorAndGenerators (ar_NextValidators resp)
                in x_bind (x_get ex_liskBFT) (\<lambda>bft.
                   x_bind (x_db (SetBFTParameters (env_order env) bft diffStore (ar_PreCommitThreshold resp)
                                   (ar_CertificateThreshold resp) bftValidators)) (\<lambda>_.
                   x_bind (x_db (SetGeneratorKeys diffStore generators)) (\<lambda>_.
                     x_return (events, Some \<lparr>nv_NextValidators = ar_NextValidators resp,
                       nv_PrecommitThreshold = ar_PreCommitThreshold resp,
                       nv_CertificateThreshold = ar_CertificateThreshold resp\<rparr>))))
           else x_return (events, None))))))"

section \<open>Adding and deleting blocks\<close>

definition diff_key :: "u32 \<Rightarrow> bytes" where
  "diff_key height = Join [DBPrefixToBytes DBPrefixStateDiff, FromUint32 height]"

text \<open>The diffs of heights below the finalized height are deleted; a short key panics.\<close>

fun delete_diffs :: "u32 \<Rightarrow> bytes list \<Rightarrow> Batch \<Rightarrow> ('e, Batch) outcome" where
  "delete_diffs maxHeightPrecommited [] batch = Return batch"
| "delete_diffs maxHeightPrecommited (key # keys) batch =
     obind (ToUint32 (drop 1 key)) (\<lambda>height.
       delete_diffs maxHeightPrecommited keys
         (if height < maxHeightPrecommited then Batch_Del batch key else batch))"

definition x_addBlock ::
    "environment \<Rightarrow> Batch \<Rightarrow> Block \<Rightarrow> Event list \<Rightarrow> u32 \<Rightarrow> bool \<Rightarrow> ('app, unit) exec" where
  "x_addBlock env batch block events finalizedHeight removeTemp = (\<lambda>s.
     let (r, chain) = AddBlock (env_nfc env) (ex_chain (es_exec s)) batch block events finalizedHeight removeTemp
     in Some (wrap_error Err_chain r, s\<lparr>es_exec := (es_exec s)\<lparr>ex_chain := chain\<rparr>\<rparr>))"

definition x_removeBlock :: "environment \<Rightarrow> Batch \<Rightarrow> bool \<Rightarrow> ('app, unit) exec" where
  "x_removeBlock env batch saveTemp = (\<lambda>s.
     let (r, chain) = RemoveBlock (env_nfc env) (ex_chain (es_exec s)) batch saveTemp
     in Some (wrap_error Err_chain r, s\<lparr>es_exec := (es_exec s)\<lparr>ex_chain := chain\<rparr>\<rparr>))"

text \<open>What follows the execution: the checks on the result, and the batch that commits the block.\<close>

definition commit_block ::
    "environment \<Rightarrow> 'app ABI \<Rightarrow> bytes \<Rightarrow> Database \<Rightarrow> BlockHeader \<Rightarrow> Block \<Rightarrow> bool \<Rightarrow> Event list
     \<Rightarrow> NextValidatorParams option \<Rightarrow> ('app, unit) exec" where
  "commit_block env abi contextID consensusStore header block removeTemp events nextValidatorParams =
     x_bind (x_db (GetBFTParameters (env_order env) consensusStore (bh_Height header + 1))) (\<lambda>resultParams.
     x_bind (x_if (\<not> Equal (bp_validatorsHash resultParams) (bh_ValidatorsHash header)) Err_validators_hash) (\<lambda>_.
     x_bind (x_if (length events > MaxEventsPerBlock) Err_event_count) (\<lambda>_.
     x_bind x_dataAccess (\<lambda>d.
     x_bind (x_lift (wrap_error Err_chain (GetFinalizedHeight d))) (\<lambda>currentFinalizedHeight.
     x_bind (x_db (GetBFTHeights consensusStore)) (\<lambda>(_, maxHeightPrecommited, _).
     x_bind (\<lambda>s. Some (Return (Database_Commit (env_order env) (es_world s) consensusStore []), s)) (\<lambda>(batch, diff).
     x_bind (x_lift (as_slice (Diff_Encode diff))) (\<lambda>encodedDiff.
       let batch = Batch_Set batch (diff_key (bh_Height header)) encodedDiff
       in x_bind x_lastHeader (\<lambda>lastHeader.
          x_bind (x_abi (abi_Commit abi contextID (bh_StateRoot lastHeader) (bh_StateRoot header) False)) (\<lambda>_.
          x_bind (if maxHeightPrecommited > currentFinalizedHeight
                  then x_lift (delete_diffs maxHeightPrecommited
                                 (DB_IterateKey (da_database d) (DBPrefixToBytes DBPrefixStateDiff) (-1) False) batch)
                  else x_return batch) (\<lambda>batch.
          x_bind (x_addBlock env batch block events (max currentFinalizedHeight maxHeightPrecommited) removeTemp) (\<lambda>_.
          x_bind (if maxHeightPrecommited > currentFinalizedHeight
                  then x_publish (EventBlockFinalize currentFinalizedHeight maxHeightPrecommited header)
                  else x_return ()) (\<lambda>_.
          x_bind (x_publish (EventBlockNew block events)) (\<lambda>_.
            case nextValidatorParams of
              None \<Rightarrow> x_return ()
            | Some p \<Rightarrow> x_publish (EventValidatorsChange (nv_NextValidators p) (nv_PrecommitThreshold p)
                                     (nv_CertificateThreshold p))))))))))))))))"

definition processValidated ::
    "environment \<Rightarrow> 'app ABI \<Rightarrow> int \<Rightarrow> Block \<Rightarrow> bool
     \<Rightarrow> ('app Executer, unit) prog" where
  "processValidated env abi now block removeTemp =
     with_store (\<lambda>consensusStore.
       x_bind (x_lift (header_of block)) (\<lambda>header.
       x_bind (verifyBlock env now consensusStore header) (\<lambda>_.
       x_bind (x_abi (abi_InitStateMachine abi header)) (\<lambda>contextID.
         x_defer (x_abi (abi_Clear abi))
           (x_bind (x_abi (abi_VerifyAssets abi contextID (blk_Assets block))) (\<lambda>_.
            x_bind (stateExecuter_Execute env abi contextID consensusStore header block)
              (\<lambda>(events, nextValidatorParams).
                 commit_block env abi contextID consensusStore header block removeTemp events nextValidatorParams)))))))"

definition revert_block ::
    "environment \<Rightarrow> 'app ABI \<Rightarrow> bytes \<Rightarrow> BlockHeader \<Rightarrow> BlockHeader \<Rightarrow> Block \<Rightarrow> bool \<Rightarrow> ('app, unit) exec" where
  "revert_block env abi contextID header secondLast deletingBlock saveTemp =
     x_bind x_dataAccess (\<lambda>d.
       case DB_Get (da_database d) (diff_key (bh_Height header)) of
         None \<Rightarrow> x_error Err_no_diff
       | Some diffBytes \<Rightarrow>
           x_bind (x_lift (wrap_error Err_diff (Diff_Decode diffBytes))) (\<lambda>diff.
             let batch = Batch_Del (Database_RevertDiff [] diff) (diff_key (bh_Height header))
             in x_bind (x_abi (abi_Revert abi contextID (bh_StateRoot header) (bh_StateRoot secondLast))) (\<lambda>_.
                x_bind (x_removeBlock env batch saveTemp) (\<lambda>_.
                  x_publish (EventBlockDelete deletingBlock)))))"

definition deleteBlock ::
    "environment \<Rightarrow> 'app ABI \<Rightarrow> Block \<Rightarrow> bool \<Rightarrow> ('app Executer, unit) prog" where
  "deleteBlock env abi deletingBlock saveTemp =
     with_store (\<lambda>diffStore.
       x_bind x_dataAccess (\<lambda>d.
       x_bind (x_lift (wrap_error Err_chain (GetFinalizedHeight d))) (\<lambda>finalizedHeight.
       x_bind (x_lift (header_of deletingBlock)) (\<lambda>header.
       x_bind (x_if (bh_Height header \<le> finalizedHeight) Err_finalized) (\<lambda>_.
       x_bind (x_headerByHeight (bh_Height header - 1)) (\<lambda>secondLast.
       x_bind (x_abi (abi_InitStateMachine abi header)) (\<lambda>contextID.
         x_defer (x_abi (abi_Clear abi))
           (revert_block env abi contextID header secondLast deletingBlock saveTemp))))))))"

section \<open>Receiving blocks\<close>

datatype ValidationResult = ValidationAccept | ValidationReject | ValidationIgnore

definition blockValidator :: "environment \<Rightarrow> bytes \<Rightarrow> (exec_error, ValidationResult) outcome" where
  "blockValidator env data =
     (case NewBlock (env_nfc env) (env_is_normal env) data of
        Panic \<Rightarrow> Panic
      | Error _ \<Rightarrow> Return ValidationReject
      | Return block \<Rightarrow>
          (case Block_Validate (env_nfc env) block of
             Panic \<Rightarrow> Panic
           | Error _ \<Rightarrow> Return ValidationReject
           | Return _ \<Rightarrow> Return ValidationAccept))"

text \<open>The queue holds 200 blocks; a block that finds it full is dropped.\<close>

definition processCh_capacity :: nat where
  "processCh_capacity = 200"

definition enqueue :: "ProcessContext \<Rightarrow> 'app Executer \<Rightarrow> 'app Executer" where
  "enqueue ctx c =
     (if length (ex_processCh c) < processCh_capacity then c\<lparr>ex_processCh := ex_processCh c @ [ctx]\<rparr> else c)"

definition onBlockReceived :: "environment \<Rightarrow> bytes \<Rightarrow> bytes \<Rightarrow> 'app Executer \<Rightarrow> (exec_error, 'app Executer) outcome" where
  "onBlockReceived env peerID data c =
     (case NewBlock (env_nfc env) (env_is_normal env) data of
        Return block \<Rightarrow>
          Return (enqueue \<lparr>px_block = block, px_peerID = peerID\<rparr>
            (c\<lparr>ex_published := ex_published c @ [EventNetworkBlockNew block]\<rparr>))
      | _ \<Rightarrow> Panic)"

definition AddInternal :: "Block \<Rightarrow> 'app Executer \<Rightarrow> 'app Executer" where
  "AddInternal block = enqueue \<lparr>px_block = block, px_peerID = []\<rparr>"

section \<open>Processing a block\<close>

record SyncContext =
  sy_Block :: Block
  sy_FinalizedBlockHeader :: BlockHeader
  sy_PeerID :: bytes
  sy_CurrentValidators :: "bytes list"

definition createSyncContext :: "environment \<Rightarrow> ProcessContext \<Rightarrow> ('app Executer, SyncContext) prog" where
  "createSyncContext env pCtx =
     with_store (\<lambda>diffStore.
       x_bind x_lastHeader (\<lambda>lastHeader.
       x_bind (x_db (GetBFTParameters (env_order env) diffStore (bh_Height lastHeader + 1))) (\<lambda>params.
       x_bind x_dataAccess (\<lambda>d.
       x_bind (x_lift (wrap_error Err_chain (GetFinalizedHeight d))) (\<lambda>finalizedHeight.
       x_bind (x_headerByHeight finalizedHeight) (\<lambda>header.
         x_return \<lparr>sy_Block = px_block pCtx, sy_FinalizedBlockHeader = header, sy_PeerID = px_peerID pCtx,
           sy_CurrentValidators = map bv_address (bp_validators params)\<rparr>))))))"

type_synonym 'app syncer = "SyncContext \<Rightarrow> ('app Executer, unit) prog"

definition set_syncing :: "bool \<Rightarrow> ('app Executer, unit) prog" where
  "set_syncing b = (\<lambda>c. Some (Return (), c\<lparr>ex_syncing := b\<rparr>))"

definition received_at :: "int \<Rightarrow> ('app Executer, unit) prog" where
  "received_at now = (\<lambda>c. Some (Return (), c\<lparr>ex_lastBlockReceived := Some now\<rparr>))"

text \<open>
  The clock is read several times: \<open>clock i\<close> is the Unix time of the reading \<open>i\<close> of a call.
\<close>

definition process_tie_break ::
    "environment \<Rightarrow> 'app ABI \<Rightarrow> (nat \<Rightarrow> int) \<Rightarrow> Block \<Rightarrow> Block \<Rightarrow> ('app Executer, unit) prog" where
  "process_tie_break env abi clock block lastBlock =
     x_bind (received_at (clock 0)) (\<lambda>_.
     x_bind (x_lift (wrap_error Err_block (Block_Validate (env_nfc env) block))) (\<lambda>_.
     x_bind (deleteBlock env abi lastBlock False) (\<lambda>_.
       x_try (processValidated env abi (clock 2) block False)
         (\<lambda>_. x_try (processValidated env abi (clock 3) lastBlock False) (\<lambda>_. x_return ()) x_return)
         x_return)))"

definition process_different_chain ::
    "environment \<Rightarrow> 'app syncer \<Rightarrow> ProcessContext \<Rightarrow> ('app Executer, unit) prog" where
  "process_different_chain env sync ctx =
     x_bind (createSyncContext env ctx) (\<lambda>sContext.
     x_bind (set_syncing True) (\<lambda>_.
       x_defer (set_syncing False) (sync sContext)))"

definition process ::
    "environment \<Rightarrow> 'app ABI \<Rightarrow> 'app syncer \<Rightarrow> (nat \<Rightarrow> int) \<Rightarrow> ProcessContext \<Rightarrow> ('app Executer, unit) prog" where
  "process env abi sync clock ctx = (\<lambda>c.
     x_bind (x_lift (obind (LastBlock (ex_chain c)) deref)) (\<lambda>lastBlock.
     x_bind (x_lift (header_of lastBlock)) (\<lambda>lastHeader.
     x_bind (x_lift (header_of (px_block ctx))) (\<lambda>header.
       let forkChoice = NewForkChoice lastHeader header (ex_blockSlot c) (ex_lastBlockReceived c) (clock 1)
       in if IsIdenticalBlock forkChoice then x_return ()
          else if IsValidBlock forkChoice
          then x_bind (received_at (clock 0)) (\<lambda>_.
               x_bind (x_lift (wrap_error Err_block (Block_Validate (env_nfc env) (px_block ctx)))) (\<lambda>_.
                 processValidated env abi (clock 2) (px_block ctx) False))
          else if IsDoubleForging forkChoice then x_return ()
          else if IsTieBreak forkChoice then process_tie_break env abi clock (px_block ctx) lastBlock
          else if forkChoice_IsDifferentChain forkChoice then process_different_chain env sync ctx
          else x_return ()))) c)"

definition Synced :: "u32 \<Rightarrow> u32 \<Rightarrow> u32 \<Rightarrow> ('app Executer, bool) prog" where
  "Synced height maxHeightPrevoted maxHeightPreviouslyForged =
     with_store (\<lambda>consensusStore.
       x_bind x_lastHeader (\<lambda>lastBlockHeader.
         if bh_Version lastBlockHeader = 0
         then x_return (height \<le> bh_Height lastBlockHeader \<and> maxHeightPrevoted \<le> bh_Height lastBlockHeader)
         else x_bind (x_db (GetBFTHeights consensusStore)) (\<lambda>(currentMaxHeightPrevoted, _, _).
                x_return (maxHeightPrevoted < currentMaxHeightPrevoted
                  \<or> (maxHeightPrevoted = currentMaxHeightPrevoted \<and> height < bh_Height lastBlockHeader)))))"

end
