(* ===== verification/Single_Commits.thy ===== *)
theory Single_Commits
  imports Executer
begin

text \<open>
  How the executer makes, receives, gossips and aggregates the commits of the validators
  (\<^verbatim>\<open>pkg/consensus/certificate.go\<close>), over the pool of \<^verbatim>\<open>pkg/consensus/certificate\<close>.  Sending a
  message to the network is an argument: the function tells whether it succeeds.
\<close>

section \<open>The message\<close>

record EventPostSingleCommits =
  pe_SingleCommits :: "SingleCommit list"

definition EventPostSingleCommits_Encode :: "EventPostSingleCommits \<Rightarrow> bytes" where
  "EventPostSingleCommits_Encode e =
     write_all
       [WriteEncodables 1 SingleCommit_Encode (pe_SingleCommits e)]"

definition EventPostSingleCommits_read :: "bool \<Rightarrow> EventPostSingleCommits rd" where
  "EventPostSingleCommits_read strict = (\<lambda>r.
     obind (ReadDecodables 1 (SingleCommit_read False) r) (\<lambda>(v1, r).
       Return
         (\<lparr>pe_SingleCommits = v1\<rparr>, r)))"

interpretation pe_msg: message EventPostSingleCommits_Encode EventPostSingleCommits_read
  "\<lambda>e. list_all SingleCommit_wf (pe_SingleCommits e)"
proof
  fix strict and e :: EventPostSingleCommits
  show "forward 0 (EventPostSingleCommits_read strict)"
    unfolding EventPostSingleCommits_read_def by (intro reader_rules sc_msg.forward_ReadDecodables)
  assume wf: "list_all SingleCommit_wf (pe_SingleCommits e)"
  show "parses UNIV (EventPostSingleCommits_read strict) (EventPostSingleCommits_Encode e) e"
    unfolding EventPostSingleCommits_Encode_def EventPostSingleCommits_read_def write_all_eq
    by (rule parses_UNIV) (rule parse_rules sc_msg.parses_nested_list | use wf in simp)+
qed

definition EventPostSingleCommits_DecodeStrict :: "bytes \<Rightarrow> (codec_error, EventPostSingleCommits) outcome" where
  "EventPostSingleCommits_DecodeStrict buf = decode_strict_with (EventPostSingleCommits_read True) buf"

section \<open>Receiving commits\<close>

definition x_pool :: "(Pool \<Rightarrow> Pool) \<Rightarrow> ('app, unit) exec" where
  "x_pool f = x_modify (\<lambda>c. c\<lparr>ex_certificatePool := f (ex_certificatePool c)\<rparr>)"

text \<open>
  The checks on one commit.  The result is the answer that ends the validation, or \<^const>\<open>None\<close> to
  go on with the next commit.
\<close>

definition check_active ::
    "environment \<Rightarrow> Database \<Rightarrow> SingleCommit \<Rightarrow> BlockHeader \<Rightarrow> ('app, ValidationResult option) exec" where
  "check_active env diffStore singleCommit blockHeader =
     x_try (x_db (GetBFTParameters (env_order env) diffStore (sc_height singleCommit)))
       (\<lambda>_. x_return (Some ValidationIgnore))
       (\<lambda>params.
          case BFTValidators_Find (bp_validators params) (sc_validatorAddress singleCommit) of
            None \<Rightarrow> x_return (Some ValidationReject)
          | Some validator \<Rightarrow>
              x_bind (x_get ex_chain) (\<lambda>chain.
                if \<not> Certificate_Verify (env_bls_Verify env) (NewCertificateFromBlock blockHeader) (ch_chainID chain)
                       (sc_certificateSignature singleCommit) (bv_blsKey validator)
                then x_return (Some ValidationReject)
                else x_bind (x_pool (\<lambda>p. Pool_Add p singleCommit)) (\<lambda>_. x_return None)))"

definition check_height ::
    "environment \<Rightarrow> Database \<Rightarrow> SingleCommit \<Rightarrow> u32 \<Rightarrow> ('app, ValidationResult option) exec" where
  "check_height env diffStore singleCommit maxHeightPrecommited =
     x_try (x_db (ExistBFTParameters diffStore (sc_height singleCommit)))
       (\<lambda>_. x_return (Some ValidationIgnore))
       (\<lambda>paramExist.
          if (sc_height singleCommit < maxHeightPrecommited - CommitRangeStored
              \<or> sc_height singleCommit > maxHeightPrecommited) \<and> \<not> paramExist
          then x_return None
          else x_try (x_headerByHeight (sc_height singleCommit))
                 (\<lambda>_. x_return (Some ValidationIgnore))
                 (\<lambda>blockHeader.
                    if \<not> Equal (bh_ID blockHeader) (sc_blockID singleCommit) then x_return None
                    else check_active env diffStore singleCommit blockHeader))"

definition check_commit ::
    "environment \<Rightarrow> Database \<Rightarrow> SingleCommit \<Rightarrow> ('app, ValidationResult option) exec" where
  "check_commit env diffStore singleCommit =
     x_try (x_lift (wrap_error Err_commits (SingleCommit_Validate singleCommit)))
       (\<lambda>_. x_return (Some ValidationReject))
       (\<lambda>_. x_bind (x_get ex_certificatePool) (\<lambda>certificatePool.
          if Pool_Has certificatePool singleCommit then x_return None
          else x_try (x_db (GetBFTHeights diffStore))
                 (\<lambda>_. x_return (Some ValidationIgnore))
                 (\<lambda>(_, maxHeightPrecommited, _).
                    x_try (x_headerByHeight maxHeightPrecommited)
                      (\<lambda>_. x_return (Some ValidationIgnore))
                      (\<lambda>finalizedBlockHeader.
                         x_bind (x_lift (GetMaxRemovalHeight finalizedBlockHeader)) (\<lambda>removalHeight.
                           if sc_height singleCommit \<le> removalHeight then x_return None
                           else check_height env diffStore singleCommit maxHeightPrecommited)))))"

fun check_commits ::
    "environment \<Rightarrow> Database \<Rightarrow> SingleCommit list \<Rightarrow> ('app, ValidationResult) exec" where
  "check_commits env diffStore [] = x_return ValidationIgnore"
| "check_commits env diffStore (singleCommit # commits) =
     x_bind (check_commit env diffStore singleCommit) (\<lambda>result.
       case result of Some r \<Rightarrow> x_return r | None \<Rightarrow> check_commits env diffStore commits)"

definition singleCommitValidator :: "environment \<Rightarrow> bytes \<Rightarrow> ('app Executer, ValidationResult) prog" where
  "singleCommitValidator env data = (\<lambda>c.
     case EventPostSingleCommits_DecodeStrict data of
       Panic \<Rightarrow> Some (Panic, c)
     | Error _ \<Rightarrow> Some (Return ValidationReject, c)
     | Return postCommits \<Rightarrow>
         with_store (\<lambda>diffStore. check_commits env diffStore (pe_SingleCommits postCommits)) c)"

section \<open>Making commits\<close>

text \<open>The tasks of a group, in the order in which they run: the first error is returned at the end.\<close>

fun x_tasks :: "('s, unit) prog list \<Rightarrow> ('s, unit) prog" where
  "x_tasks [] = x_return ()"
| "x_tasks (t # ts) = x_try t (\<lambda>e. x_bind (x_try (x_tasks ts) (\<lambda>_. x_return ()) x_return) (\<lambda>_. x_error e)) (\<lambda>_. x_tasks ts)"

definition certify_height ::
    "environment \<Rightarrow> Database \<Rightarrow> bytes \<Rightarrow> bytes \<Rightarrow> u32 \<Rightarrow> ('app, unit) exec" where
  "certify_height env diffStore address blsPrivateKey height =
     x_bind (x_db (GetBFTParameters (env_order env) diffStore height)) (\<lambda>params.
       case BFTValidators_Find (bp_validators params) address of
         None \<Rightarrow> x_return ()
       | Some _ \<Rightarrow>
           x_bind (x_headerByHeight height) (\<lambda>header.
           x_bind (x_get ex_chain) (\<lambda>chain.
             x_pool (\<lambda>p. Pool_Add p
               (NewSingleCommit (env_bls_Sign env) header address (ch_chainID chain) blsPrivateKey)))))"

definition certify_task ::
    "environment \<Rightarrow> Database \<Rightarrow> bytes \<Rightarrow> bytes \<Rightarrow> u32 \<Rightarrow> ('app, unit) exec" where
  "certify_task env diffStore address blsPrivateKey i =
     x_bind (x_db (ExistBFTParameters diffStore i)) (\<lambda>exist.
       if \<not> exist then x_return () else certify_height env diffStore address blsPrivateKey i)"

definition Certify :: "environment \<Rightarrow> u32 \<Rightarrow> u32 \<Rightarrow> bytes \<Rightarrow> bytes \<Rightarrow> ('app Executer, unit) prog" where
  "Certify env fromH toH address blsPrivateKey =
     x_bind (x_if (fromH > toH) Err_certify_range) (\<lambda>_.
       with_store (\<lambda>diffStore.
         case heights_loop toH (fromH + 1) of
           None \<Rightarrow> (\<lambda>s. None)
         | Some heights \<Rightarrow>
             x_bind (x_tasks (map (\<lambda>i. certify_task env diffStore address blsPrivateKey (heights ! i))
                                (env_sched env (length heights)))) (\<lambda>_.
             x_bind (x_db (ExistBFTParameters diffStore (toH + 1))) (\<lambda>exist.
               if exist then x_return () else certify_height env diffStore address blsPrivateKey toH))))"

section \<open>Gossiping commits\<close>

text \<open>The commits that are kept.  Asking whether parameters exist caches them in the state database.\<close>

definition keep_commit :: "Database \<Rightarrow> world \<Rightarrow> u32 \<Rightarrow> u32 \<Rightarrow> u32 \<Rightarrow> bool" where
  "keep_commit diffStore w removeHeight maxHeightPrecommited h =
     (if h \<le> removeHeight then False
      else case fst (ExistBFTParameters diffStore (h + 1) w :: (bft_error, bool) outcome \<times> world) of
             Return exist \<Rightarrow> (h \<ge> maxHeightPrecommited - CommitRangeStored \<and> h < maxHeightPrecommited) \<or> exist
           | _ \<Rightarrow> False)"

definition cleanup_world :: "Database \<Rightarrow> u32 \<Rightarrow> Pool \<Rightarrow> world \<Rightarrow> world" where
  "cleanup_world diffStore removeHeight p w =
     fold (\<lambda>h w. snd (ExistBFTParameters diffStore (h + 1) w :: (bft_error, bool) outcome \<times> world))
       (filter (\<lambda>h. h > removeHeight) (map sc_height (pl_gossiped p @ pl_nonGossiped p))) w"

definition x_cleanup :: "Database \<Rightarrow> u32 \<Rightarrow> u32 \<Rightarrow> ('app, unit) exec" where
  "x_cleanup diffStore removeHeight maxHeightPrecommited = (\<lambda>s.
     let p = ex_certificatePool (es_exec s)
     in Some (Return (),
          s\<lparr>es_exec := (es_exec s)\<lparr>ex_certificatePool :=
              Pool_Cleanup p (keep_commit diffStore (es_world s) removeHeight maxHeightPrecommited)\<rparr>,
            es_world := cleanup_world diffStore removeHeight p (es_world s)\<rparr>))"

definition x_select :: "u32 \<Rightarrow> int \<Rightarrow> ('app, SingleCommit list) exec" where
  "x_select maxHeightPrecommited limit = (\<lambda>s.
     let (r, p) = Pool_Select (ex_certificatePool (es_exec s)) maxHeightPrecommited limit
     in Some (r, s\<lparr>es_exec := (es_exec s)\<lparr>ex_certificatePool := p\<rparr>\<rparr>))"

definition broadcastCertificate :: "environment \<Rightarrow> (bytes \<Rightarrow> bool) \<Rightarrow> ('app Executer, unit) prog" where
  "broadcastCertificate env send =
     with_store (\<lambda>diffStore.
       x_bind (x_db (GetBFTHeights diffStore)) (\<lambda>(_, maxHeightPrecommited, _).
       x_bind (x_headerByHeight maxHeightPrecommited) (\<lambda>finalizedBlockHeader.
       x_bind (x_lift (GetMaxRemovalHeight finalizedBlockHeader)) (\<lambda>removeHeight.
       x_bind (x_cleanup diffStore removeHeight maxHeightPrecommited) (\<lambda>_.
       x_bind (x_get ex_certificatePool) (\<lambda>certificatePool.
         if Pool_Size certificatePool = 0 then x_return ()
         else x_bind x_lastHeader (\<lambda>lastHeader.
              x_bind (x_db (GetBFTParameters (env_order env) diffStore (bh_Height lastHeader))) (\<lambda>params.
              x_bind (x_select maxHeightPrecommited (int (length (bp_validators params)))) (\<lambda>selectedCommites.
                if length selectedCommites = 0 then x_return ()
                else x_bind (x_if (\<not> send (EventPostSingleCommits_Encode \<lparr>pe_SingleCommits = selectedCommites\<rparr>)) Err_publish)
                       (\<lambda>_. x_pool (\<lambda>p. Pool_Upgrade p selectedCommites)))))))))))"

section \<open>Aggregating commits\<close>

fun commits_weight :: "BFTValidator list \<Rightarrow> SingleCommit list \<Rightarrow> u64 \<Rightarrow> ('e, u64) outcome" where
  "commits_weight validators [] aggregateBFTWeight = Return aggregateBFTWeight"
| "commits_weight validators (commit # commits) aggregateBFTWeight =
     (case BFTValidators_Find validators (sc_validatorAddress commit) of
        None \<Rightarrow> Panic
      | Some commitValidator \<Rightarrow>
          commits_weight validators commits (aggregateBFTWeight + bv_bftWeight commitValidator))"

lemma pred_height_less: "m < h \<Longrightarrow> unat (h - 1) < unat h" for m h :: u32
  by (metis diff_less gr_implies_not_zero less_numeral_extra(1) not_gr_zero unat_minus_one unsigned_0 word_less_nat_alt)

text \<open>The loop goes down from the highest height, so it ends.\<close>

function aggregate_loop ::
    "environment \<Rightarrow> Database \<Rightarrow> Pool \<Rightarrow> u32 \<Rightarrow> u32 \<Rightarrow> ('app, AggregateCommit) exec" where
  "aggregate_loop env diffStore certificatePool maxHeightCertified nextHeight =
     (if nextHeight > maxHeightCertified
      then let commits = Pool_Get certificatePool nextHeight
           in if length commits = 0
              then aggregate_loop env diffStore certificatePool maxHeightCertified (nextHeight - 1)
              else x_bind (x_db (GetBFTParameters (env_order env) diffStore nextHeight)) (\<lambda>params.
                   x_bind (x_lift (commits_weight (bp_validators params) commits 0)) (\<lambda>aggregateBFTWeight.
                     if aggregateBFTWeight < bp_certificateThreshold params
                     then aggregate_loop env diffStore certificatePool maxHeightCertified (nextHeight - 1)
                     else x_lift (wrap_error Err_commits (Aggregate (env_aggregate env) commits
                            (map (\<lambda>validator. \<lparr>kp_Address = bv_address validator, kp_BLSKey = bv_blsKey validator\<rparr>)
                               (bp_validators params))))))
      else x_return \<lparr>ac_Height = maxHeightCertified, ac_AggregationBits = [], ac_CertificateSignature = []\<rparr>)"
  by pat_completeness auto
termination
  by (relation "measure (\<lambda>(_, _, _, _, h). unat h)")
    (auto intro: pred_height_less)

declare aggregate_loop.simps [simp del]

definition GetAggregateCommit :: "environment \<Rightarrow> ('app Executer, AggregateCommit) prog" where
  "GetAggregateCommit env =
     with_store (\<lambda>diffStore.
       x_bind (x_db (GetBFTHeights diffStore)) (\<lambda>(_, maxHeightPrecommited, maxHeightCertified).
       x_bind (next_params_height env diffStore (maxHeightCertified + 1)) (\<lambda>(found, heightNextBFTParams).
       x_bind (x_get ex_certificatePool) (\<lambda>certificatePool.
         aggregate_loop env diffStore certificatePool maxHeightCertified
           (if found then min (heightNextBFTParams - 1) maxHeightPrecommited else maxHeightPrecommited)))))"

end
