(* ===== verification/Bft_State.thy ===== *)
theory Bft_State
  imports Liskbft
begin

text \<open>
  What the BFT module does to the state database.  It reads and writes through the database of the
  block only: parameters and generator keys under their own prefixes, and the votes.  So every
  property of the database that these accesses keep is kept by the operations of the module; the
  locale \<open>bft_state\<close> proves this once, together with a bound on the heights in the votes.
\<close>

section \<open>Votes up to a height\<close>

definition good_votes :: "u32 \<Rightarrow> BFTVotes \<Rightarrow> bool" where
  "good_votes H v \<longleftrightarrow> (\<forall>b \<in> set (vt_blockBFTInfos v). bb_height b \<le> H) \<and> vt_maxHeightPrecommited v \<le> H"

lemma good_votes_mono: "good_votes H v \<Longrightarrow> H \<le> H' \<Longrightarrow> good_votes H' v"
  by (auto simp: good_votes_def)

lemma good_votes_heights:
  assumes "good_votes H v" "map bb_height (vt_blockBFTInfos v') = map bb_height (vt_blockBFTInfos v)"
    and "vt_maxHeightPrecommited v' = vt_maxHeightPrecommited v"
  shows "good_votes H v'"
proof -
  have "bb_height ` set (vt_blockBFTInfos v') = bb_height ` set (vt_blockBFTInfos v)"
    using assms(2) by (metis list.set_map)
  then show ?thesis using assms(1,3) by (auto simp: good_votes_def) (metis imageE imageI)
qed

lemma good_votes_insert:
  assumes "good_votes H v" "bh_Height header \<le> H" "insertBlockBFTInfo v header n = Return v'"
  shows "good_votes H v'"
  using assms by (auto simp: good_votes_def insertBlockBFTInfo_def Let_def split: if_splits dest!: in_set_takeD)

section \<open>Accesses of the module\<close>

locale bft_state =
  fixes s :: Database and inv :: "world \<Rightarrow> bool" and H :: u32
  assumes range_inv: "s' \<in> {params_store s, keys_store s} \<Longrightarrow> inv w \<Longrightarrow>
      (Database_Range order w s' lo hi limit reverse :: (bft_error, _) outcome) = Return (kv, w') \<Longrightarrow> inv w'"
    and get_inv: "s' \<in> {params_store s, keys_store s} \<Longrightarrow> inv w \<Longrightarrow> inv (snd (Database_Get w s' k))"
    and set_inv: "s' \<in> {params_store s, keys_store s} \<Longrightarrow> inv w \<Longrightarrow>
      (Database_Set w s' k b :: (bft_error, _) outcome) = Return w' \<Longrightarrow> inv w'"
    and del_inv: "s' \<in> {params_store s, keys_store s} \<Longrightarrow> inv w \<Longrightarrow> inv (Database_Del w s' k)"
    and votes_get_inv: "inv w \<Longrightarrow> inv (snd (Database_Get w (votes_store s) emptyKey))"
    and votes_good: "inv w \<Longrightarrow> fst (Database_Get w (votes_store s) emptyKey) = Some b \<Longrightarrow>
      BFTVotes_Decode b = Return v \<Longrightarrow> good_votes H v"
    and votes_set_inv: "inv w \<Longrightarrow> good_votes H v \<Longrightarrow> length (BFTVotes_Encode v) < 2 ^ 63 \<Longrightarrow>
      (Database_Set w (votes_store s) emptyKey (BFTVotes_Encode v) :: (bft_error, _) outcome) = Return w' \<Longrightarrow> inv w'"
begin

definition keeps :: "(bft_error, 'a) db_call \<Rightarrow> ('a \<Rightarrow> bool) \<Rightarrow> bool" where
  "keeps m Q \<longleftrightarrow> (\<forall>w. inv w \<longrightarrow> inv (snd (m w)) \<and> (\<forall>x. fst (m w) = Return x \<longrightarrow> Q x))"

lemma keepsD: "keeps m Q \<Longrightarrow> inv w \<Longrightarrow> m w = (r, w') \<Longrightarrow> inv w' \<and> (\<forall>x. r = Return x \<longrightarrow> Q x)"
  unfolding keeps_def by (metis fst_conv snd_conv)

lemma keeps_weaken: "keeps m Q \<Longrightarrow> (\<And>x. Q x \<Longrightarrow> R x) \<Longrightarrow> keeps m R"
  by (auto simp: keeps_def)

lemma keeps_return: "Q x \<Longrightarrow> keeps (db_return x) Q"
  by (simp add: keeps_def db_return_def)

lemma keeps_error: "keeps (db_error e) Q"
  by (simp add: keeps_def db_error_def)

lemma keeps_lift: "(\<And>x. m = Return x \<Longrightarrow> Q x) \<Longrightarrow> keeps (db_lift m) Q"
  by (simp add: keeps_def db_lift_def)

lemma keeps_bind:
  assumes "keeps m Q" "\<And>x. Q x \<Longrightarrow> keeps (f x) R"
  shows "keeps (db_bind m f) R"
  unfolding keeps_def
proof (intro allI impI)
  fix w assume w: "inv w"
  obtain r w' where m: "m w = (r, w')" by (cases "m w")
  have w': "inv w'" "\<And>x. r = Return x \<Longrightarrow> Q x" using keepsD [OF assms(1) w m] by auto
  show "inv (snd (db_bind m f w)) \<and> (\<forall>x. fst (db_bind m f w) = Return x \<longrightarrow> R x)"
  proof (cases r)
    case (Return x)
    then show ?thesis using assms(2) [OF w'(2) [OF Return]] w'(1) m by (simp add: db_bind_def keeps_def)
  qed (use m w'(1) in \<open>simp_all add: db_bind_def\<close>)
qed

lemma keeps_range: "s' \<in> {params_store s, keys_store s} \<Longrightarrow> keeps (db_range order s' lo hi limit reverse) (\<lambda>_. True)"
  unfolding keeps_def db_range_def by (auto split: outcome.splits prod.splits intro: range_inv)

lemma keeps_get: "s' \<in> {params_store s, keys_store s} \<Longrightarrow> keeps (db_get s' k) (\<lambda>_. True)"
  using get_inv [of s' _ k] unfolding keeps_def db_get_def by (fastforce split: prod.splits)

lemma keeps_set: "s' \<in> {params_store s, keys_store s} \<Longrightarrow> keeps (db_set encode s' k x) (\<lambda>_. True)"
  unfolding keeps_def db_set_def SetEncodable_def as_slice_def by (auto split: outcome.splits intro: set_inv)

lemma keeps_del: "s' \<in> {params_store s, keys_store s} \<Longrightarrow> keeps (db_del s' k) (\<lambda>_. True)"
  unfolding keeps_def db_del_def by (auto intro: del_inv)

lemma keeps_votes: "keeps (db_decode BFTVotes_Decode (votes_store s) emptyKey) (good_votes H)"
  unfolding keeps_def
proof (intro allI impI conjI)
  fix w assume w: "inv w"
  obtain r w' where g: "Database_Get w (votes_store s) emptyKey = (r, w')" by fastforce
  have d: "db_decode BFTVotes_Decode (votes_store s) emptyKey w =
      (wrap_error Err_diffdb (case r of None \<Rightarrow> Error Err_key_missing | Some b \<Rightarrow> wrap_error Err_diff_decode (BFTVotes_Decode b)), w')"
    by (simp add: db_decode_def GetDecodable_def g)
  show "inv (snd (db_decode BFTVotes_Decode (votes_store s) emptyKey w))" using votes_get_inv [OF w] g d by simp
  show "good_votes H x" if "fst (db_decode BFTVotes_Decode (votes_store s) emptyKey w) = Return x" for x
    using that d votes_good [OF w, of _ x] g by (auto simp: wrap_error_def split: option.splits outcome.splits)
qed

lemma keeps_votes_set: "good_votes H v \<Longrightarrow> keeps (db_set BFTVotes_Encode (votes_store s) emptyKey v) (\<lambda>_. True)"
  unfolding keeps_def db_set_def SetEncodable_def by (auto split: outcome.splits simp: as_slice_def intro: votes_set_inv)

lemmas keeps_rules = keeps_return keeps_error keeps_range keeps_get keeps_set keeps_del keeps_votes keeps_votes_set

text \<open>The operations on parameters and generator keys.\<close>

lemma keeps_getBFTParams: "keeps (getBFTParams order (params_store s) h) (\<lambda>_. True)"
  unfolding getBFTParams_def by (intro keeps_bind [OF keeps_range]) (auto intro: keeps_error keeps_lift)

lemma keeps_getGeneratorKeys: "keeps (getGeneratorKeys order (keys_store s) h) (\<lambda>_. True)"
  unfolding getGeneratorKeys_def by (intro keeps_bind [OF keeps_range]) (auto intro: keeps_error keeps_lift)

lemma keeps_del_all: "s' \<in> {params_store s, keys_store s} \<Longrightarrow> keeps (del_all s' kvs) (\<lambda>_. True)"
  by (induction kvs) (auto intro: keeps_return keeps_bind [OF keeps_del])

lemma keeps_deletes:
  "keeps (deleteBFTParams order (params_store s) h) (\<lambda>_. True)"
  "keeps (deleteGeneratorKeys order (keys_store s) h) (\<lambda>_. True)"
  unfolding deleteBFTParams_def deleteGeneratorKeys_def
  by (intro keeps_bind [OF keeps_range]; auto intro: keeps_return keeps_del_all)+

definition our_cache :: "bftParamsCache \<Rightarrow> bool" where
  "our_cache c \<longleftrightarrow> pc_paramsStore c = params_store s"

lemma keeps_GetParameters: "our_cache c \<Longrightarrow> keeps (GetParameters order c h) (\<lambda>(_, c'). our_cache c')"
  unfolding GetParameters_def our_cache_def
  by (cases "pc_data c h") (auto intro!: keeps_return keeps_bind [OF keeps_getBFTParams])

lemma keeps_cache:
  assumes "inv w" "our_cache c" "cache order c from to w = Some (r, w')"
  shows "inv w' \<and> (\<forall>c'. r = Return c' \<longrightarrow> our_cache c')"
proof -
  have "keeps (cache_kv order (params_store s) from to) (\<lambda>_. True)"
    unfolding cache_kv_def
    by (intro keeps_bind [OF keeps_range]) (auto intro: keeps_return keeps_bind [OF keeps_getBFTParams])
  from keepsD [OF this assms(1)] show ?thesis
    using assms(2,3) unfolding cache_def our_cache_def
    by (auto split: prod.splits outcome.splits simp: omap_eq_Return)
qed

text \<open>The loops over the headers change weights only.\<close>

lemma keeps_precommit_loop:
  "our_cache c \<Longrightarrow> keeps (precommit_loop order g minH d infos active c)
     (\<lambda>(infos', _, c'). map bb_height infos' = map bb_height infos \<and> our_cache c')"
proof (induction infos arbitrary: d active c)
  case (Cons b infos)
  show ?case
    unfolding precommit_loop.simps
    by (auto intro!: keeps_return keeps_error keeps_bind [OF keeps_GetParameters [OF Cons.prems]] keeps_bind [OF Cons.IH] Cons.prems
        split: option.splits)
qed (auto intro: keeps_return)

lemma keeps_prevote_loop:
  "our_cache c \<Longrightarrow> keeps (prevote_loop order g minH infos c)
     (\<lambda>(infos', c'). map bb_height infos' = map bb_height infos \<and> our_cache c')"
proof (induction infos arbitrary: c)
  case (Cons b infos)
  show ?case
    unfolding prevote_loop.simps
    by (auto intro!: keeps_return keeps_error keeps_bind [OF keeps_GetParameters [OF Cons.prems]] keeps_bind [OF Cons.IH] Cons.prems
        split: option.splits)
qed (auto intro: keeps_return)

lemma keeps_updatePrevotesPrecommits:
  assumes "our_cache c" "good_votes H v"
  shows "keeps (updatePrevotesPrecommits order v c) (\<lambda>(v', c'). good_votes H v' \<and> our_cache c')"
  unfolding updatePrevotesPrecommits_def
  by (auto intro!: keeps_return keeps_bind [OF keeps_lift [where Q = "\<lambda>_. True"]]
      keeps_bind [OF keeps_precommit_loop] keeps_bind [OF keeps_prevote_loop] assms
      intro: good_votes_heights [OF assms(2)] split: list.splits option.splits)

lemma keeps_prevoted_loop:
  "our_cache c \<Longrightarrow> good_votes H v \<Longrightarrow>
   keeps (updateMaxHeightPrevoted_loop order v infos c) (\<lambda>(v', c'). good_votes H v' \<and> our_cache c')"
proof (induction infos arbitrary: c)
  case (Cons b infos)
  show ?case
    unfolding updateMaxHeightPrevoted_loop.simps using Cons
    by (auto intro!: keeps_return keeps_bind [OF keeps_GetParameters] simp: good_votes_def)
qed (auto intro: keeps_return)

lemma keeps_precommitted_loop:
  "our_cache c \<Longrightarrow> good_votes H v \<Longrightarrow> set infos \<subseteq> set (vt_blockBFTInfos v) \<Longrightarrow>
   keeps (updateMaxHeightPrecommitted_loop order v infos c) (\<lambda>(v', c'). good_votes H v' \<and> our_cache c')"
proof (induction infos arbitrary: c)
  case (Cons b infos)
  show ?case
    unfolding updateMaxHeightPrecommitted_loop.simps using Cons
    by (auto intro!: keeps_return keeps_bind [OF keeps_GetParameters] simp: good_votes_def)
qed (auto intro: keeps_return)

lemma keeps_update_votes:
  assumes "our_cache c" "good_votes H v"
  shows "keeps (update_votes order header s v c) (\<lambda>_. True)"
proof -
  have cert: "keeps (db_lift (updateMaxHeightCertified v1 header)) (good_votes H)" if "good_votes H v1" for v1
    using that by (intro keeps_lift) (auto simp: updateMaxHeightCertified_def good_votes_def split: option.splits if_splits)
  show ?thesis
    unfolding update_votes_def updateMaxHeightPrevoted_def updateMaxHeightPrecommitted_def
    by (auto intro!: keeps_bind [OF keeps_updatePrevotesPrecommits] keeps_bind [OF keeps_prevoted_loop]
        keeps_bind [OF keeps_precommitted_loop] keeps_bind [OF cert]
        keeps_bind [OF keeps_votes_set] keeps_bind [OF keeps_lift [where m = "ints_Min hs" and Q = "\<lambda>_. True" for hs]]
        keeps_bind [OF keeps_deletes(1)] keeps_deletes(2) assms)
qed

lemma BeforeTransactionsExecute_inv:
  assumes "inv w" "bh_Height header \<le> H" "BeforeTransactionsExecute order m header s w = Some (r, w')"
  shows "inv w'"
proof -
  have "keeps (insert_header m header s) (good_votes H)"
    unfolding insert_header_def
    by (auto intro!: keeps_bind [OF keeps_votes] keeps_lift intro: good_votes_insert assms(2))
  then obtain r1 w1 where 1: "insert_header m header s w = (r1, w1)" "inv w1" "\<And>v. r1 = Return v \<Longrightarrow> good_votes H v"
    using keepsD [OF _ assms(1)] by (metis surj_pair)
  show ?thesis
  proof (cases r1)
    case (Return v)
    let ?c = "newBFTParamsCache (params_store s)"
    have our: "our_cache ?c" by (simp add: our_cache_def newBFTParamsCache_def)
    obtain r2 w2 where 2: "cache order ?c (bb_height (last (vt_blockBFTInfos v))) (bb_height (hd (vt_blockBFTInfos v))) w1
        = Some (r2, w2)" using assms(3) 1(1) Return by (auto simp: BeforeTransactionsExecute_def split: option.splits)
    have w2: "inv w2" "\<And>c'. r2 = Return c' \<Longrightarrow> our_cache c'" using keeps_cache [OF 1(2) our 2] by auto
    show ?thesis
    proof (cases r2)
      case r2: (Return c')
      then have "update_votes order header s v c' w2 = (r, w')"
        using assms(3) 1(1) 2 Return by (simp add: BeforeTransactionsExecute_def)
      then show ?thesis using keepsD [OF keeps_update_votes [OF w2(2) [OF r2] 1(3) [OF Return]] w2(1)] by blast
    qed (use assms(3) 1(1) 2 w2(1) Return in \<open>simp_all add: BeforeTransactionsExecute_def\<close>)
  qed (use assms(3) 1 in \<open>simp_all add: BeforeTransactionsExecute_def\<close>)
qed

text \<open>The interface to the other packages.\<close>

lemma keeps_api:
  "keeps (GetBFTParameters order s h) (\<lambda>_. True)"
  "keeps (GetGeneratorKeys order s h) (\<lambda>_. True)"
  "keeps (IsHeaderContradictingChain s header) (\<lambda>_. True)"
  "keeps (ExistBFTParameters s h) (\<lambda>_. True)"
  "keeps (NextHeightBFTParameters order s h) (\<lambda>_. True)"
  unfolding GetBFTParameters_def GetGeneratorKeys_def IsHeaderContradictingChain_def ExistBFTParameters_def
    NextHeightBFTParameters_def
  by (auto intro!: keeps_getBFTParams keeps_bind [OF keeps_getGeneratorKeys] keeps_bind [OF keeps_votes]
      keeps_bind [OF keeps_get] keeps_bind [OF keeps_range] keeps_return keeps_error keeps_lift)

lemma keeps_heights: "keeps (GetBFTHeights s) (\<lambda>(_, maxHeightPrecommited, _). maxHeightPrecommited \<le> H)"
  unfolding GetBFTHeights_def by (auto intro!: keeps_bind [OF keeps_votes] keeps_return simp: good_votes_def)

lemma keeps_implies: "keeps (ImpliesMaximalPrevotes s header) (\<lambda>_. True)"
  unfolding ImpliesMaximalPrevotes_def Let_def
  by (auto intro!: keeps_bind [OF keeps_votes] keeps_return keeps_error keeps_lift split: list.splits)

lemma keeps_SetBFTParameters: "keeps (SetBFTParameters order a s p c vs) (\<lambda>_. True)"
proof -
  have cur: "keeps (current_params order (params_store s) h) (\<lambda>_. True)" for h
    using keeps_getBFTParams [of order h] unfolding keeps_def current_params_def
    by (auto split: outcome.splits prod.splits)
  have good: "good_votes H (v\<lparr>vt_activeValidatorsVoteInfo := a\<rparr>)" if "good_votes H v" for v a
    using that by (simp add: good_votes_def)
  show ?thesis
    unfolding SetBFTParameters_def Let_def
    by (auto intro!: keeps_bind [OF keeps_lift [where Q = "\<lambda>_. True"]] keeps_bind [OF keeps_votes]
        keeps_bind [OF cur] keeps_bind [OF keeps_set] keeps_votes_set keeps_return good)
qed

lemma keeps_SetGeneratorKeys: "keeps (SetGeneratorKeys s generators) (\<lambda>_. True)"
  unfolding SetGeneratorKeys_def Let_def by (auto intro!: keeps_bind [OF keeps_votes] keeps_set)

end

section \<open>The state database under the module\<close>

text \<open>
  The state database of a block: nothing is written to the store, the cache agrees with the store and
  has keys of the state only, and the votes have heights up to a bound.
\<close>

definition bft_inv :: "store \<Rightarrow> Database \<Rightarrow> u32 \<Rightarrow> world \<Rightarrow> bool" where
  "bft_inv st s H w \<longleftrightarrow>
     w_store w = st \<and> db_ok w s \<and> dom (the_cache w s) \<subseteq> {k. prefix (d_prefix s) k}
     \<and> (\<forall>b v. view w (votes_store s) emptyKey = Some b \<longrightarrow> BFTVotes_Decode b = Return v \<longrightarrow> good_votes H v)"

lemma store_prefix:
  "d_prefix (Database_WithPrefix s p) = d_prefix s @ p" "d_cache (Database_WithPrefix s p) = d_cache s"
  by (simp_all add: Database_WithPrefix_def)

lemma db_ok_prefix [simp]: "db_ok w (Database_WithPrefix s p) = db_ok w s"
  by (simp add: db_ok_def store_prefix)

lemma set_limit_loop: "set (limit_loop limit cnt xs) \<subseteq> set xs"
  by (induction limit cnt xs rule: limit_loop.induct) auto

lemma range_prefix:
  assumes "store_ok st" "kv \<in> set (DB_IterateRange st (p @ a) (p @ e) limit reverse)"
  shows "kv \<in> set st \<and> prefix p (fst kv)"
proof (cases reverse)
  case False
  then have "kv \<in> set st \<and> p @ a \<le> fst kv \<and> fst kv \<le> p @ e"
    using assms set_limit_loop [of limit 0]
    by (fastforce simp: DB_IterateRange_def iterateRange_def dropWhile_store dest: set_takeWhileD)
  then show ?thesis using in_range_iff [of p a "fst kv" e] by auto
next
  case True
  let ?below = "takeWhile (\<lambda>kv. case upperBound (p @ e) of None \<Rightarrow> False | Some u \<Rightarrow> fst kv < u) st"
  have "kv \<in> set (takeWhile (\<lambda>kv. \<not> fst kv < p @ a) (rev ?below))"
    using assms(2) True by (auto simp: DB_IterateRange_def iterateRange_def intro: subsetD [OF set_limit_loop])
  then have "\<not> fst kv < p @ a" "kv \<in> set ?below" using set_takeWhileD by fastforce+
  moreover from this(2) have "kv \<in> set st" "case upperBound (p @ e) of None \<Rightarrow> False | Some u \<Rightarrow> fst kv < u"
    using set_takeWhileD by fastforce+
  ultimately have kv: "kv \<in> set st \<and> p @ a \<le> fst kv \<and> (\<exists>u. upperBound (p @ e) = Some u \<and> fst kv < u)"
    by (auto split: option.splits)
  show ?thesis
  proof (cases "p @ e \<le> fst kv")
    case True
    then have "prefix (p @ e) (fst kv)" using kv prefix_bounds [of "p @ e" "fst kv"] by (auto simp: upperBound_eq)
    then show ?thesis using kv by (metis prefix_def prefix_order.trans append_prefixD)
  next
    case False
    then show ?thesis using kv in_range_iff [of p a "fst kv" e] by auto
  qed
qed

lemma stored_loop_dom:
  assumes "d_cache s < length (w_caches w)" "stored_loop w s kv acc = (sv, w')"
  shows "dom (the_cache w' s) \<subseteq> dom (the_cache w s) \<union> fst ` set kv"
  using assms
proof (induction kv arbitrary: w acc)
  case (Cons x kv)
  obtain key val where x: "x = (key, val)" by (cases x)
  obtain w1 acc1 where 1: "stored_loop w1 s kv acc1 = (sv, w')" "d_cache s < length (w_caches w1)"
    "dom (the_cache w1 s) \<subseteq> insert key (dom (the_cache w s))"
    using Cons.prems x by (cases "the_cache w s key") (auto simp: cacheDB_get_def cacheDB_cache_def split: if_splits)
  have "dom (the_cache w' s) \<subseteq> insert key (dom (the_cache w s)) \<union> fst ` set kv"
    using Cons.IH [OF 1(2,1)] 1(3) by blast
  then show ?case by (simp add: x)
qed simp

text \<open>Each access keeps what is stored and what the cache may hold.\<close>

definition frame_ok :: "Database \<Rightarrow> world \<Rightarrow> world \<Rightarrow> bool" where
  "frame_ok s w w' \<longleftrightarrow>
     w_store w' = w_store w \<and> db_ok w' s \<and> dom (the_cache w' s) \<subseteq> dom (the_cache w s) \<union> {k. prefix (d_prefix s) k}"

lemma Range_frame:
  assumes "db_ok w s" "(Database_Range order w s lo hi limit reverse :: ('e, _) outcome) = Return (kv, w')"
  shows "frame_ok s w w' \<and> raw (w_store w) (the_cache w' s) = raw (w_store w) (the_cache w s)"
proof -
  let ?r = "DB_IterateRange (w_store w) (d_prefix s @ lo) (d_prefix s @ hi) limit reverse"
  have st: "store_ok (w_store w)" "d_cache s < length (w_caches w)" using assms(1) by (simp_all add: db_ok_def)
  obtain sv where loop: "stored_loop w s ?r [] = (sv, w')"
    using assms(2) by (auto simp: Database_Range_def Let_def omap_eq_Return split: prod.splits)
  have mem: "DB_Get (w_store w) key = Some val" if "(key, val) \<in> set ?r" for key val
    using range_prefix [OF st(1) that] DB_Get_iff [OF st(1)] by auto
  have "warmer s w w'" using stored_loop_spec [OF assms(1) mem loop] by blast
  moreover have "fst ` set ?r \<subseteq> {k. prefix (d_prefix s) k}" using range_prefix [OF st(1)] by force
  ultimately have "dom (the_cache w' s) \<subseteq> dom (the_cache w s) \<union> {k. prefix (d_prefix s) k}"
    using stored_loop_dom [OF st(2) loop] by blast
  then show ?thesis using \<open>warmer s w w'\<close> by (simp add: warmer_def frame_ok_def)
qed

lemma frame_okI:
  assumes "w_store w' = w_store w" "db_ok w' s" "dom (the_cache w' s) \<subseteq> insert (d_prefix s @ k) (dom (the_cache w s))"
  shows "frame_ok s w w'"
proof -
  have "insert (d_prefix s @ k) (dom (the_cache w s)) \<subseteq> dom (the_cache w s) \<union> {k. prefix (d_prefix s) k}" by simp
  then show ?thesis using assms unfolding frame_ok_def by blast
qed

lemma Get_frame:
  assumes "db_ok w s"
  shows "frame_ok s w (snd (Database_Get w s k))
    \<and> raw (w_store w) (the_cache (snd (Database_Get w s k)) s) = raw (w_store w) (the_cache w s)"
proof -
  have "dom (the_cache (snd (Database_Get w s k)) s) \<subseteq> insert (d_prefix s @ k) (dom (the_cache w s))"
    using assms
    by (cases "DB_Get (w_store w) (d_prefix s @ k)")
      (auto simp: Database_Get_def db_ok_def cacheDB_cache_def split: prod.splits)
  then show ?thesis using Database_Get_view [OF assms, of k] frame_okI by simp
qed

lemma Set_frame:
  assumes "db_ok w s" "(Database_Set w s k b :: ('e, _) outcome) = Return w'"
  shows "frame_ok s w w' \<and> raw (w_store w) (the_cache w' s) = (raw (w_store w) (the_cache w s))(d_prefix s @ k \<mapsto> b)"
proof -
  let ?k = "d_prefix s @ k"
  have len: "d_cache s < length (w_caches w)" using assms(1) by (simp add: db_ok_def)
  have "after_set w s k b w'" using Database_Set_view [OF assms(1), of k b, where ?'a = 'e] assms(2) by auto
  moreover have "dom (the_cache w' s) \<subseteq> insert ?k (dom (the_cache w s))"
  proof (cases "the_cache w s ?k")
    case None
    then show ?thesis using assms(2) len
      by (cases "DB_Get (w_store w) ?k")
        (auto simp: Database_Set_def cacheDB_existAny_def ensureCache_def cacheDB_add_def cacheDB_set_def cacheDB_cache_def)
  next
    case (Some v)
    then show ?thesis using assms(2) len by (auto simp: Database_Set_def cacheDB_existAny_def cacheDB_set_def)
  qed
  ultimately show ?thesis using frame_okI by (simp add: after_set_def)
qed

lemma Del_frame:
  assumes "db_ok w s"
  shows "frame_ok s w (Database_Del w s k)
    \<and> raw (w_store w) (the_cache (Database_Del w s k) s) = (raw (w_store w) (the_cache w s))(d_prefix s @ k := None)"
proof -
  let ?k = "d_prefix s @ k"
  have len: "d_cache s < length (w_caches w)" using assms(1) by (simp add: db_ok_def)
  have del: "dom (cacheDB_del c k) \<subseteq> insert k (dom c)" for c k
    by (cases "c k") (auto simp: cacheDB_del_def)
  have "dom (the_cache (Database_Del w s k) s) \<subseteq> insert ?k (dom (the_cache w s))"
  proof (cases "the_cache w s ?k")
    case None
    show ?thesis
    proof (cases "DB_Get (w_store w) ?k")
      case (Some i)
      then have "the_cache (Database_Del w s k) s = cacheDB_del (cacheDB_cache (the_cache w s) ?k i) ?k"
        using None len by (simp add: Database_Del_def cacheDB_existAny_def ensureCache_def Let_def)
      then show ?thesis using del [of "cacheDB_cache (the_cache w s) ?k i" ?k] by (simp add: cacheDB_cache_def)
    qed (use None len del in \<open>simp add: Database_Del_def cacheDB_existAny_def ensureCache_def\<close>)
  qed (use len del in \<open>simp add: Database_Del_def cacheDB_existAny_def\<close>)
  then show ?thesis using Database_Del_view [OF assms, of k] frame_okI by simp
qed

lemma dbPrefix_neq:
  "storePrefix \<in> {storePrefixBFTParams, storePrefixGeneratorKeys} \<Longrightarrow> dbPrefix storePrefix @ k \<noteq> dbPrefix storePrefixBFTVotes"
  by (auto simp: dbPrefix_def FromUint32_def FromUint16_def)

lemma frame_bft_inv:
  assumes inv: "bft_inv st s H w" and s': "s' = Database_WithPrefix s p" and frame: "frame_ok s' w w'"
    and raw: "raw (w_store w) (the_cache w' s') (d_prefix (votes_store s)) = raw (w_store w) (the_cache w s') (d_prefix (votes_store s))"
  shows "bft_inv st s H w'"
proof -
  have c: "the_cache x s' = the_cache x s" for x by (simp add: s' store_prefix)
  have d: "the_cache x (votes_store s) = the_cache x s" for x by (simp add: store_prefix)
  have "dom (the_cache w' s) \<subseteq> dom (the_cache w s) \<union> {k. prefix (d_prefix s') k}" using frame by (simp add: frame_ok_def c)
  moreover have "prefix (d_prefix s) k" if "prefix (d_prefix s') k" for k
    using that by (auto simp: s' store_prefix elim!: append_prefixD)
  ultimately have "dom (the_cache w' s) \<subseteq> {k. prefix (d_prefix s) k}" using inv unfolding bft_inv_def by blast
  moreover have "view w' (votes_store s) emptyKey = view w (votes_store s) emptyKey"
    using raw frame by (simp add: view_def emptyKey_def frame_ok_def c d)
  ultimately show ?thesis using inv frame by (simp add: bft_inv_def frame_ok_def s')
qed

interpretation bs: bft_state s "bft_inv st s H" H for st s H
proof
  note D = bft_inv_def
  fix w order lo hi limit reverse kv w' k b s' v
  assume inv: "bft_inv st s H w"
  then have ok: "db_ok w (Database_WithPrefix s p)" for p by (simp add: D)
  { assume "s' \<in> {params_store s, keys_store s}"
    then obtain p where p: "s' = Database_WithPrefix s (dbPrefix p)" "p \<in> {storePrefixBFTParams, storePrefixGeneratorKeys}" by auto
    have neq: "d_prefix s' @ k \<noteq> d_prefix (votes_store s)" for k using dbPrefix_neq [OF p(2), of k] by (simp add: p(1) store_prefix)
    show "bft_inv st s H w'" if "(Database_Range order w s' lo hi limit reverse :: (bft_error, _) outcome) = Return (kv, w')"
      using Range_frame [OF ok [of "dbPrefix p", folded p(1)] that] by (intro frame_bft_inv [OF inv p(1)]) auto
    show "bft_inv st s H (snd (Database_Get w s' k))"
      using Get_frame [OF ok [of "dbPrefix p", folded p(1)], of k] by (intro frame_bft_inv [OF inv p(1)]) auto
    show "bft_inv st s H w'" if "(Database_Set w s' k b :: (bft_error, _) outcome) = Return w'"
      using Set_frame [OF ok [of "dbPrefix p", folded p(1)] that] neq [of k] by (intro frame_bft_inv [OF inv p(1)]) auto
    show "bft_inv st s H (Database_Del w s' k)"
      using Del_frame [OF ok [of "dbPrefix p", folded p(1)], of k] neq [of k] by (intro frame_bft_inv [OF inv p(1)]) auto
  }
  show "bft_inv st s H (snd (Database_Get w (votes_store s) emptyKey))"
    using Get_frame [OF ok] by (intro frame_bft_inv [OF inv refl]) auto
  show "good_votes H v" if "fst (Database_Get w (votes_store s) emptyKey) = Some b" "BFTVotes_Decode b = Return v"
    using that inv Database_Get_view [OF ok, of "dbPrefix storePrefixBFTVotes" emptyKey] by (simp add: D)
  show "bft_inv st s H w'" if good: "good_votes H v" "length (BFTVotes_Encode v) < 2 ^ 63"
    "(Database_Set w (votes_store s) emptyKey (BFTVotes_Encode v) :: (bft_error, _) outcome) = Return w'"
  proof -
    let ?s = "votes_store s"
    have f: "frame_ok ?s w w'" "raw (w_store w) (the_cache w' ?s) = (raw (w_store w) (the_cache w ?s))(d_prefix ?s @ emptyKey \<mapsto> BFTVotes_Encode v)"
      using Set_frame [OF ok good(3)] by auto
    have "view w' ?s emptyKey = Some (BFTVotes_Encode v)" using f by (simp add: view_def frame_ok_def)
    moreover have "BFTVotes_Decode (BFTVotes_Encode v) = Return v"
      using vt_msg.decode_encode [OF _ good(2)] by (simp add: BFTVotes_Decode_def)
    moreover have "dom (the_cache w' s) \<subseteq> {k. prefix (d_prefix s) k}"
    proof -
      have "dom (the_cache w' s) \<subseteq> dom (the_cache w s) \<union> {k. prefix (d_prefix ?s) k}"
        using f(1) by (simp add: frame_ok_def store_prefix)
      then show ?thesis using inv by (auto simp: D store_prefix dest: append_prefixD)
    qed
    ultimately show ?thesis using inv f(1) good(1) by (simp add: D frame_ok_def)
  qed
qed

end
