(* ===== verification/Executer_Rules.thy ===== *)
theory Executer_Rules
  imports Single_Commits Bft_State
begin

text \<open>
  What the executer does to the chain.  Processing and deleting a block change the chain in one call
  of \<^verbatim>\<open>AddBlock\<close> or \<^verbatim>\<open>RemoveBlock\<close> at most.  The rules of this theory follow the programs of the
  executer up to that call, with the state database of the BFT module along the way.
\<close>

section \<open>Rules for programs\<close>

definition hoare :: "('s \<Rightarrow> bool) \<Rightarrow> ('s, 'a) prog \<Rightarrow> ('a \<Rightarrow> 's \<Rightarrow> bool) \<Rightarrow> ('s \<Rightarrow> bool) \<Rightarrow> bool" where
  "hoare P m Q E \<longleftrightarrow>
     (\<forall>s r s'. P s \<longrightarrow> m s = Some (r, s') \<longrightarrow> (case r of Return x \<Rightarrow> Q x s' | _ \<Rightarrow> E s'))"

named_theorems prog_rules

lemma hoareD: "hoare P m Q E \<Longrightarrow> P s \<Longrightarrow> m s = Some (r, s') \<Longrightarrow> (case r of Return x \<Rightarrow> Q x s' | _ \<Rightarrow> E s')"
  unfolding hoare_def by blast

lemma hoare_weaken:
  assumes "hoare P' m Q' E'" "\<And>s. P s \<Longrightarrow> P' s" "\<And>x s. Q' x s \<Longrightarrow> Q x s" "\<And>s. E' s \<Longrightarrow> E s"
  shows "hoare P m Q E"
  unfolding hoare_def
proof (intro allI impI)
  fix s r s' assume "P s" "m s = Some (r, s')"
  then show "case r of Return x \<Rightarrow> Q x s' | _ \<Rightarrow> E s'"
    using hoareD [OF assms(1) assms(2)] assms(3,4) by (cases r) fastforce+
qed

lemma hoare_post: "hoare P m Q' E \<Longrightarrow> (\<And>x s. Q' x s \<Longrightarrow> Q x s) \<Longrightarrow> hoare P m Q E"
  by (rule hoare_weaken)

lemma hoare_pre: "hoare P' m Q E \<Longrightarrow> (\<And>s. P s \<Longrightarrow> P' s) \<Longrightarrow> hoare P m Q E"
  by (rule hoare_weaken)

lemma hoare_bind:
  assumes "hoare P m Q E" "\<And>x. hoare (Q x) (f x) R E"
  shows "hoare P (x_bind m f) R E"
  unfolding hoare_def
proof (intro allI impI)
  fix s r s' assume s: "P s" and run: "x_bind m f s = Some (r, s')"
  obtain r1 s1 where m: "m s = Some (r1, s1)" using run by (auto simp: x_bind_def split: option.splits)
  show "case r of Return x \<Rightarrow> R x s' | _ \<Rightarrow> E s'"
  proof (cases r1)
    case (Return x)
    then show ?thesis using hoareD [OF assms(2)] hoareD [OF assms(1) s m] run m by (simp add: x_bind_def)
  qed (use hoareD [OF assms(1) s m] run m in \<open>auto simp: x_bind_def\<close>)
qed

lemma hoare_try:
  assumes "hoare P m Q E'" "\<And>x. hoare (Q x) (f x) R E" "\<And>e. hoare E' (h e) R E" "\<And>s. E' s \<Longrightarrow> E s"
  shows "hoare P (x_try m h f) R E"
  unfolding hoare_def
proof (intro allI impI)
  fix s r s' assume s: "P s" and run: "x_try m h f s = Some (r, s')"
  obtain r1 s1 where m: "m s = Some (r1, s1)" using run by (auto simp: x_try_def split: option.splits)
  show "case r of Return x \<Rightarrow> R x s' | _ \<Rightarrow> E s'"
    using hoareD [OF assms(1) s m] hoareD [OF assms(2)] hoareD [OF assms(3)] assms(4) run m
    by (cases r1) (auto simp: x_try_def)
qed

lemma hoare_defer:
  assumes "hoare P body Q E" "\<And>x. hoare (Q x) clean (\<lambda>_. Q x) (Q x)" "hoare E clean (\<lambda>_. E) E" "\<And>x s. Q x s \<Longrightarrow> E s"
  shows "hoare P (x_defer clean body) Q E"
  unfolding hoare_def
proof (intro allI impI)
  fix s r s' assume s: "P s" and run: "x_defer clean body s = Some (r, s')"
  obtain r1 s1 where b: "body s = Some (r1, s1)" using run by (auto simp: x_defer_def split: option.splits)
  obtain r2 s2 where c: "clean s1 = Some (r2, s2)" using run b by (auto simp: x_defer_def split: option.splits)
  have s': "s' = s2" "r = Panic \<or> r = r1" using run b c by (auto simp: x_defer_def split: outcome.splits)
  have "case r1 of Return x \<Rightarrow> Q x s2 | _ \<Rightarrow> E s2"
    using hoareD [OF assms(1) s b] hoareD [OF assms(2) _ c] hoareD [OF assms(3) _ c] by (cases r1; cases r2) auto
  then show "case r of Return x \<Rightarrow> Q x s' | _ \<Rightarrow> E s'" using s' assms(4) by (cases r1) auto
qed

lemma hoare_return: "(\<And>s. P s \<Longrightarrow> Q x s) \<Longrightarrow> hoare P (x_return x) Q E"
  by (simp add: hoare_def x_return_def)

lemma hoare_lift: "(\<And>s x. P s \<Longrightarrow> m = Return x \<Longrightarrow> Q x s) \<Longrightarrow> (\<And>s. P s \<Longrightarrow> E s) \<Longrightarrow> hoare P (x_lift m) Q E"
  by (auto simp: hoare_def x_lift_def split: outcome.splits)

lemma hoare_error: "(\<And>s. P s \<Longrightarrow> E s) \<Longrightarrow> hoare P (x_error e) Q E"
  by (auto simp: hoare_def x_error_def x_lift_def)

lemma hoare_if: "(\<And>s. P s \<Longrightarrow> E s) \<Longrightarrow> hoare P (x_if b e) (\<lambda>_ s. P s \<and> \<not> b) E"
  by (auto simp: hoare_def x_if_def x_error_def x_return_def x_lift_def)

lemma hoare_get: "hoare P (x_get f) (\<lambda>x s. P s \<and> x = f (es_exec s)) E"
  by (auto simp: hoare_def x_get_def)

section \<open>Up to the commit\<close>

text \<open>Before the commit the chain is as it was, and the state database is the one of the block.\<close>

definition before_commit :: "Chain \<Rightarrow> store \<Rightarrow> Database \<Rightarrow> u32 \<Rightarrow> 'app exec_state \<Rightarrow> bool" where
  "before_commit ch st s H x \<longleftrightarrow> ex_chain (es_exec x) = ch \<and> bft_inv st s H (es_world x)"

lemma before_db:
  assumes "bs.keeps st s H m Q"
  shows "hoare (before_commit ch st s H) (x_db m) (\<lambda>x t. before_commit ch st s H t \<and> Q x) (before_commit ch st s H)"
  unfolding hoare_def
proof (intro allI impI)
  fix t r t' assume t: "before_commit ch st s H t" "x_db m t = Some (r, t')"
  obtain r1 w1 where m: "m (es_world t) = (r1, w1)" by fastforce
  have "bft_inv st s H w1 \<and> (\<forall>x. r1 = Return x \<longrightarrow> Q x)"
    using bs.keepsD [OF assms _ m] t(1) by (simp add: before_commit_def)
  then show "case r of Return x \<Rightarrow> before_commit ch st s H t' \<and> Q x | _ \<Rightarrow> before_commit ch st s H t'"
    using t m by (auto simp: x_db_def before_commit_def wrap_error_def split: outcome.splits)
qed

lemma before_abi: "hoare (before_commit ch st s H) (x_abi m) (\<lambda>_. before_commit ch st s H) (before_commit ch st s H)"
  by (auto simp: hoare_def x_abi_def before_commit_def split: outcome.splits prod.splits)

lemma before_chain:
  "hoare (before_commit ch st s H) (x_get ex_chain) (\<lambda>x t. before_commit ch st s H t \<and> x = ch) E"
  by (rule hoare_post [OF hoare_get]) (simp add: before_commit_def)

lemma before_dataAccess:
  "hoare (before_commit ch st s H) x_dataAccess (\<lambda>d t. before_commit ch st s H t \<and> ch_dataAccess ch = Some d) (before_commit ch st s H)"
  unfolding x_dataAccess_def
  by (rule hoare_bind [OF before_chain], rule hoare_lift) (auto simp: deref_def split: option.splits)

lemma before_lastHeader:
  "hoare (before_commit ch st s H) x_lastHeader (\<lambda>_. before_commit ch st s H) (before_commit ch st s H)"
  unfolding x_lastHeader_def by (rule hoare_bind [OF before_dataAccess], rule hoare_lift) auto

lemma before_headerByHeight:
  "hoare (before_commit ch st s H) (x_headerByHeight h) (\<lambda>_. before_commit ch st s H) (before_commit ch st s H)"
  unfolding x_headerByHeight_def
  by (rule hoare_bind [OF before_dataAccess], rule hoare_bind [OF hoare_lift [where Q = "\<lambda>_. before_commit ch st s H"]])
    (auto intro: hoare_lift)

text \<open>Programs that keep a property of the state, whatever they return.\<close>

abbreviation stays :: "('s \<Rightarrow> bool) \<Rightarrow> ('s, 'a) prog \<Rightarrow> bool" where
  "stays P m \<equiv> hoare P m (\<lambda>_. P) P"

lemma stays_bind [prog_rules]: "stays P m \<Longrightarrow> (\<And>x. stays P (f x)) \<Longrightarrow> stays P (x_bind m f)"
  by (rule hoare_bind)

lemma stays_try [prog_rules]: "stays P m \<Longrightarrow> (\<And>e. stays P (h e)) \<Longrightarrow> (\<And>x. stays P (f x)) \<Longrightarrow> stays P (x_try m h f)"
  by (rule hoare_try)

lemma stays_basic [prog_rules]:
  "stays P (x_return x)" "stays P (x_lift m)" "stays P (x_error e)" "stays P (x_if b e)" "stays P (x_get f)"
  by (auto simp: hoare_def x_return_def x_lift_def x_error_def x_if_def x_get_def split: outcome.splits)

lemma stays_split [prog_rules]:
  "(b \<Longrightarrow> stays P m) \<Longrightarrow> (\<not> b \<Longrightarrow> stays P m') \<Longrightarrow> stays P (if b then m else m')"
  "(\<And>x y. z = (x, y) \<Longrightarrow> stays P (f x y)) \<Longrightarrow> stays P (case z of (x, y) \<Rightarrow> f x y)"
  "(v = None \<Longrightarrow> stays P m) \<Longrightarrow> (\<And>x. v = Some x \<Longrightarrow> stays P (g x)) \<Longrightarrow> stays P (case v of None \<Rightarrow> m | Some x \<Rightarrow> g x)"
  by (auto split: prod.splits option.splits)

lemma stays_db: "bs.keeps st s H m Q \<Longrightarrow> stays (before_commit ch st s H) (x_db m)"
  by (rule hoare_post, erule before_db) simp

lemmas stays_api [prog_rules] = bs.keeps_api [THEN stays_db] bs.keeps_heights [THEN stays_db] bs.keeps_implies [THEN stays_db]
  bs.keeps_SetBFTParameters [THEN stays_db] bs.keeps_SetGeneratorKeys [THEN stays_db]

lemmas stays_chain [prog_rules] = before_abi before_lastHeader before_headerByHeight

lemma stays_dataAccess [prog_rules]: "stays (before_commit ch st s H) x_dataAccess"
  by (rule hoare_post [OF before_dataAccess]) simp

lemma stays_next_params [prog_rules]: "stays (before_commit ch st s H) (next_params_height env s h)"
proof -
  have *: "next_params_height env s h t = Some (r, t') \<Longrightarrow>
      \<exists>r' w. NextHeightBFTParameters (env_order env) s h (es_world t) = (r', w) \<and> t' = t\<lparr>es_world := w\<rparr>" for t t' and r :: "(exec_error, bool \<times> u32) outcome"
    by (auto simp: next_params_height_def split: prod.splits)
  show ?thesis
    unfolding hoare_def using bs.keepsD [OF bs.keeps_api(5)]
    by (fastforce dest!: * simp: before_commit_def split: outcome.splits)
qed

lemma stays_verifyAggregateCommit [prog_rules]: "stays (before_commit ch st s H) (verifyAggregateCommit env s ac)"
  unfolding verifyAggregateCommit_def verify_certificate_def Let_def by (intro prog_rules)

lemma stays_getABIConsensus [prog_rules]: "stays (before_commit ch st s H) (getABIConsensus env s header)"
  unfolding getABIConsensus_def by (intro prog_rules)

lemma stays_execute_txs [prog_rules]: "stays (before_commit ch st s H) (execute_txs abi i header assets txs es)"
  by (induction txs arbitrary: es) (auto simp only: execute_txs.simps intro!: prog_rules)

lemma stays_x_before [prog_rules]:
  assumes "bh_Height header \<le> H"
  shows "stays (before_commit ch st s H) (x_before env header s)"
  unfolding hoare_def x_before_def before_commit_def
  using bs.BeforeTransactionsExecute_inv [OF _ assms] by (fastforce split: outcome.splits)

lemma stays_Execute [prog_rules]:
  assumes "bh_Height header \<le> H"
  shows "stays (before_commit ch st s H) (stateExecuter_Execute env abi i s header block)"
  unfolding stateExecuter_Execute_def Let_def by (intro prog_rules assms)

section \<open>The commit\<close>

definition state_db :: Database where
  "state_db = \<lparr>d_prefix = [10], d_cache = 0, d_snapshots = Map.empty, d_snapshotCount = 0\<rparr>"

text \<open>The diffs that a block makes obsolete.\<close>

definition obsolete :: "u32 \<Rightarrow> batch_op list \<Rightarrow> bool" where
  "obsolete finalized dels \<longleftrightarrow>
     (\<forall>op \<in> set dels. \<exists>rest h. op = BatchDel (51 # rest) \<and> (ToUint32 rest :: (unit, u32) outcome) = Return h \<and> h < finalized)"

text \<open>
  The one way in which processing a block changes the chain: the block follows the last one, and its
  batch has the changes of the state, the diff that undoes them, and deletes obsolete diffs.
\<close>

definition added :: "environment \<Rightarrow> Chain \<Rightarrow> Block \<Rightarrow> bool \<Rightarrow> Chain \<Rightarrow> bool" where
  "added env ch block removeTemp ch' \<longleftrightarrow>
     (\<exists>d lh header events w batch diff cur maxPre dels.
        ch_dataAccess ch = Some d \<and> (last_header d :: (exec_error, _) outcome) = Return lh \<and> blk_Header block = Some header
        \<and> bh_Height header = bh_Height lh + 1
        \<and> bft_inv (da_database d) state_db (bh_Height header) w
        \<and> Database_Commit (env_order env) w state_db [] = (batch, diff) \<and> length (Diff_Encode diff) < 2 ^ 63
        \<and> GetFinalizedHeight d = Return cur \<and> maxPre \<le> bh_Height header \<and> obsolete maxPre dels
        \<and> ch' = snd (AddBlock (env_nfc env) ch (batch @ [BatchSet (diff_key (bh_Height header)) (Diff_Encode diff)] @ dels)
                       block events (max cur maxPre) removeTemp))"

lemma ToUint32_any: "(ToUint32 b :: ('e, u32) outcome) = Return h \<longleftrightarrow> (ToUint32 b :: ('f, u32) outcome) = Return h"
  by (cases b rule: ToUint32.cases) auto

lemma delete_diffs_obsolete:
  assumes "\<And>k. k \<in> set keys \<Longrightarrow> hd k = 51 \<and> k \<noteq> []" "(delete_diffs m keys batch :: ('e, _) outcome) = Return batch'"
  shows "\<exists>dels. batch' = batch @ dels \<and> obsolete m dels"
  using assms
proof (induction keys arbitrary: batch)
  case (Cons k keys)
  obtain h where h: "(ToUint32 (drop 1 k) :: ('e, u32) outcome) = Return h"
    "(delete_diffs m keys (if h < m then Batch_Del batch k else batch) :: ('e, _) outcome) = Return batch'"
    using Cons.prems(2) by (auto simp: obind_eq_Return)
  obtain dels where d: "batch' = (if h < m then Batch_Del batch k else batch) @ dels" "obsolete m dels"
    using Cons.IH [OF _ h(2)] Cons.prems(1) by auto
  have k: "k = 51 # drop 1 k" using Cons.prems(1) [of k] by (cases k) auto
  have "(ToUint32 (drop 1 k) :: (unit, u32) outcome) = Return h" using h(1) ToUint32_any by blast
  then have "obsolete m [BatchDel k]" if "h < m" using that k unfolding obsolete_def by auto
  then show ?case using d
    by (cases "h < m") (auto simp: Batch_Del_def obsolete_def intro!: exI [of _ "BatchDel k # dels"])
qed (simp add: obsolete_def)

lemma IterateKey_prefix:
  assumes "k \<in> set (DB_IterateKey st [p] (-1) False)"
  shows "hd k = p \<and> k \<noteq> []"
proof -
  have "[p] \<le> k \<and> (case next_prefix [p] of None \<Rightarrow> True | Some u \<Rightarrow> k < u)"
    using assms by (auto simp: DB_IterateKey_def iterateKeyPrefix_def bounded_def upperBound_eq simp del: next_prefix.simps)
  then have "prefix [p] k" using prefix_bounds by blast
  then show ?thesis by (auto simp: prefix_def)
qed

text \<open>The checks before the state is read leave everything as it is.\<close>

lemma position_ok:
  "hoare (\<lambda>t. t = t0) (verify_position now header)
     (\<lambda>_ t. t = t0 \<and> (\<exists>d lh. ch_dataAccess (ex_chain (es_exec t0)) = Some d
        \<and> (last_header d :: (exec_error, _) outcome) = Return lh \<and> bh_Height header = bh_Height lh + 1)) (\<lambda>t. t = t0)"
  unfolding verify_position_def Let_def x_lastHeader_def x_dataAccess_def
  by (auto simp: hoare_def x_bind_def x_if_def x_error_def x_return_def x_get_def x_lift_def deref_def
      split: option.splits outcome.splits if_splits)

lemma hoare_pure: "(F \<Longrightarrow> hoare P m Q E) \<Longrightarrow> hoare (\<lambda>s. P s \<and> F) m Q E"
  unfolding hoare_def by blast

lemma stays_bindR:
  assumes "stays P m" "\<And>x. hoare P (f x) Q E" "\<And>s. P s \<Longrightarrow> E s"
  shows "hoare P (x_bind m f) Q E"
  by (rule hoare_bind [OF hoare_weaken [OF assms(1)] assms(2)]) (auto intro: assms(3))

lemma pure_bindR:
  assumes "hoare P m (\<lambda>x s. P s \<and> F x) P" "\<And>x. F x \<Longrightarrow> hoare P (f x) Q E" "\<And>s. P s \<Longrightarrow> E s"
  shows "hoare P (x_bind m f) Q E"
  by (rule hoare_bind [OF hoare_weaken [OF assms(1)] hoare_pure [OF assms(2)]]) (auto intro: assms(3))

lemma lift_pure: "hoare P (x_lift m) (\<lambda>x s. P s \<and> m = Return x) P"
  by (rule hoare_lift) auto

lemma stays_published:
  assumes "\<And>t f. R t \<Longrightarrow> R (t\<lparr>es_exec := (es_exec t)\<lparr>ex_published := f\<rparr>\<rparr>)"
  shows "stays R (x_publish e)"
  using assms by (auto simp: hoare_def x_publish_def x_modify_def)

lemma commit_added:
  assumes "ch_dataAccess ch = Some d" "(last_header d :: (exec_error, _) outcome) = Return lh"
    and "blk_Header block = Some header" "bh_Height header = bh_Height lh + 1"
    and A: "\<And>t. A t \<longleftrightarrow> added env ch block removeTemp (ex_chain (es_exec t))"
    and R: "\<And>t. R t \<longleftrightarrow> ex_chain (es_exec t) = ch \<or> A t"
  shows "hoare (before_commit ch (da_database d) state_db (bh_Height header))
    (commit_block env abi i state_db header block removeTemp events nvp) (\<lambda>_. A) R"
proof -
  let ?B = "before_commit ch (da_database d) state_db (bh_Height header)"
  have B: "R t" if "?B t" for t using that by (simp add: R before_commit_def)
  have pub: "stays A (x_publish e)" for e by (rule stays_published) (simp add: A)
  have add: "hoare ?B (x_addBlock env b block es f removeTemp) (\<lambda>_. A) R"
    if "added env ch block removeTemp (snd (AddBlock (env_nfc env) ch b block es f removeTemp))" for b es f
    using that by (auto simp: hoare_def x_addBlock_def A R before_commit_def split: prod.splits outcome.splits)
  have commit: "hoare ?B (\<lambda>s. Some (Return (Database_Commit (env_order env) (es_world s) state_db []), s))
      (\<lambda>x t. ?B t \<and> (\<exists>w. bft_inv (da_database d) state_db (bh_Height header) w \<and> Database_Commit (env_order env) w state_db [] = x)) ?B"
    by (auto simp: hoare_def before_commit_def)
  have tail: "hoare ?B
      (x_bind (x_addBlock env (b @ dels) block events (max cur maxPre) removeTemp) (\<lambda>_.
       x_bind (if maxPre > cur then x_publish e1 else x_return ()) (\<lambda>_. x_bind (x_publish e2) (\<lambda>_. tl1)))) (\<lambda>_. A) R"
    if "stays A tl1" "bft_inv (da_database d) state_db (bh_Height header) w" "Database_Commit (env_order env) w state_db [] = (batch, diff)"
      "length (Diff_Encode diff) < 2 ^ 63" "GetFinalizedHeight d = Return cur" "maxPre \<le> bh_Height header" "obsolete maxPre dels"
      "b = batch @ [BatchSet (diff_key (bh_Height header)) (Diff_Encode diff)]"
    for b dels cur maxPre e1 e2 w batch diff and tl1 :: "('a, unit) exec"
  proof (rule hoare_bind [OF add])
    show "added env ch block removeTemp (snd (AddBlock (env_nfc env) ch (b @ dels) block events (max cur maxPre) removeTemp))"
      unfolding added_def
      by (insert that(4), rule exI [of _ d], rule exI [of _ lh], rule exI [of _ header], rule exI [of _ events],
          rule exI [of _ w], rule exI [of _ batch], rule exI [of _ diff], rule exI [of _ cur], rule exI [of _ maxPre],
          rule exI [of _ dels], simp add: assms(1-4) that(2-8) flip: assms(4))
    have "stays A (x_bind (if maxPre > cur then x_publish e1 else x_return ()) (\<lambda>_. x_bind (x_publish e2) (\<lambda>_. tl1)))"
      by (intro prog_rules pub that(1))
    then show "hoare A (x_bind (if maxPre > cur then x_publish e1 else x_return ()) (\<lambda>_. x_bind (x_publish e2) (\<lambda>_. tl1))) (\<lambda>_. A) R" for x
      by (rule hoare_weaken) (auto simp: R)
  qed
  have dels: "hoare ?B (if c then x_lift (delete_diffs maxPre (DB_IterateKey st (DBPrefixToBytes DBPrefixStateDiff) (-1) False) b) else x_return b)
      (\<lambda>x t. ?B t \<and> (\<exists>dels. x = b @ dels \<and> obsolete maxPre dels)) ?B" for c maxPre st b
  proof -
    have "\<exists>dels. x = b @ dels \<and> obsolete maxPre dels"
      if "(delete_diffs maxPre (DB_IterateKey st [51] (-1) False) b :: (exec_error, _) outcome) = Return x" for x
      using delete_diffs_obsolete [OF IterateKey_prefix that] .
    then show ?thesis
      by (cases c) (auto simp: DBPrefixToBytes_def obsolete_def intro!: hoare_lift hoare_return)
  qed
  have nv: "stays A (case nvp of None \<Rightarrow> x_return () | Some p \<Rightarrow> x_publish (f p))" for f by (intro prog_rules pub)
  show ?thesis
    unfolding commit_block_def
    apply (rule stays_bindR [OF stays_api(1) _ B])
    apply (rule stays_bindR [OF stays_basic(4) _ B])
    apply (rule stays_bindR [OF stays_basic(4) _ B])
    apply (rule pure_bindR [OF before_dataAccess _ B])
    apply (rule pure_bindR [OF lift_pure _ B])
    apply (rule pure_bindR [OF before_db [OF bs.keeps_heights] _ B])
    apply (clarsimp simp only: prod.case)
    apply (rule pure_bindR [OF commit _ B])
    apply (clarsimp simp only: prod.case)
    apply (rule pure_bindR [OF lift_pure _ B])
    apply (clarsimp simp only: as_slice_Return Let_def)
    apply (rule stays_bindR [OF before_lastHeader _ B])
    apply (rule stays_bindR [OF before_abi _ B])
    apply (rule pure_bindR [OF dels _ B])
    apply (elim exE conjE, hypsubst)
    apply (rule tail [OF nv])
    apply (use assms(1) in \<open>auto simp: Batch_Set_def wrap_error_def split: outcome.splits\<close>)
    done
qed

section \<open>Processing and deleting\<close>

text \<open>The votes stored under a map of keys have heights up to a bound.\<close>

definition votes_key :: bytes where
  "votes_key = 10 # dbPrefix storePrefixBFTVotes"

definition votes_upto :: "u32 \<Rightarrow> (bytes \<rightharpoonup> bytes) \<Rightarrow> bool" where
  "votes_upto H m \<longleftrightarrow> (\<forall>b v. m votes_key = Some b \<longrightarrow> BFTVotes_Decode b = Return v \<longrightarrow> good_votes H v)"

lemma votes_upto_mono: "votes_upto H m \<Longrightarrow> H \<le> H' \<Longrightarrow> votes_upto H' m"
  unfolding votes_upto_def by (blast intro: good_votes_mono)

lemma new_state_db:
  "Database_New \<lparr>w_store = st, w_caches = []\<rparr> (DBPrefixToBytes DBPrefixState) = (\<lparr>w_store = st, w_caches = [newCacheDB]\<rparr>, state_db)"
  by (simp add: Database_New_def DBPrefixToBytes_def state_db_def)

lemma bft_inv_new:
  assumes "store_ok st" "votes_upto H (DB_Get st)"
  shows "bft_inv st state_db H \<lparr>w_store = st, w_caches = [newCacheDB]\<rparr>"
  using assms
  by (simp add: bft_inv_def db_ok_def cache_ok_def newCacheDB_def state_db_def view_def raw_def Database_WithPrefix_def
      emptyKey_def votes_upto_def votes_key_def Join_def)



lemma verifyBlock_then:
  fixes header :: BlockHeader and t0 :: "'a exec_state"
  defines "F \<equiv> \<exists>d lh. ch_dataAccess (ex_chain (es_exec t0)) = Some d
      \<and> (last_header d :: (exec_error, _) outcome) = Return lh \<and> bh_Height header = bh_Height lh + 1"
  assumes "R t0" "\<And>t. before_commit ch st s H t \<Longrightarrow> R t" and "F \<Longrightarrow> before_commit ch st s H t0"
  shows "hoare (\<lambda>t. t = t0) (verifyBlock env now s header) (\<lambda>_ t. before_commit ch st s H t \<and> F) R"
  unfolding verifyBlock_def
proof (rule hoare_bind [where Q = "\<lambda>_ t. before_commit ch st s H t \<and> F"])
  show "hoare (\<lambda>t. t = t0) (verify_position now header) (\<lambda>_ t. before_commit ch st s H t \<and> F) R"
    by (rule hoare_weaken [OF position_ok]) (use assms(2,4) in \<open>auto simp: F_def\<close>)
next
  fix x
  show "hoare (\<lambda>t. before_commit ch st s H t \<and> F)
     (x_bind (x_db (GetGeneratorKeys (env_order env) s (bh_Height header))) (\<lambda>generators.
     x_bind (x_get ex_blockSlot) (\<lambda>slot.
     x_bind (x_lift (AtTimestamp generators slot (bh_Timestamp header))) (\<lambda>generator.
     x_bind (x_if (\<not> Equal (gn_address generator) (bh_GeneratorAddress header)) Err_generator) (\<lambda>_.
     x_bind (x_db (GetBFTHeights s)) (\<lambda>(maxHeightPrevoted, _, _).
     x_bind (x_if (bh_MaxHeightPrevoted header \<noteq> maxHeightPrevoted) Err_max_height_prevoted) (\<lambda>_.
     x_bind (x_db (IsHeaderContradictingChain s header)) (\<lambda>contradicts.
     x_bind (x_if contradicts Err_contradicting) (\<lambda>_.
     x_bind (verifyAggregateCommit env s (bh_AggregateCommit header)) (\<lambda>_.
     x_bind (x_get ex_chain) (\<lambda>chain.
     x_bind (x_lift (BlockHeader_VerifySignature (env_ed_Verify env) header (ch_chainID chain)
                       (gn_generatorKey generator))) (\<lambda>valid.
       x_if (\<not> valid) Err_header_signature)))))))))))) (\<lambda>_ t. before_commit ch st s H t \<and> F) R"
    by (rule hoare_pure, rule hoare_weaken [where P' = "before_commit ch st s H" and Q' = "\<lambda>_. before_commit ch st s H" and E' = "before_commit ch st s H"],
        intro prog_rules) (auto intro: assms(3))
qed

lemma with_store_run:
  assumes "ch_dataAccess (ex_chain c) = Some d" "with_store f c = Some (r, c')"
  shows "\<exists>t'. f state_db \<lparr>es_exec = c, es_world = \<lparr>w_store = da_database d, w_caches = [newCacheDB]\<rparr>\<rparr> = Some (r, t') \<and> c' = es_exec t'"
  using assms by (auto simp: with_store_def new_state_db)

lemma with_store_hoare:
  assumes "ch_dataAccess (ex_chain c) = Some d" "with_store f c = Some (r, c')"
    and "hoare (\<lambda>t. t = \<lparr>es_exec = c, es_world = \<lparr>w_store = da_database d, w_caches = [newCacheDB]\<rparr>\<rparr>) (f state_db) (\<lambda>_. A) R"
  shows "\<exists>t'. c' = es_exec t' \<and> (case r of Return _ \<Rightarrow> A t' | _ \<Rightarrow> R t')"
  using with_store_run [OF assms(1,2)] hoareD [OF assms(3) refl] by (cases r) fastforce+

abbreviation execution :: "environment \<Rightarrow> 'app ABI \<Rightarrow> BlockHeader \<Rightarrow> Block \<Rightarrow> bool \<Rightarrow> ('app, unit) exec" where
  "execution env abi header block removeTemp \<equiv>
     x_bind (x_abi (abi_InitStateMachine abi header)) (\<lambda>i.
       x_defer (x_abi (abi_Clear abi))
         (x_bind (x_abi (abi_VerifyAssets abi i (blk_Assets block))) (\<lambda>_.
          x_bind (stateExecuter_Execute env abi i state_db header block) (\<lambda>(events, nvp).
               commit_block env abi i state_db header block removeTemp events nvp))))"

lemma execution_added:
  assumes "ch_dataAccess ch = Some d" "(last_header d :: (exec_error, _) outcome) = Return lh"
    and "blk_Header block = Some header" "bh_Height header = bh_Height lh + 1"
    and A: "\<And>t. A t \<longleftrightarrow> added env ch block removeTemp (ex_chain (es_exec t))"
    and R: "\<And>t. R t \<longleftrightarrow> ex_chain (es_exec t) = ch \<or> A t"
  shows "hoare (before_commit ch (da_database d) state_db (bh_Height header)) (execution env abi header block removeTemp) (\<lambda>_. A) R"
proof -
  have B: "R t" if "before_commit ch (da_database d) state_db H t" for H t using that by (simp add: R before_commit_def)
  have clean: "stays A (x_abi m)" "stays R (x_abi m)" for m :: "('a, 'b) abi_call"
    by (auto simp: hoare_def x_abi_def A R split: outcome.splits prod.splits)
  show ?thesis
    apply (rule stays_bindR [OF before_abi _ B], rule hoare_defer [OF _ clean])
    apply (rule stays_bindR [OF before_abi _ B], rule stays_bindR [OF stays_Execute [OF order.refl] _ B])
    apply (simp only: split: prod.split, intro allI impI, rule commit_added [OF assms(1-4) A R])
    apply (assumption | simp add: R)+
    done
qed

lemma processValidated_added:
  assumes d: "ch_dataAccess (ex_chain c) = Some d" "store_ok (da_database d)"
    and votes: "\<And>lh. (last_header d :: (exec_error, _) outcome) = Return lh \<Longrightarrow> votes_upto (bh_Height lh) (DB_Get (da_database d))"
    and pos: "\<And>h. blk_Header block = Some h \<Longrightarrow> bh_Height h \<noteq> 0"
    and run: "processValidated env abi now block removeTemp c = Some (r, c')"
  shows "added env (ex_chain c) block removeTemp (ex_chain c') \<or> ex_chain c' = ex_chain c \<and> r \<noteq> Return ()"
proof -
  let ?st = "da_database d" and ?ch = "ex_chain c"
  define t0 where "t0 = \<lparr>es_exec = c, es_world = \<lparr>w_store = ?st, w_caches = [newCacheDB]\<rparr>\<rparr>"
  define A where "A t \<longleftrightarrow> added env ?ch block removeTemp (ex_chain (es_exec t))" for t :: "'a exec_state"
  define R where "R t \<longleftrightarrow> ex_chain (es_exec t) = ?ch \<or> A t" for t :: "'a exec_state"
  have main: "hoare (\<lambda>t. t = t0) (x_bind (verifyBlock env now state_db header) (\<lambda>_. execution env abi header block removeTemp)) (\<lambda>_. A) R"
    if h: "blk_Header block = Some header" for header
  proof (rule hoare_bind [OF verifyBlock_then [where ch = ?ch and st = ?st and H = "bh_Height header"] hoare_pure])
    let ?F = "\<exists>d lh. ch_dataAccess (ex_chain (es_exec t0)) = Some d
        \<and> (last_header d :: (exec_error, _) outcome) = Return lh \<and> bh_Height header = bh_Height lh + 1"
    have lh: "\<exists>lh. (last_header d :: (exec_error, _) outcome) = Return lh \<and> bh_Height header = bh_Height lh + 1" if ?F
      using that d(1) by (auto simp: t0_def)
    show "before_commit ?ch ?st state_db (bh_Height header) t0" if F: ?F
    proof -
      obtain lh where lh: "(last_header d :: (exec_error, _) outcome) = Return lh" "bh_Height header = bh_Height lh + 1"
        using lh [OF F] by blast
      then have "bh_Height lh \<le> bh_Height header"
        using pos [OF h] unatSuc [of "bh_Height lh"] by (simp add: word_le_nat_alt add.commute)
      then show ?thesis using bft_inv_new [OF d(2) votes_upto_mono [OF votes [OF lh(1)]]] by (simp add: before_commit_def t0_def)
    qed
    show "hoare (before_commit ?ch ?st state_db (bh_Height header)) (execution env abi header block removeTemp) (\<lambda>_. A) R" if ?F
      using lh [OF that] execution_added [OF d(1) _ h _ A_def R_def] by blast
  qed (simp_all add: R_def t0_def before_commit_def)
  have "hoare (\<lambda>t. t = t0) (x_bind (x_lift (header_of block)) (\<lambda>header.
     x_bind (verifyBlock env now state_db header) (\<lambda>_. execution env abi header block removeTemp))) (\<lambda>_. A) R"
    by (rule pure_bindR [OF lift_pure main]) (auto simp: header_of_def R_def t0_def split: option.splits)
  from with_store_hoare [OF d(1) run [unfolded processValidated_def] this [unfolded t0_def]]
  show ?thesis by (cases r) (auto simp: A_def R_def)
qed

text \<open>The one way in which deleting a block changes the chain.\<close>

definition deleted :: "environment \<Rightarrow> Chain \<Rightarrow> Block \<Rightarrow> bool \<Rightarrow> Chain \<Rightarrow> bool" where
  "deleted env ch block saveTemp ch' \<longleftrightarrow>
     (\<exists>d header fin diffBytes diff.
        ch_dataAccess ch = Some d \<and> blk_Header block = Some header \<and> GetFinalizedHeight d = Return fin
        \<and> fin < bh_Height header \<and> DB_Get (da_database d) (diff_key (bh_Height header)) = Some diffBytes
        \<and> Diff_Decode diffBytes = Return diff
        \<and> RemoveBlock (env_nfc env) ch (Database_RevertDiff [] diff @ [BatchDel (diff_key (bh_Height header))]) saveTemp
            = (Return (), ch'))"

definition chain_is :: "Chain \<Rightarrow> 'app exec_state \<Rightarrow> bool" where
  "chain_is ch t \<longleftrightarrow> ex_chain (es_exec t) = ch"

lemma chain_calls:
  shows "hoare (chain_is ch) x_dataAccess (\<lambda>d t. chain_is ch t \<and> ch_dataAccess ch = Some d) (chain_is ch)"
    and "stays (chain_is ch) (x_headerByHeight h)" "stays (chain_is ch) (x_abi m)"
  by (auto simp: chain_is_def hoare_def x_dataAccess_def x_headerByHeight_def x_abi_def x_bind_def x_get_def x_lift_def deref_def
      split: outcome.splits option.splits prod.splits)

lemma RemoveBlock_fails: "RemoveBlock nfc ch b saveTemp = (r, ch') \<Longrightarrow> r \<noteq> Return () \<Longrightarrow> ch' = ch"
  by (auto simp: RemoveBlock_def split: outcome.splits)

lemma revert_deleted:
  assumes d: "ch_dataAccess ch = Some d" and g: "GetFinalizedHeight d = Return fin" "blk_Header block = Some header" "fin < bh_Height header"
    and A: "\<And>t. A t \<longleftrightarrow> deleted env ch block saveTemp (ex_chain (es_exec t))"
    and R: "\<And>t. R t \<longleftrightarrow> chain_is ch t \<or> A t"
  shows "hoare (chain_is ch) (revert_block env abi i header h2 block saveTemp) (\<lambda>_. A) R"
  unfolding revert_block_def Let_def
proof (rule pure_bindR [OF chain_calls(1)])
  fix d' assume "ch_dataAccess ch = Some d'"
  then have d': "d' = d" using d by simp
  have remove: "hoare (chain_is ch) (x_removeBlock env b saveTemp) (\<lambda>_. A) R"
    if "\<And>ch'. RemoveBlock (env_nfc env) ch b saveTemp = (Return (), ch') \<Longrightarrow> deleted env ch block saveTemp ch'" for b
    using that RemoveBlock_fails [of "env_nfc env" ch b saveTemp]
    by (auto simp: hoare_def x_removeBlock_def A R chain_is_def wrap_error_def split: prod.splits outcome.splits)
  have pub: "hoare A (x_publish e) (\<lambda>_. A) R" for e by (rule hoare_weaken [OF stays_published [of A]]) (auto simp: A R)
  show "hoare (chain_is ch) (case DB_Get (da_database d') (diff_key (bh_Height header)) of
       None \<Rightarrow> x_error Err_no_diff
     | Some diffBytes \<Rightarrow>
         x_bind (x_lift (wrap_error Err_diff (Diff_Decode diffBytes))) (\<lambda>diff.
           x_bind (x_abi (abi_Revert abi i (bh_StateRoot header) (bh_StateRoot h2))) (\<lambda>_.
           x_bind (x_removeBlock env (Batch_Del (Database_RevertDiff [] diff) (diff_key (bh_Height header))) saveTemp) (\<lambda>_.
             x_publish (EventBlockDelete block))))) (\<lambda>_. A) R"
  proof (cases "DB_Get (da_database d') (diff_key (bh_Height header))")
    case (Some diffBytes)
    have "deleted env ch block saveTemp ch'"
      if "RemoveBlock (env_nfc env) ch (Batch_Del (Database_RevertDiff [] diff) (diff_key (bh_Height header))) saveTemp = (Return (), ch')"
        "wrap_error Err_diff (Diff_Decode diffBytes) = Return diff" for diff ch'
      using that g Some d d' by (auto simp: deleted_def Batch_Del_def wrap_error_def split: outcome.splits)
    then show ?thesis
      unfolding Some option.case
      by (intro pure_bindR [OF lift_pure] stays_bindR [OF chain_calls(3)] hoare_bind [OF remove pub]) (auto simp: R)
  qed (auto intro: hoare_error simp: R)
qed (simp add: R)

lemma deleteBlock_deleted:
  assumes "deleteBlock env abi block saveTemp c = Some (r, c')"
  shows "deleted env (ex_chain c) block saveTemp (ex_chain c') \<or> ex_chain c' = ex_chain c \<and> r \<noteq> Return ()"
proof (cases "ch_dataAccess (ex_chain c)")
  case None
  then show ?thesis using assms by (auto simp: deleteBlock_def with_store_def)
next
  case (Some d)
  let ?ch = "ex_chain c" and ?K = "chain_is (ex_chain c)"
  define A where "A t \<longleftrightarrow> deleted env ?ch block saveTemp (ex_chain (es_exec t))" for t :: "'a exec_state"
  define R where "R t \<longleftrightarrow> ?K t \<or> A t" for t :: "'a exec_state"
  have B: "R t" if "?K t" for t using that by (simp add: R_def)
  have clean: "stays A (x_abi m)" "stays R (x_abi m)" for m :: "('a, 'b) abi_call"
    by (auto simp: hoare_def x_abi_def A_def R_def chain_is_def split: outcome.splits prod.splits)
  have revert: "hoare ?K (revert_block env abi i header h2 block saveTemp) (\<lambda>_. A) R"
    if "GetFinalizedHeight d = Return fin" "blk_Header block = Some header" "fin < bh_Height header" for i header h2 fin
    by (rule revert_deleted [OF Some that A_def R_def])
  have "\<exists>t'. c' = es_exec t' \<and> (case r of Return _ \<Rightarrow> A t' | _ \<Rightarrow> R t')"
    apply (rule with_store_hoare [OF Some assms [unfolded deleteBlock_def]])
    apply (rule hoare_pre [where P' = ?K])
    apply (rule pure_bindR [OF chain_calls(1) _ B], rule pure_bindR [OF lift_pure _ B], rule pure_bindR [OF lift_pure _ B])
    apply (rule pure_bindR [OF hoare_if _ B], assumption, rule stays_bindR [OF chain_calls(2) _ B], rule stays_bindR [OF chain_calls(3) _ B])
    apply (rule hoare_defer [OF revert clean])
    apply (use Some in \<open>auto simp: chain_is_def R_def wrap_error_def header_of_def split: outcome.splits option.splits\<close>)
    done
  then show ?thesis by (cases r) (auto simp: A_def R_def chain_is_def)
qed

end
