(* ===== verification/Finality.thy ===== *)
theory Finality
  imports Executer_Rules
begin

text \<open>
  The two main properties of the executer, from its rules: finalized blocks stay whatever blocks are
  processed and deleted, and deleting a block restores the state before it.
\<close>

end
