(* ===== verification/Spec2Isabelle.thy ===== *)
theory Spec2Isabelle
  imports Finality
begin

text \<open>
  A verification of the Lisk engine (\<^verbatim>\<open>src/pkg\<close>), the part of a Lisk node that keeps the chain of
  blocks and decides, with the other validators, which blocks are final.

  \<^bold>\<open>The program.\<close>  A block comes from the network or from the node itself.  The executer
  (\<^verbatim>\<open>consensus/execute.go\<close>) compares it with the last block (\<^verbatim>\<open>consensus/forkchoice\<close>), verifies its
  header (\<^verbatim>\<open>consensus/verify.go\<close>), counts the votes that the header implies
  (\<^verbatim>\<open>consensus/liskbft\<close>), lets the application execute it (\<^verbatim>\<open>labi\<close>), and writes the block, the
  changed state and the diff that undoes the change in one batch (\<^verbatim>\<open>blockchain\<close>, \<^verbatim>\<open>db/diffdb\<close>,
  \<^verbatim>\<open>db\<close>).  Deleting the last block applies the diff.  Validators certify final blocks with BLS
  signatures that are gossiped, pooled and aggregated into later headers
  (\<^verbatim>\<open>consensus/certificate\<close>).  Everything that is stored or sent is encoded by \<^verbatim>\<open>codec\<close>.

  \<^bold>\<open>The model.\<close>  Data are records and datatypes with the fields of the source, machine integers are
  words, byte slices are lists.  A call returns \<open>Return\<close>, \<open>Error\<close> or \<open>Panic\<close>; a loop that may
  run forever gives \<^const>\<open>None\<close> for not returning, and no fuel is used anywhere.  State is passed
  explicitly.  Pointers that may be nil are options, and dereferencing nil panics.  What the code
  takes from foreign libraries is an argument: Unicode normalisation, Ed25519 and BLS signatures,
  the iteration order of Go maps, the order in which the goroutines of a group finish, the clock,
  the application and the network.  Theorems name what they need of an argument, and their witnesses
  use concrete functions.

  \<^bold>\<open>The theories.\<close>
  \<^item> \<open>Go_Prelude\<close>: results, sorting with \<^verbatim>\<open>sort.Slice\<close>, and the lemmas shared by all theories.
  \<^item> \<open>Collections\<close>: \<^verbatim>\<open>collection\<close> and \<^verbatim>\<open>math\<close>.
  \<^item> \<open>Codec_Varint\<close>, \<open>Codec_Writer\<close>, \<open>Codec_Reader\<close>: \<^verbatim>\<open>codec\<close>; \<open>Codec_Laws\<close> proves once, in the
    locales \<open>item_reader\<close>, \<open>decoder\<close> and \<open>message\<close>, that a decoder whose reads mirror its
    encoder recovers every message, rejects all other bytes in strict mode and does not panic.
  \<^item> \<open>Blockchain_Codec\<close>, \<open>Consensus_Codec\<close>: the generated codecs of \<^verbatim>\<open>blockchain\<close> and \<^verbatim>\<open>consensus\<close>;
    every message interprets the locale \<open>message\<close>.
  \<^item> \<open>Crypto\<close>: SHA-256, addresses, aggregation bits.  \<open>Rmt\<close>: \<^verbatim>\<open>trie/rmt\<close>; appending to a stored
    tree gives the root of hashing the whole list.
  \<^item> \<open>Blockchain\<close>: blocks, transactions, events and their validation.
  \<^item> \<open>Db\<close>, \<open>Diffdb\<close>: the store and the state database over it.  Both interpret the locale
    \<open>kv_store\<close>; commit equals writing directly, revert restores the store, ranges show exactly
    what a reader should see.
  \<^item> \<open>Block_Cache\<close>, \<open>Chain\<close>: the cache refines a bounded list of consecutive blocks (locale
    \<open>bounded_stack\<close>); added blocks are found again, removing undoes adding, a restart restores
    the cache.
  \<^item> \<open>Consensus_Rules\<close>: slots, validators hash, contradicting headers, fork choice.
  \<^item> \<open>Liskbft\<close>: votes and parameters.  Recorded heights never decrease, the votes are those that
    the headers imply, quorums intersect, and the parameter cache equals the stored parameters.
  \<^item> \<open>Certificates\<close>, \<open>Single_Commits\<close>: certificates, the pool, and how the executer uses them.
  \<^item> \<open>Executer\<close>: verification, execution, commit and deletion of blocks.

  \<^bold>\<open>Not modelled.\<close>  \<^verbatim>\<open>Executer.Init\<close> and \<^verbatim>\<open>processGenesisBlock\<close>, because the event root of the genesis
  block needs the sparse Merkle tree (\<^verbatim>\<open>trie/smt\<close>), which is left out as a whole; proofs, right
  witnesses and updates of \<^verbatim>\<open>trie/rmt\<close>; the synchroniser (\<^verbatim>\<open>consensus/sync\<close>), the transaction pool,
  the generator and the network, which are goroutines, timers and messages around foreign
  libraries; the side of the application (\<^verbatim>\<open>statemachine\<close>, \<^verbatim>\<open>framework\<close>); servers, configuration,
  logging, JSON and the commands.  Mutexes are not part of any state: each operation is one step.
\<close>

end
